(* ===== verification/Go_Prelude.thy ===== *)
theory Go_Prelude
  imports Main "HOL-Library.Word" "HOL-Library.Sublist"
begin

text \<open>
  Shared vocabulary of the development: the Go values the program computes with, the four
  ways a Go call can end, and the generic list and byte lemmas the components use.

  A Go \<^verbatim>\<open>[]byte\<close> is a list of 8-bit words. A Go \<^verbatim>\<open>string\<close> is a sequence of bytes and is modelled
  by \<^typ>\<open>string\<close>, whose characters are exactly the 256 byte values; the conversions
  \<^verbatim>\<open>[]byte(s)\<close> and \<^verbatim>\<open>string(b)\<close> are the bijections \<open>str_bytes\<close> and \<open>bytes_str\<close>. Go's
  \<^verbatim>\<open>int\<close> and \<^verbatim>\<open>int64\<close> are \<^typ>\<open>int\<close>, with \<open>wrap64\<close> applied wherever an operation can leave the
  64-bit range.
\<close>

unbundle bit_operations_syntax

section \<open>Bytes, strings and integers\<close>

type_synonym byte = "8 word"

definition byte_of :: "char \<Rightarrow> byte" where
  "byte_of c = of_char c"

definition char_of_byte :: "byte \<Rightarrow> char" where
  "char_of_byte b = char_of (unat b)"

definition str_bytes :: "string \<Rightarrow> byte list" where
  "str_bytes s = map byte_of s"

definition bytes_str :: "byte list \<Rightarrow> string" where
  "bytes_str bs = map char_of_byte bs"

text \<open>Two's complement wrap-around of a 64-bit signed integer.\<close>

definition wrap64 :: "int \<Rightarrow> int" where
  "wrap64 x = (x + 2 ^ 63) mod 2 ^ 64 - 2 ^ 63"

definition in_int64 :: "int \<Rightarrow> bool" where
  "in_int64 x \<longleftrightarrow> - (2 ^ 63) \<le> x \<and> x < 2 ^ 63"

section \<open>Errors, panics and outcomes\<close>

text \<open>
  One constructor per error the sources build, named after the message; \<open>External\<close> carries an
  error returned by code outside the repository (the bencode package, the resolver, sockets).
\<close>

datatype go_error =
    MissingKey string
  | KeyTypeMismatch
  | InvalidKeyType
  | InvalidLength nat
  | HexInvalidByte char
  | HexOddLength
  | AddrMissingPort
  | AddrTooManyColons
  | AddrMissingBracket
  | AddrUnexpectedBracket
  | InfohashMismatch
  | NeitherLengthNorFiles
  | Blacklisted string
  | MissingRequestType
  | ErrorPacketWrongLength nat
  | IgnoringPort0
  | InvalidTorrent go_error
  | ReadError
  | EndOfBuffer
  | DataTooLong
  | InvalidHandshake
  | InvalidExtendedID
  | NoPiecesFound
  | MetadataSizeTooLong
  | IncompletePiece int
  | IncorrectFinalPiece int
  | ScanArity nat nat
  | ScanConversion
  | ForeignKeyViolation
  | Postgres string
  | NoRows
  | Wrapped string "go_error option"
  | External string

datatype go_panic = IndexOutOfRange | SliceOutOfRange | TypeAssertion | MakeSliceLength | MakeChanSize | NilDereference | MustCompile

text \<open>
  How a Go call ends: with a value, with a non-nil error, with a run-time panic, or never.
\<close>

datatype 'a outcome = Ok 'a | Err go_error | Panic go_panic | Hang

fun is_panic :: "'a outcome \<Rightarrow> bool" where
  "is_panic (Panic p) = True"
| "is_panic _ = False"

fun is_err :: "'a outcome \<Rightarrow> bool" where
  "is_err (Err e) = True"
| "is_err _ = False"

text \<open>
  Going on with the value of a call; an error is returned to the caller (the \<^verbatim>\<open>if err != nil\<close> idiom)
  and a panic unwinds.
\<close>

fun and_then :: "'a outcome \<Rightarrow> ('a \<Rightarrow> 'b outcome) \<Rightarrow> 'b outcome" where
  "and_then (Ok x) f = f x"
| "and_then (Err e) f = Err e"
| "and_then (Panic p) f = Panic p"
| "and_then Hang f = Hang"

text \<open>Indexing a slice, which panics outside its bounds.\<close>

definition index_go :: "'a list \<Rightarrow> int \<Rightarrow> 'a outcome" where
  "index_go xs i =
     (if 0 \<le> i \<and> i < int (length xs) then Ok (xs ! nat i) else Panic IndexOutOfRange)"

text \<open>The slice expression \<^verbatim>\<open>xs[i:j]\<close> of a value whose capacity is its length (a string).\<close>

definition slice_go :: "'a list \<Rightarrow> int \<Rightarrow> int \<Rightarrow> 'a list outcome" where
  "slice_go xs i j =
     (if 0 \<le> i \<and> i \<le> j \<and> j \<le> int (length xs)
      then Ok (take (nat (j - i)) (drop (nat i) xs)) else Panic SliceOutOfRange)"

section \<open>Shared lemmas\<close>

named_theorems outcome_defs \<comment> \<open>unfolds the accessors that may panic\<close>
declare index_go_def [outcome_defs] slice_go_def [outcome_defs]

lemma unat_byte_of: "unat (byte_of c) = of_char c"
proof -
  have "(of_char c :: nat) mod 256 = of_char c" by simp
  then have "take_bit 8 (of_char c :: nat) = of_char c"
    by (simp only: take_bit_eq_mod) simp
  moreover have "byte_of c = word_of_nat (of_char c)"
    by (simp only: byte_of_def of_nat_of_char)
  ultimately show ?thesis
    by (simp add: unsigned_of_nat)
qed

lemma char_of_byte_of [simp]: "char_of_byte (byte_of c) = c"
  by (simp add: char_of_byte_def unat_byte_of)

lemma byte_of_char_of_byte [simp]: "byte_of (char_of_byte b) = b"
proof -
  have "unat b < 256" using unsigned_less [of b] by simp
  then have "(of_char (char_of (unat b)) :: nat) = unat b"
    by (simp add: of_char_of take_bit_nat_eq_self)
  then have "unat (byte_of (char_of_byte b)) = unat b"
    by (simp add: unat_byte_of char_of_byte_def)
  then show ?thesis by (rule word_unat_eq_iff [THEN iffD2])
qed

lemma bytes_str_bytes [simp]: "bytes_str (str_bytes s) = s"
  by (simp add: bytes_str_def str_bytes_def comp_def)

lemma str_bytes_str [simp]: "str_bytes (bytes_str b) = b"
  by (simp add: bytes_str_def str_bytes_def comp_def)

lemma length_str_bytes [simp]: "length (str_bytes s) = length s"
  by (simp add: str_bytes_def)

lemma length_bytes_str [simp]: "length (bytes_str b) = length b"
  by (simp add: bytes_str_def)

lemma str_bytes_inject [simp]: "str_bytes s = str_bytes t \<longleftrightarrow> s = t"
  by (metis bytes_str_bytes)

lemma bytes_str_inject [simp]: "bytes_str a = bytes_str b \<longleftrightarrow> a = b"
  by (metis str_bytes_str)

lemma wrap64_id: "in_int64 x \<Longrightarrow> wrap64 x = x"
  by (simp add: wrap64_def in_int64_def)

lemma in_int64_wrap64 [simp]: "in_int64 (wrap64 x)"
  by (simp add: wrap64_def in_int64_def)

lemma wrap64_cong: "wrap64 x mod 2 ^ 64 = x mod 2 ^ 64"
  by (simp add: wrap64_def mod_diff_left_eq)

lemma wrap64_add: "wrap64 (wrap64 x + y) = wrap64 (x + y)"
proof -
  have "(wrap64 x + y + 2 ^ 63) mod 2 ^ 64 = ((x + 2 ^ 63) mod 2 ^ 64 + y) mod 2 ^ 64"
    by (simp add: wrap64_def)
  also have "\<dots> = (x + y + 2 ^ 63) mod 2 ^ 64"
    by (simp only: mod_add_left_eq) (simp only: ac_simps)
  finally show ?thesis by (simp only: wrap64_def)
qed

lemma index_go_nth [simp]: "i < length xs \<Longrightarrow> index_go xs (int i) = Ok (xs ! i)"
  by (simp add: index_go_def)

lemma is_panic_iff: "is_panic r \<longleftrightarrow> (\<exists>p. r = Panic p)"
  by (cases r) auto

lemma is_err_iff: "is_err r \<longleftrightarrow> (\<exists>e. r = Err e)"
  by (cases r) auto

lemma and_then_Ok_iff: "and_then r f = Ok y \<longleftrightarrow> (\<exists>x. r = Ok x \<and> f x = Ok y)"
  by (cases r) auto

lemma and_then_Panic_iff: "and_then r f = Panic p \<longleftrightarrow> r = Panic p \<or> (\<exists>x. r = Ok x \<and> f x = Panic p)"
  by (cases r) auto

lemma and_then_assoc: "and_then (and_then r f) g = and_then r (\<lambda>x. and_then (f x) g)"
  by (cases r) auto

lemma and_then_cong [fundef_cong]:
  "r = r' \<Longrightarrow> (\<And>x. r' = Ok x \<Longrightarrow> f x = g x) \<Longrightarrow> and_then r f = and_then r' g"
  by (cases r') auto

lemma and_then_Ok_right [simp]: "and_then r Ok = r"
  by (cases r) auto

lemma option_eqI: "(\<And>v. x = Some v \<longleftrightarrow> y = Some v) \<Longrightarrow> x = y"
  by (cases x; cases y) auto

lemma map_filter_cong:
  "xs = ys \<Longrightarrow> (\<And>x. x \<in> set ys \<Longrightarrow> f x = g x) \<Longrightarrow> List.map_filter f xs = List.map_filter g ys"
  by (induction ys arbitrary: xs) (auto simp: List.map_filter_simps split: option.splits)

end
