(* ===== verification/Go_Std.thy ===== *)
theory Go_Std
  imports Go_Prelude
begin

text \<open>
  The parts of Go's standard library (Go 1.13, the version \<^verbatim>\<open>go.mod\<close> names) that the program's
  pure code calls: \<^verbatim>\<open>encoding/hex\<close>, the decimal verb of \<^verbatim>\<open>fmt\<close>, \<^verbatim>\<open>strconv.ParseUint\<close> at 16
  bits, the conversion of an integer to a string (the UTF-8 encoding of a code point) and
  \<^verbatim>\<open>encoding/binary\<close>'s big-endian \<^verbatim>\<open>int32\<close>.
\<close>

section \<open>Hexadecimal\<close>

definition hex_digits :: string where
  "hex_digits = ''0123456789abcdef''"

definition hex_encode_byte :: "byte \<Rightarrow> string" where
  "hex_encode_byte b =
     [hex_digits ! unat (drop_bit 4 b), hex_digits ! unat (b AND 15)]"

text \<open>\<^verbatim>\<open>hex.EncodeToString\<close>\<close>

definition hex_encode :: "byte list \<Rightarrow> string" where
  "hex_encode bs = concat (map hex_encode_byte bs)"

text \<open>\<^verbatim>\<open>hex.fromHexChar\<close>\<close>

definition from_hex_char :: "char \<Rightarrow> byte option" where
  "from_hex_char c =
     (let n = (of_char c :: nat) in
      if 48 \<le> n \<and> n \<le> 57 then Some (word_of_nat (n - 48))
      else if 97 \<le> n \<and> n \<le> 102 then Some (word_of_nat (n - 97 + 10))
      else if 65 \<le> n \<and> n \<le> 70 then Some (word_of_nat (n - 65 + 10))
      else None)"

text \<open>\<^verbatim>\<open>hex.DecodeString\<close>: pairs of digits, then the check of a left-over digit.\<close>

fun hex_decode :: "string \<Rightarrow> byte list outcome" where
  "hex_decode [] = Ok []"
| "hex_decode [c] =
     (case from_hex_char c of None \<Rightarrow> Err (HexInvalidByte c) | Some _ \<Rightarrow> Err HexOddLength)"
| "hex_decode (c # d # s) =
     (case from_hex_char c of
        None \<Rightarrow> Err (HexInvalidByte c)
      | Some a \<Rightarrow>
          (case from_hex_char d of
             None \<Rightarrow> Err (HexInvalidByte d)
           | Some b \<Rightarrow>
               (case hex_decode s of
                  Ok bs \<Rightarrow> Ok ((push_bit 4 a OR b) # bs)
                | Err e \<Rightarrow> Err e
                | Panic p \<Rightarrow> Panic p
                | Hang \<Rightarrow> Hang)))"

section \<open>Decimal\<close>

definition digit_char :: "nat \<Rightarrow> char" where
  "digit_char d = char_of (48 + d)"

text \<open>\<^verbatim>\<open>%d\<close> of a non-negative number.\<close>

fun dec_str :: "nat \<Rightarrow> string" where
  "dec_str n = (if n < 10 then [digit_char n] else dec_str (n div 10) @ [digit_char (n mod 10)])"

declare dec_str.simps [simp del]

text \<open>\<^verbatim>\<open>%d\<close> of a signed number.\<close>

definition dec_int :: "int \<Rightarrow> string" where
  "dec_int i = (if i < 0 then CHR ''-'' # dec_str (nat (- i)) else dec_str (nat i))"

definition digit_val :: "char \<Rightarrow> nat option" where
  "digit_val c =
     (let n = (of_char c :: nat) in if 48 \<le> n \<and> n \<le> 57 then Some (n - 48) else None)"

text \<open>
  The first result of \<^verbatim>\<open>strconv.ParseUint(s, 10, 16)\<close>: 0 on a syntax error, the largest
  16-bit value on the first overflow.
\<close>

fun parse_u16_loop :: "nat \<Rightarrow> string \<Rightarrow> nat" where
  "parse_u16_loop n [] = n"
| "parse_u16_loop n (c # cs) =
     (case digit_val c of
        None \<Rightarrow> 0
      | Some d \<Rightarrow> (let n' = 10 * n + d in if n' > 65535 then 65535 else parse_u16_loop n' cs))"

definition parse_u16 :: "string \<Rightarrow> nat" where
  "parse_u16 s = parse_u16_loop 0 s"

section \<open>Code points and fixed-width integers\<close>

text \<open>
  \<^verbatim>\<open>string(i)\<close> for an integer \<^verbatim>\<open>i\<close>: the UTF-8 encoding of the code point, and that of U+FFFD
  when \<^verbatim>\<open>i\<close> is not a valid code point.
\<close>

definition utf8_bytes :: "nat \<Rightarrow> nat list" where
  "utf8_bytes r =
     (if r < 128 then [r]
      else if r < 2048 then [192 + r div 64, 128 + r mod 64]
      else if r < 65536 then [224 + r div 4096, 128 + r div 64 mod 64, 128 + r mod 64]
      else [240 + r div 262144, 128 + r div 4096 mod 64, 128 + r div 64 mod 64, 128 + r mod 64])"

definition string_of_int :: "int \<Rightarrow> string" where
  "string_of_int i =
     map char_of
       (if 0 \<le> i \<and> i \<le> 1114111 \<and> \<not> (55296 \<le> i \<and> i \<le> 57343) then utf8_bytes (nat i)
        else utf8_bytes 65533)"

text \<open>\<^verbatim>\<open>binary.Write(buffer, binary.BigEndian, int32)\<close>\<close>

definition be32 :: "32 word \<Rightarrow> byte list" where
  "be32 w = [ucast (drop_bit 24 w), ucast (drop_bit 16 w), ucast (drop_bit 8 w), ucast w]"

section \<open>Lemmas\<close>

lemma length_hex_encode [simp]: "length (hex_encode bs) = 2 * length bs"
  by (induction bs) (simp_all add: hex_encode_def hex_encode_byte_def)

lemma hex_encode_Nil [simp]: "hex_encode [] = []"
  by (simp add: hex_encode_def)

lemma hex_encode_Cons: "hex_encode (b # bs) = hex_encode_byte b @ hex_encode bs"
  by (simp add: hex_encode_def)

lemma from_hex_digit:
  assumes "n < 16"
  shows "from_hex_char (hex_digits ! n) = Some (word_of_nat n)"
proof -
  have "list_all (\<lambda>n. from_hex_char (hex_digits ! n) = Some (word_of_nat n)) [0..<16]"
    by (simp add: upt_rec from_hex_char_def hex_digits_def)
  with assms show ?thesis by (simp add: list_all_iff del: upt_rec_numeral)
qed

lemma unat_nibbles: "unat (drop_bit 4 (b :: byte)) < 16" "unat (b AND 15) < 16"
proof -
  have "unat b < 256" using unsigned_less [of b] by simp
  then show "unat (drop_bit 4 b) < 16"
    by (simp add: drop_bit_eq_div unat_div)
  have "unat (b AND 15) \<le> unat (15 :: byte)"
    by (rule word_and_le1 [THEN word_le_nat_alt [THEN iffD1]])
  then show "unat (b AND 15) < 16" by simp
qed

lemma nibbles_join: "push_bit 4 (drop_bit 4 b) OR (b AND 15) = (b :: byte)"
proof (rule bit_word_eqI)
  fix n
  assume "n < LENGTH(8)"
  have "bit (15 :: byte) n \<longleftrightarrow> n < 4" if "n < 8" for n :: nat
  proof -
    have "(15 :: byte) = mask 4" by (simp add: mask_eq_exp_minus_1)
    with that show ?thesis by (simp only: bit_mask_iff) simp
  qed
  with \<open>n < LENGTH(8)\<close> show "bit (push_bit 4 (drop_bit 4 b) OR (b AND 15)) n = bit b n"
    by (auto simp: bit_or_iff bit_and_iff bit_push_bit_iff bit_drop_bit_eq)
qed

lemma hex_decode_encode [simp]: "hex_decode (hex_encode bs) = Ok bs"
  by (induction bs)
    (simp_all add: hex_encode_Cons hex_encode_byte_def from_hex_digit unat_nibbles nibbles_join)

lemma hex_decode_length: "hex_decode s = Ok bs \<Longrightarrow> 2 * length bs = length s"
  by (induction s arbitrary: bs rule: hex_decode.induct)
    (auto split: option.splits outcome.splits)

lemma hex_decode_cases: "(\<exists>bs. hex_decode s = Ok bs) \<or> (\<exists>e. hex_decode s = Err e)"
  by (induction s rule: hex_decode.induct)
    (fastforce split: option.splits outcome.splits)+

lemma of_char_digit_char: "d < 10 \<Longrightarrow> (of_char (digit_char d) :: nat) = 48 + d"
  by (simp add: digit_char_def)

lemma digit_val_digit_char [simp]: "d < 10 \<Longrightarrow> digit_val (digit_char d) = Some d"
  by (simp add: digit_val_def of_char_digit_char)

lemma dec_str_digits: "c \<in> set (dec_str n) \<Longrightarrow> \<exists>d < 10. c = digit_char d"
proof (induction n rule: dec_str.induct)
  case (1 n)
  show ?case
  proof (cases "n < 10")
    case True
    with "1.prems" show ?thesis by (auto simp: dec_str.simps [of n])
  next
    case False
    with "1.prems" have "c \<in> set (dec_str (n div 10)) \<or> c = digit_char (n mod 10)"
      by (auto simp: dec_str.simps [of n])
    with "1.IH" [OF False] show ?thesis by (auto intro: exI [of _ "n mod 10"])
  qed
qed

lemma dec_str_code: "c \<in> set (dec_str n) \<Longrightarrow> 48 \<le> (of_char c :: nat) \<and> (of_char c :: nat) \<le> 57"
  by (auto dest!: dec_str_digits simp: of_char_digit_char)

lemma dec_str_not_Nil [simp]: "dec_str n \<noteq> []"
  by (subst dec_str.simps) simp

text \<open>Reading the decimal digits back, from the left, as the two parsers of the library do.\<close>

definition dec_value :: "nat \<Rightarrow> string \<Rightarrow> nat" where
  "dec_value = foldl (\<lambda>n c. 10 * n + the (digit_val c))"

lemma dec_value_dec_str: "dec_value 0 (dec_str n) = n"
proof (induction n rule: dec_str.induct)
  case (1 n)
  show ?case
  proof (cases "n < 10")
    case True
    then show ?thesis by (simp add: dec_str.simps [of n] dec_value_def)
  next
    case False
    with "1.IH" have "dec_value 0 (dec_str (n div 10)) = n div 10" by simp
    with False show ?thesis
      by (simp add: dec_str.simps [of n] dec_value_def)
  qed
qed

lemma dec_str_inject [simp]: "dec_str m = dec_str n \<longleftrightarrow> m = n"
  by (metis dec_value_dec_str)

lemma dec_value_ge: "m \<le> dec_value m s"
proof (induction s arbitrary: m)
  case Nil
  show ?case by (simp add: dec_value_def)
next
  case (Cons c cs)
  have "m \<le> 10 * m + the (digit_val c)" by simp
  also have "\<dots> \<le> dec_value (10 * m + the (digit_val c)) cs" by (rule Cons.IH)
  also have "\<dots> = dec_value m (c # cs)" by (simp add: dec_value_def)
  finally show ?case .
qed

lemma parse_u16_loop_dec:
  "\<forall>c \<in> set s. \<exists>d < 10. c = digit_char d \<Longrightarrow> dec_value n s \<le> 65535 \<Longrightarrow>
   parse_u16_loop n s = dec_value n s"
proof (induction s arbitrary: n)
  case Nil
  then show ?case by (simp add: dec_value_def)
next
  case (Cons c cs)
  then obtain d where d: "d < 10" "c = digit_char d" by auto
  then have v: "dec_value n (c # cs) = dec_value (10 * n + d) cs"
    by (simp add: dec_value_def)
  with Cons.prems(2) dec_value_ge [of "10 * n + d" cs] have "10 * n + d \<le> 65535" by simp
  with Cons d v show ?case by (simp add: Let_def)
qed

lemma parse_u16_dec_str: "n \<le> 65535 \<Longrightarrow> parse_u16 (dec_str n) = n"
  by (simp add: parse_u16_def parse_u16_loop_dec dec_str_digits dec_value_dec_str)

lemma length_be32 [simp]: "length (be32 w) = 4"
  by (simp add: be32_def)

end
