(* ===== verification/Go_Sha1.thy ===== *)
theory Go_Sha1
  imports Go_Std
begin

text \<open>
  \<^verbatim>\<open>crypto/sha1\<close>, written out from FIPS 180-4: padding, message schedule, the eighty rounds and
  the big-endian digest. The program uses it to draw node identifiers
  (\<^verbatim>\<open>models.GenInfohash\<close>) and to check fetched metadata (\<^verbatim>\<open>models.InfohashMatchesMetadata\<close>).
\<close>

definition be64_bytes :: "64 word \<Rightarrow> byte list" where
  "be64_bytes w = map (\<lambda>k. ucast (drop_bit (8 * k) w)) [7, 6, 5, 4, 3, 2, 1, 0]"

definition sha1_pad :: "byte list \<Rightarrow> byte list" where
  "sha1_pad m =
     m @ [128] @ replicate ((119 - length m mod 64) mod 64) 0 @ be64_bytes (8 * word_of_nat (length m))"

fun be_words :: "byte list \<Rightarrow> 32 word list" where
  "be_words (a # b # c # d # bs) =
     (push_bit 24 (ucast a) OR push_bit 16 (ucast b) OR push_bit 8 (ucast c) OR ucast d)
     # be_words bs"
| "be_words _ = []"

text \<open>The schedule is built with the newest word first.\<close>

fun sha1_schedule :: "nat \<Rightarrow> 32 word list \<Rightarrow> 32 word list" where
  "sha1_schedule 0 ws = rev ws"
| "sha1_schedule (Suc k) ws =
     sha1_schedule k
       (word_rotl 1 (ws ! 2 XOR ws ! 7 XOR ws ! 13 XOR ws ! 15) # ws)"

definition sha1_f :: "nat \<Rightarrow> 32 word \<Rightarrow> 32 word \<Rightarrow> 32 word \<Rightarrow> 32 word" where
  "sha1_f t b c d =
     (if t < 20 then (b AND c) OR (NOT b AND d)
      else if t < 40 then b XOR c XOR d
      else if t < 60 then (b AND c) OR (b AND d) OR (c AND d)
      else b XOR c XOR d)"

definition sha1_k :: "nat \<Rightarrow> 32 word" where
  "sha1_k t =
     (if t < 20 then 0x5A827999 else if t < 40 then 0x6ED9EBA1
      else if t < 60 then 0x8F1BBCDC else 0xCA62C1D6)"

type_synonym sha1_state = "32 word \<times> 32 word \<times> 32 word \<times> 32 word \<times> 32 word"

fun sha1_rounds :: "nat \<Rightarrow> 32 word list \<Rightarrow> sha1_state \<Rightarrow> sha1_state" where
  "sha1_rounds t [] s = s"
| "sha1_rounds t (w # ws) (a, b, c, d, e) =
     sha1_rounds (Suc t) ws
       (word_rotl 5 a + sha1_f t b c d + e + sha1_k t + w, a, word_rotl 30 b, c, d)"

definition sha1_block :: "sha1_state \<Rightarrow> byte list \<Rightarrow> sha1_state" where
  "sha1_block s bs =
     (let (h0, h1, h2, h3, h4) = s;
          (a, b, c, d, e) = sha1_rounds 0 (sha1_schedule 64 (rev (be_words bs))) s
      in (h0 + a, h1 + b, h2 + c, h3 + d, h4 + e))"

function sha1_blocks :: "sha1_state \<Rightarrow> byte list \<Rightarrow> sha1_state" where
  "sha1_blocks s bs =
     (if length bs < 64 then s else sha1_blocks (sha1_block s (take 64 bs)) (drop 64 bs))"
  by pat_completeness auto
termination
  by (relation "measure (\<lambda>(s, bs). length bs)") auto

declare sha1_blocks.simps [simp del]

text \<open>\<^verbatim>\<open>sha1.Sum\<close>\<close>

definition sha1_sum :: "byte list \<Rightarrow> byte list" where
  "sha1_sum m =
     (let (h0, h1, h2, h3, h4) =
        sha1_blocks (0x67452301, 0xEFCDAB89, 0x98BADCFE, 0x10325476, 0xC3D2E1F0) (sha1_pad m)
      in be32 h0 @ be32 h1 @ be32 h2 @ be32 h3 @ be32 h4)"

lemma length_sha1_sum [simp]: "length (sha1_sum m) = 20"
  by (simp add: sha1_sum_def Let_def split: prod.splits)

lemma length_be64_bytes [simp]: "length (be64_bytes n) = 8"
  by (simp add: be64_bytes_def)

end
