(* ===== verification/Infohash.thy ===== *)
theory Infohash
  imports Go_Sha1
begin

text \<open>
  \<^verbatim>\<open>models/infohash.go\<close>: the 20-byte identifier, its text forms, equality, the prefix distance that
  orders the routing table, and the two ways the program makes new identifiers. The lemmas
  relate the byte-and-shift loop of \<^verbatim>\<open>Distance\<close> to the length of the common bit prefix, and that
  length to the XOR metric of the DHT.
\<close>

section \<open>Operations\<close>

type_synonym infohash = "byte list"

definition InfohashLength :: nat where
  "InfohashLength = 20"

definition InfohashFromString :: "string \<Rightarrow> infohash outcome" where
  "InfohashFromString s =
     (if length s = 20 then Ok (str_bytes s)
      else if length s = 40 then
        (case hex_decode s of
           Ok b \<Rightarrow> Ok b
         | Err e \<Rightarrow> Err e
         | Panic p \<Rightarrow> Panic p
         | Hang \<Rightarrow> Hang)
      else Err (InvalidLength (length s)))"

definition Infohash_String :: "infohash \<Rightarrow> string" where
  "Infohash_String ih = hex_encode ih"

definition Infohash_Bytes :: "infohash \<Rightarrow> byte list" where
  "Infohash_Bytes ih = ih"

definition Infohash_Valid :: "infohash \<Rightarrow> bool" where
  "Infohash_Valid ih \<longleftrightarrow> length ih = 20"

function Equal_loop :: "infohash \<Rightarrow> infohash \<Rightarrow> nat \<Rightarrow> bool" where
  "Equal_loop ih other i =
     (if i < length ih then
        (if ih ! i \<noteq> other ! i then False else Equal_loop ih other (Suc i))
      else True)"
  by pat_completeness auto
termination
  by (relation "measure (\<lambda>(ih, other, i). length ih - i)") auto

definition Infohash_Equal :: "infohash \<Rightarrow> infohash \<Rightarrow> bool" where
  "Infohash_Equal ih other =
     (if length ih \<noteq> length other then False else Equal_loop ih other 0)"

text \<open>The first loop of \<^verbatim>\<open>Distance\<close>: the index of the first differing byte, or 20.\<close>

function Distance_byte :: "infohash \<Rightarrow> infohash \<Rightarrow> nat \<Rightarrow> nat outcome" where
  "Distance_byte ih other i =
     (if i < 20 then
        (if i < length ih \<and> i < length other then
           (if ih ! i \<noteq> other ! i then Ok i else Distance_byte ih other (Suc i))
         else Panic IndexOutOfRange)
      else Ok i)"
  by pat_completeness auto
termination
  by (relation "measure (\<lambda>(ih, other, i). 20 - i)") auto

text \<open>The second loop shifts until the top bit is set: on zero it would never end.\<close>

partial_function (option) Distance_bit :: "byte \<Rightarrow> nat \<Rightarrow> nat option" where
  [code]: "Distance_bit x j =
     (if x AND 0x80 = 0 then Distance_bit (push_bit 1 x) (Suc j) else Some j)"

definition Infohash_Distance :: "infohash \<Rightarrow> infohash \<Rightarrow> nat outcome" where
  "Infohash_Distance ih other =
     (case Distance_byte ih other 0 of
        Ok i \<Rightarrow>
          (if i = 20 then Ok 160
           else (case Distance_bit (ih ! i XOR other ! i) 0 of
                   Some j \<Rightarrow> Ok (8 * i + j)
                 | None \<Rightarrow> Hang))
      | Err e \<Rightarrow> Err e
      | Panic p \<Rightarrow> Panic p
      | Hang \<Rightarrow> Hang)"

text \<open>
  \<^verbatim>\<open>append(second[:10], first[10:]...)\<close> writes into the array behind \<^verbatim>\<open>second\<close> whenever that array
  has room. \<open>spare\<close> is what the array holds beyond \<^verbatim>\<open>len(second)\<close>; the result is the new
  identifier and what \<^verbatim>\<open>second\<close> reads afterwards.
\<close>

definition GenerateNeighbour ::
    "byte list \<Rightarrow> infohash \<Rightarrow> infohash \<Rightarrow> (infohash \<times> infohash) outcome" where
  "GenerateNeighbour spare first second =
     (let arr = second @ spare in
      if 10 \<le> length arr \<and> 10 \<le> length first then
        (let s = take 10 arr @ drop 10 first in
         if length s \<le> length arr
         then Ok (s, take (length second) (s @ drop (length s) arr))
         else Ok (s, second))
      else Panic SliceOutOfRange)"

text \<open>
  \<^verbatim>\<open>GenInfohash\<close> hashes the text of the current time and \<^verbatim>\<open>string(random.Int())\<close>; the time and
  the drawn number are the arguments.
\<close>

definition GenInfohash :: "string \<Rightarrow> int \<Rightarrow> infohash" where
  "GenInfohash now r = sha1_sum (str_bytes (now @ string_of_int r))"

section \<open>Reference notions\<close>

definition byte_bits :: "byte \<Rightarrow> bool list" where
  "byte_bits b = map (bit b) (rev [0..<8])"

definition ih_bits :: "infohash \<Rightarrow> bool list" where
  "ih_bits ih = concat (map byte_bits ih)"

text \<open>The identifier as the 160-bit number of the DHT's XOR metric, most significant bit first.\<close>

definition ih_num :: "infohash \<Rightarrow> nat" where
  "ih_num ih = horner_sum of_bool 2 (rev (ih_bits ih))"

definition common_prefix_length :: "infohash \<Rightarrow> infohash \<Rightarrow> nat" where
  "common_prefix_length a b = length (longest_common_prefix (ih_bits a) (ih_bits b))"

section \<open>Equality, text forms, generated identifiers\<close>

declare Equal_loop.simps [simp del] Distance_byte.simps [simp del]

lemma Equal_loop_iff: "length other = length ih \<Longrightarrow>
   Equal_loop ih other i \<longleftrightarrow> (\<forall>k. i \<le> k \<and> k < length ih \<longrightarrow> ih ! k = other ! k)"
proof (induction ih other i rule: Equal_loop.induct)
  case (1 ih other i)
  show ?case
  proof (cases "i < length ih \<and> ih ! i = other ! i")
    case True
    with 1 have "Equal_loop ih other (Suc i) \<longleftrightarrow>
        (\<forall>k. Suc i \<le> k \<and> k < length ih \<longrightarrow> ih ! k = other ! k)" by simp
    with True show ?thesis
      by (auto simp: Equal_loop.simps [of ih other i]) (metis Suc_leI le_neq_implies_less)
  next
    case False
    then show ?thesis by (auto simp: Equal_loop.simps [of ih other i])
  qed
qed

lemma Infohash_Equal_iff [simp]: "Infohash_Equal ih other \<longleftrightarrow> ih = other"
  by (auto simp: Infohash_Equal_def Equal_loop_iff list_eq_iff_nth_eq)

lemma InfohashFromString_cases:
  "(\<exists>ih. InfohashFromString s = Ok ih \<and> Infohash_Valid ih) \<or> (\<exists>e. InfohashFromString s = Err e)"
proof (cases "hex_decode s")
  case (Ok b)
  with hex_decode_length [OF Ok] show ?thesis
    by (simp add: InfohashFromString_def Infohash_Valid_def)
next
  case (Err e)
  then show ?thesis by (simp add: InfohashFromString_def Infohash_Valid_def)
qed (use hex_decode_cases [of s] in auto)

lemma InfohashFromString_valid: "InfohashFromString s = Ok ih \<Longrightarrow> Infohash_Valid ih"
  using InfohashFromString_cases [of s] by auto

lemma InfohashFromString_20 [simp]:
  "length s = 20 \<Longrightarrow> InfohashFromString s = Ok (str_bytes s)"
  by (simp add: InfohashFromString_def)

lemma GenerateNeighbour_20:
  assumes "length first = 20" and "length second = 20"
  shows "GenerateNeighbour spare first second =
    Ok (take 10 second @ drop 10 first, take 10 second @ drop 10 first)"
  using assms by (simp add: GenerateNeighbour_def Let_def)

lemma GenInfohash_valid [simp]: "Infohash_Valid (GenInfohash now r)"
  by (simp add: GenInfohash_def Infohash_Valid_def)

section \<open>Distance is the common bit prefix\<close>

lemma length_byte_bits [simp]: "length (byte_bits b) = 8"
  by (simp add: byte_bits_def)

lemma length_ih_bits [simp]: "length (ih_bits ih) = 8 * length ih"
  by (induction ih) (simp_all add: ih_bits_def)

lemma lcp_append_same [simp]:
  "longest_common_prefix (zs @ xs) (zs @ ys) = zs @ longest_common_prefix xs ys"
  by (induction zs) auto

lemma lcp_same [simp]: "longest_common_prefix xs xs = xs"
  by (induction xs) auto

lemma lcp_append_diff:
  "length xs = length ys \<Longrightarrow> xs \<noteq> ys \<Longrightarrow>
   longest_common_prefix (xs @ us) (ys @ vs) = longest_common_prefix xs ys"
  by (induction xs ys rule: list_induct2) auto

lemma length_lcp_map:
  "length (longest_common_prefix (map f xs) (map g xs)) = length (takeWhile (\<lambda>x. f x = g x) xs)"
  by (induction xs) auto

lemma byte_bits_inject [simp]: "byte_bits a = byte_bits b \<longleftrightarrow> a = b"
proof
  assume "byte_bits a = byte_bits b"
  then have "\<forall>n < 8. bit a n = bit b n" by (auto simp: byte_bits_def simp del: upt_Suc)
  then show "a = b" by (intro bit_word_eqI) simp
qed simp

text \<open>The shifting loop ends on every non-zero byte with the number of leading zero bits.\<close>

lemma Distance_bit_shift:
  assumes "m < 8"
  shows "Distance_bit (push_bit m x) m =
    (if bit x (7 - m) then Some m else Distance_bit (push_bit (Suc m) x) (Suc m))"
proof -
  have "push_bit m x AND 0x80 = 0 \<longleftrightarrow> \<not> bit (push_bit m x) 7"
    using and_exp_eq_0_iff_not_bit [of "push_bit m x" 7] by simp
  moreover have "bit (push_bit m x) 7 \<longleftrightarrow> bit x (7 - m)"
    using assms by (simp add: bit_push_bit_iff)
  ultimately show ?thesis
    by (subst Distance_bit.simps) (simp add: push_bit_push_bit)
qed

lemma Distance_bit_leading_zeros_from:
  "\<exists>n < k. bit x n \<Longrightarrow> k \<le> 8 \<Longrightarrow>
   Distance_bit (push_bit (8 - k) x) (8 - k) =
     Some (8 - k + length (takeWhile (\<lambda>i. \<not> bit x i) (rev [0..<k])))"
proof (induction k)
  case 0
  then show ?case by simp
next
  case (Suc k)
  have idx: "7 - (8 - Suc k) = k" "Suc (8 - Suc k) = 8 - k" using Suc.prems by auto
  have step: "Distance_bit (push_bit (8 - Suc k) x) (8 - Suc k) =
      (if bit x k then Some (8 - Suc k) else Distance_bit (push_bit (8 - k) x) (8 - k))"
    using Distance_bit_shift [of "8 - Suc k" x] unfolding idx by simp
  show ?case
  proof (cases "bit x k")
    case True
    with step show ?thesis by simp
  next
    case False
    with Suc.prems have "\<exists>n < k. bit x n" using less_Suc_eq by auto
    with Suc.IH Suc.prems False step idx(2) show ?thesis by simp
  qed
qed

lemma Distance_bit_leading_zeros:
  assumes "x \<noteq> 0"
  shows "Distance_bit x 0 = Some (length (takeWhile (\<lambda>i. \<not> bit x i) (rev [0..<8])))"
proof -
  have "\<exists>n < 8. bit x n"
  proof (rule ccontr)
    assume none: "\<not> (\<exists>n < 8. bit x n)"
    have "x = 0" by (rule bit_word_eqI) (use none in auto)
    with assms show False by simp
  qed
  from Distance_bit_leading_zeros_from [OF this] show ?thesis by (simp del: upt_Suc upt_rec_numeral)
qed

lemma Distance_bit_xor:
  assumes "a \<noteq> b"
  shows "Distance_bit (a XOR b) 0 =
    Some (length (longest_common_prefix (byte_bits a) (byte_bits b)))"
proof -
  have "a XOR b \<noteq> 0"
  proof
    assume zero: "a XOR b = 0"
    have "a = b"
    proof (rule bit_word_eqI)
      fix n
      have "bit (a XOR b) n \<longleftrightarrow> False" by (simp add: zero)
      then show "bit a n = bit b n" by (simp add: bit_xor_iff)
    qed
    with assms show False by simp
  qed
  from Distance_bit_leading_zeros [OF this] show ?thesis
    by (simp only: byte_bits_def length_lcp_map bit_xor_iff not_not)
qed

text \<open>The byte loop stops at the first difference.\<close>

lemma Distance_byte_spec:
  assumes "length ih = 20" "length other = 20" "i \<le> 20"
  shows "\<exists>n. Distance_byte ih other i = Ok n \<and> i \<le> n \<and> n \<le> 20 \<and>
    (\<forall>k. i \<le> k \<and> k < n \<longrightarrow> ih ! k = other ! k) \<and> (n < 20 \<longrightarrow> ih ! n \<noteq> other ! n)"
  using assms
proof (induction ih other i rule: Distance_byte.induct)
  case (1 ih other i)
  show ?case
  proof (cases "i < 20 \<and> ih ! i = other ! i")
    case True
    with 1 obtain n where n: "Distance_byte ih other (Suc i) = Ok n" "Suc i \<le> n" "n \<le> 20"
      "\<forall>k. Suc i \<le> k \<and> k < n \<longrightarrow> ih ! k = other ! k" "n < 20 \<longrightarrow> ih ! n \<noteq> other ! n" by auto
    from n(4) True have "\<forall>k. i \<le> k \<and> k < n \<longrightarrow> ih ! k = other ! k"
      by (metis Suc_leI le_neq_implies_less)
    with n True "1.prems" show ?thesis by (auto simp: Distance_byte.simps [of ih other i])
  next
    case False
    with "1.prems" show ?thesis by (auto simp: Distance_byte.simps [of ih other i])
  qed
qed

lemma common_prefix_length_at:
  assumes len: "length a = length b" and n: "n < length a"
    and eq: "\<forall>k < n. a ! k = b ! k" and diff: "a ! n \<noteq> b ! n"
  shows "common_prefix_length a b =
    8 * n + length (longest_common_prefix (byte_bits (a ! n)) (byte_bits (b ! n)))"
proof -
  have take: "take n a = take n b"
    using len n eq by (intro nth_equalityI) auto
  have split: "ih_bits xs = ih_bits (take n xs) @ byte_bits (xs ! n) @ ih_bits (drop (Suc n) xs)"
    if "n < length xs" for xs
    using id_take_nth_drop [OF that] by (metis concat.simps(2) concat_append ih_bits_def list.simps(9) map_append)
  show ?thesis
    using len n diff
    by (simp add: common_prefix_length_def split [of a] split [of b] take lcp_append_diff)
qed

lemma Infohash_Distance_eq:
  assumes "Infohash_Valid ih" "Infohash_Valid other"
  shows "Infohash_Distance ih other = Ok (common_prefix_length ih other)"
proof -
  from assms have len: "length ih = 20" "length other = 20" by (simp_all add: Infohash_Valid_def)
  from Distance_byte_spec [OF this, of 0] obtain n where
    n: "Distance_byte ih other 0 = Ok n" "n \<le> 20" "\<forall>k < n. ih ! k = other ! k"
      "n < 20 \<longrightarrow> ih ! n \<noteq> other ! n" by auto
  show ?thesis
  proof (cases "n = 20")
    case True
    with n len have "ih = other" by (auto intro: nth_equalityI)
    with n True len show ?thesis
      by (simp add: Infohash_Distance_def common_prefix_length_def)
  next
    case False
    with n have "n < 20" "ih ! n \<noteq> other ! n" by auto
    with n len False show ?thesis
      by (simp add: Infohash_Distance_def Distance_bit_xor common_prefix_length_at)
  qed
qed

lemma common_prefix_length_sym: "common_prefix_length a b = common_prefix_length b a"
proof -
  have "longest_common_prefix xs ys = longest_common_prefix ys xs" for xs ys :: "bool list"
    by (induction xs ys rule: longest_common_prefix.induct) auto
  then show ?thesis by (simp add: common_prefix_length_def)
qed

lemma common_prefix_length_le:
  "length a = n \<Longrightarrow> common_prefix_length a b \<le> 8 * n"
  using prefix_length_le [OF longest_common_prefix_prefix1, of "ih_bits a" "ih_bits b"]
  by (simp add: common_prefix_length_def)

section \<open>The XOR metric\<close>

lemma bit_ih_num: "bit (ih_num a) n \<longleftrightarrow> n < 8 * length a \<and> ih_bits a ! (8 * length a - Suc n)"
  by (auto simp: ih_num_def bit_horner_sum_bit_iff rev_nth)

lemma nth_lcp:
  "k < length (longest_common_prefix xs ys) \<Longrightarrow> xs ! k = ys ! k"
  by (induction xs ys arbitrary: k rule: longest_common_prefix.induct)
    (auto simp: nth_Cons split: if_splits nat.splits)

lemma nth_length_lcp:
  "d = length (longest_common_prefix xs ys) \<Longrightarrow> d < length xs \<Longrightarrow> d < length ys \<Longrightarrow>
   xs ! d \<noteq> ys ! d"
  by (induction xs ys arbitrary: d rule: longest_common_prefix.induct) (auto split: if_splits)

lemma nat_less_exp_if_bits: "(\<And>n. m \<le> n \<Longrightarrow> \<not> bit v n) \<Longrightarrow> (v :: nat) < 2 ^ m"
proof -
  assume high: "\<And>n. m \<le> n \<Longrightarrow> \<not> bit v n"
  have "take_bit m v = v"
    by (rule bit_eqI) (metis bit_take_bit_iff high linorder_not_less)
  then show ?thesis by (simp add: take_bit_nat_eq_self_iff)
qed

lemma nat_exp_le_if_bit: "bit (v :: nat) m \<Longrightarrow> 2 ^ m \<le> v"
  by (metis bit_take_bit_iff not_le order.irrefl take_bit_nat_eq_self)

lemma xor_num_bounds:
  assumes "length a = 20" "length b = 20" and d: "common_prefix_length a b = d" "d < 160"
  shows "2 ^ (159 - d) \<le> ih_num a XOR ih_num b" "ih_num a XOR ih_num b < 2 ^ (160 - d)"
proof -
  let ?v = "ih_num a XOR ih_num b"
  have bit_v: "bit ?v n \<longleftrightarrow> n < 160 \<and> ih_bits a ! (159 - n) \<noteq> ih_bits b ! (159 - n)" for n
    using assms(1,2) by (auto simp: bit_xor_iff bit_ih_num)
  have "ih_bits a ! d \<noteq> ih_bits b ! d"
    using assms by (intro nth_length_lcp) (auto simp: common_prefix_length_def)
  with d have "bit ?v (159 - d)" by (simp add: bit_v)
  then show "2 ^ (159 - d) \<le> ?v" by (rule nat_exp_le_if_bit)
  have "\<not> bit ?v n" if "160 - d \<le> n" for n
  proof (cases "n < 160")
    case True
    with that d(2) have "159 - n < d" by linarith
    then have "ih_bits a ! (159 - n) = ih_bits b ! (159 - n)"
      using d(1) by (intro nth_lcp) (simp add: common_prefix_length_def)
    then show ?thesis by (simp add: bit_v)
  qed (simp add: bit_v)
  then show "?v < 2 ^ (160 - d)" by (rule nat_less_exp_if_bits)
qed

lemma common_prefix_length_160: "length a = 20 \<Longrightarrow> length b = 20 \<Longrightarrow>
  common_prefix_length a b = 160 \<Longrightarrow> ih_num a XOR ih_num b = 0"
proof -
  assume *: "length a = 20" "length b = 20" "common_prefix_length a b = 160"
  have "ih_bits a ! k = ih_bits b ! k" if "k < 160" for k
    using that * by (intro nth_lcp) (simp add: common_prefix_length_def)
  with * have "ih_bits a = ih_bits b" by (intro nth_equalityI) auto
  then show ?thesis by (simp add: ih_num_def)
qed

section \<open>Properties\<close>

text \<open>C14: for two valid identifiers \<^verbatim>\<open>Distance\<close> never panics and never loops: it returns the
  length of the longest common prefix of their 160-bit strings (160 for equal ones).\<close>

theorem Distance_is_common_prefix:
  assumes "Infohash_Valid ih" and "Infohash_Valid other"
  shows "Infohash_Distance ih other =
    Ok (length (longest_common_prefix (ih_bits ih) (ih_bits other)))"
  using Infohash_Distance_eq [OF assms] by (simp add: common_prefix_length_def)

theorem Distance_is_common_prefix_witness:
  "Infohash_Distance (replicate 20 0) (replicate 19 0 @ [5]) =
   Ok (length (longest_common_prefix (ih_bits (replicate 20 0)) (ih_bits (replicate 19 0 @ [5]))))"
  by (rule Distance_is_common_prefix) (simp_all add: Infohash_Valid_def)

text \<open>The distance orders identifiers as the XOR metric of the DHT does: a larger
  \<^verbatim>\<open>Distance\<close> value (a longer shared prefix) means a strictly smaller XOR with the reference
  identifier, so the head of the routing table's heap is a node closest to this one.\<close>

theorem Distance_orders_by_xor:
  assumes "Infohash_Valid ih" "Infohash_Valid a" "Infohash_Valid b"
    and "Infohash_Distance ih a = Ok da" "Infohash_Distance ih b = Ok db" "db < da"
  shows "ih_num ih XOR ih_num a < ih_num ih XOR ih_num b"
proof -
  have len: "length ih = 20" "length a = 20" "length b = 20"
    using assms(1-3) by (simp_all add: Infohash_Valid_def)
  have da: "common_prefix_length ih a = da" and db: "common_prefix_length ih b = db"
    using assms by (simp_all add: Infohash_Distance_eq)
  have "da \<le> 160" using da common_prefix_length_le [OF len(1), of a] by simp
  with \<open>db < da\<close> have "2 ^ (159 - db) \<le> ih_num ih XOR ih_num b"
    using xor_num_bounds(1) [OF len(1,3) db] by simp
  moreover have "ih_num ih XOR ih_num a < 2 ^ (159 - db)"
  proof (cases "da = 160")
    case True
    then show ?thesis using common_prefix_length_160 [OF len(1,2)] da by simp
  next
    case False
    with \<open>da \<le> 160\<close> have "ih_num ih XOR ih_num a < 2 ^ (160 - da)"
      using xor_num_bounds(2) [OF len(1,2) da] by simp
    also have "\<dots> \<le> 2 ^ (159 - db)"
      using \<open>db < da\<close> by (intro power_increasing) auto
    finally show ?thesis .
  qed
  ultimately show ?thesis by linarith
qed

theorem Distance_orders_by_xor_witness:
  "ih_num (replicate 20 0) XOR ih_num (replicate 19 0 @ [1]) <
   ih_num (replicate 20 0) XOR ih_num (1 # replicate 19 0)"
proof (rule Distance_orders_by_xor [of _ _ _ 159 7])
  show "Infohash_Distance (replicate 20 0) (replicate 19 0 @ [1]) = Ok 159"
    by code_simp
  show "Infohash_Distance (replicate 20 0) (1 # replicate 19 0) = Ok 7"
    by code_simp
qed (simp_all add: Infohash_Valid_def)

text \<open>C38: parsing an identifier inverts both ways the program writes one: the 40-digit
  hexadecimal text of \<^verbatim>\<open>String\<close> and the raw 20-byte string.\<close>

theorem InfohashFromString_roundtrip:
  assumes "Infohash_Valid ih"
  shows "InfohashFromString (Infohash_String ih) = Ok ih \<and> InfohashFromString (bytes_str ih) = Ok ih"
  using assms by (simp add: InfohashFromString_def Infohash_String_def Infohash_Valid_def)

theorem InfohashFromString_roundtrip_witness:
  "InfohashFromString (Infohash_String (replicate 20 7)) = Ok (replicate 20 7) \<and>
   InfohashFromString (bytes_str (replicate 20 7)) = Ok (replicate 20 7)"
  by (rule InfohashFromString_roundtrip) (simp add: Infohash_Valid_def)

text \<open>\<^verbatim>\<open>InfohashFromString\<close> is total and returns only valid identifiers: it succeeds exactly
  on 20-byte strings and on 40-digit hexadecimal strings (which it decodes), and otherwise
  returns an error.\<close>

theorem InfohashFromString_spec:
  "(InfohashFromString s = Ok ih \<longleftrightarrow>
     (length s = 20 \<and> ih = str_bytes s) \<or> (length s = 40 \<and> hex_decode s = Ok ih)) \<and>
   (InfohashFromString s = Ok ih \<longrightarrow> Infohash_Valid ih) \<and>
   ((\<exists>h. InfohashFromString s = Ok h) \<or> (\<exists>e. InfohashFromString s = Err e))"
proof (intro conjI)
  show "InfohashFromString s = Ok ih \<longleftrightarrow>
     (length s = 20 \<and> ih = str_bytes s) \<or> (length s = 40 \<and> hex_decode s = Ok ih)"
    by (auto simp: InfohashFromString_def split: outcome.splits)
  show "InfohashFromString s = Ok ih \<longrightarrow> Infohash_Valid ih"
    by (simp add: InfohashFromString_valid)
  show "(\<exists>h. InfohashFromString s = Ok h) \<or> (\<exists>e. InfohashFromString s = Err e)"
    using InfohashFromString_cases [of s] by blast
qed

theorem InfohashFromString_spec_witness:
  "InfohashFromString (replicate 20 CHR ''a'') = Ok (replicate 20 97) \<and>
   Infohash_Valid (replicate 20 97)"
proof -
  have "str_bytes (replicate 20 CHR ''a'') = replicate 20 97"
    by (simp add: str_bytes_def byte_of_def)
  then have "InfohashFromString (replicate 20 CHR ''a'') = Ok (replicate 20 97)"
    using InfohashFromString_spec [of "replicate 20 CHR ''a''" "replicate 20 97"] by simp
  then show ?thesis
    using InfohashFromString_spec [of "replicate 20 CHR ''a''" "replicate 20 97"] by blast
qed

text \<open>\<^verbatim>\<open>GenerateNeighbour(first, second)\<close> of two valid identifiers takes its first half from
  \<^verbatim>\<open>second\<close> and its second half from \<^verbatim>\<open>first\<close>, and, whatever the spare capacity of \<^verbatim>\<open>second\<close>,
  the append writes in place: afterwards \<^verbatim>\<open>second\<close> itself reads as the generated identifier.\<close>

theorem GenerateNeighbour_overwrites_second:
  assumes "Infohash_Valid first" and "Infohash_Valid second"
  shows "\<exists>s. GenerateNeighbour spare first second = Ok (s, s) \<and> Infohash_Valid s \<and>
    take 10 s = take 10 second \<and> drop 10 s = drop 10 first"
  using assms GenerateNeighbour_20 [of first second spare] by (simp add: Infohash_Valid_def)

theorem GenerateNeighbour_overwrites_second_witness:
  "\<exists>s. GenerateNeighbour [] (replicate 20 1) (replicate 20 2) = Ok (s, s) \<and> Infohash_Valid s \<and>
    take 10 s = take 10 (replicate 20 2) \<and> drop 10 s = drop 10 (replicate 20 1)"
  by (rule GenerateNeighbour_overwrites_second) (simp_all add: Infohash_Valid_def)

text \<open>Every generated identifier is valid, but the drawn random number has no influence once
  it lies beyond the last Unicode code point: \<^verbatim>\<open>string(random.Int())\<close> is then always the
  encoding of U+FFFD, so equal clock texts give equal identifiers.\<close>

theorem GenInfohash_ignores_random:
  assumes "1114111 < r" and "1114111 < r'"
  shows "GenInfohash now r = GenInfohash now r' \<and> Infohash_Valid (GenInfohash now r)"
  using assms by (simp add: GenInfohash_def string_of_int_def Infohash_Valid_def)

theorem GenInfohash_ignores_random_witness:
  "GenInfohash ''now'' 2000000 = GenInfohash ''now'' 9223372036854775807 \<and>
   Infohash_Valid (GenInfohash ''now'' 2000000)"
  using GenInfohash_ignores_random [of 2000000 9223372036854775807 "''now''"] by simp

end
