(* ===== verification/Go_Net.thy ===== *)
theory Go_Net
  imports Go_Std
begin

text \<open>
  The pure parts of Go's \<^verbatim>\<open>net\<close> package (Go 1.13) that the program relies on: the text form of an
  IP address and of a UDP address, \<^verbatim>\<open>SplitHostPort\<close> and \<^verbatim>\<open>ParseIP\<close>. Name resolution
  (\<^verbatim>\<open>net.ResolveUDPAddr\<close>) asks the operating system and is a parameter of the components that
  call it.
\<close>

section \<open>Addresses\<close>

text \<open>Every \<^verbatim>\<open>net.Addr\<close> of the program is a \<^verbatim>\<open>*net.UDPAddr\<close>.\<close>

record UDPAddr =
  addr_IP :: "byte list"
  addr_Port :: nat
  addr_Zone :: string

definition v4_in_v6_prefix :: "byte list" where
  "v4_in_v6_prefix = replicate 10 0 @ [255, 255]"

text \<open>\<^verbatim>\<open>net.IP.To4\<close>\<close>

definition IP_To4 :: "byte list \<Rightarrow> byte list option" where
  "IP_To4 ip =
     (if length ip = 4 then Some ip
      else if length ip = 16 \<and> take 12 ip = v4_in_v6_prefix then Some (drop 12 ip)
      else None)"

definition dotted :: "byte list \<Rightarrow> string" where
  "dotted p =
     dec_str (unat (p ! 0)) @ ''.'' @ dec_str (unat (p ! 1)) @ ''.'' @
     dec_str (unat (p ! 2)) @ ''.'' @ dec_str (unat (p ! 3))"

fun groups16 :: "byte list \<Rightarrow> nat list" where
  "groups16 (a # b # bs) = (256 * unat a + unat b) # groups16 bs"
| "groups16 _ = []"

text \<open>\<^verbatim>\<open>appendHex\<close>: lower-case digits without leading zeros.\<close>

fun hex_str :: "nat \<Rightarrow> string" where
  "hex_str n = (if n < 16 then [hex_digits ! n] else hex_str (n div 16) @ [hex_digits ! (n mod 16)])"

declare hex_str.simps [simp del]

text \<open>The longest run of zero groups, as a half-open interval of group positions.\<close>

function zero_run :: "nat list \<Rightarrow> nat \<Rightarrow> nat \<Rightarrow> nat \<Rightarrow> nat \<times> nat" where
  "zero_run gs i e0 e1 =
     (if i < length gs then
        (let j = i + length (takeWhile (\<lambda>g. g = 0) (drop i gs)) in
         if i < j \<and> e1 - e0 < j - i then zero_run gs (Suc j) i j else zero_run gs (Suc i) e0 e1)
      else (e0, e1))"
  by pat_completeness auto
termination
  by (relation "measure (\<lambda>(gs, i, e0, e1). length gs - i)") auto

function print_groups :: "nat list \<Rightarrow> (nat \<times> nat) option \<Rightarrow> nat \<Rightarrow> string" where
  "print_groups gs run i =
     (if i < length gs then
        (case run of
           Some (e0, e1) \<Rightarrow>
             (if i = e0 \<and> e0 < e1 then
                (if length gs \<le> e1 then ''::''
                 else ''::'' @ hex_str (gs ! e1) @ print_groups gs run (Suc e1))
              else (if 0 < i then '':'' else []) @ hex_str (gs ! i) @ print_groups gs run (Suc i))
         | None \<Rightarrow> (if 0 < i then '':'' else []) @ hex_str (gs ! i) @ print_groups gs run (Suc i))
      else [])"
  by pat_completeness auto
termination
  by (relation "measure (\<lambda>(gs, run, i). length gs - i)") auto

declare zero_run.simps [simp del] print_groups.simps [simp del]

definition ip6_string :: "byte list \<Rightarrow> string" where
  "ip6_string ip =
     (let gs = groups16 ip; (e0, e1) = zero_run gs 0 0 0
      in print_groups gs (if e1 - e0 \<le> 1 then None else Some (e0, e1)) 0)"

text \<open>\<^verbatim>\<open>net.IP.String\<close>\<close>

definition IP_String :: "byte list \<Rightarrow> string" where
  "IP_String ip =
     (if ip = [] then ''<nil>''
      else case IP_To4 ip of
             Some p4 \<Rightarrow> dotted p4
           | None \<Rightarrow> if length ip \<noteq> 16 then CHR ''?'' # hex_encode ip else ip6_string ip)"

definition JoinHostPort :: "string \<Rightarrow> string \<Rightarrow> string" where
  "JoinHostPort host port =
     (if CHR '':'' \<in> set host then ''['' @ host @ '']:'' @ port else host @ '':'' @ port)"

text \<open>\<^verbatim>\<open>(*net.UDPAddr).String\<close>\<close>

definition UDPAddr_String :: "UDPAddr \<Rightarrow> string" where
  "UDPAddr_String a =
     (let ip = (if addr_IP a = [] then [] else IP_String (addr_IP a)) in
      if addr_Zone a \<noteq> [] then JoinHostPort (ip @ ''%'' @ addr_Zone a) (dec_str (addr_Port a))
      else JoinHostPort ip (dec_str (addr_Port a)))"

section \<open>Splitting and parsing\<close>

definition first_index :: "char \<Rightarrow> string \<Rightarrow> nat option" where
  "first_index c s = (if c \<in> set s then Some (length (takeWhile (\<lambda>d. d \<noteq> c) s)) else None)"

definition last_index :: "char \<Rightarrow> string \<Rightarrow> nat option" where
  "last_index c s =
     (case first_index c (rev s) of None \<Rightarrow> None | Some k \<Rightarrow> Some (length s - 1 - k))"

text \<open>The checks \<^verbatim>\<open>SplitHostPort\<close> makes after it has found the host.\<close>

definition split_rest ::
    "string \<Rightarrow> string \<Rightarrow> nat \<Rightarrow> nat \<Rightarrow> nat \<Rightarrow> (string \<times> string) outcome" where
  "split_rest hostport host i j k =
     (if CHR ''['' \<in> set (drop j hostport) then Err AddrUnexpectedBracket
      else if CHR '']'' \<in> set (drop k hostport) then Err AddrUnexpectedBracket
      else Ok (host, drop (Suc i) hostport))"

definition SplitHostPort :: "string \<Rightarrow> (string \<times> string) outcome" where
  "SplitHostPort hostport =
     (case last_index CHR '':'' hostport of
        None \<Rightarrow> Err AddrMissingPort
      | Some i \<Rightarrow>
          if hostport ! 0 = CHR ''['' then
            (case first_index CHR '']'' hostport of
               None \<Rightarrow> Err AddrMissingBracket
             | Some e \<Rightarrow>
                 if Suc e = length hostport then Err AddrMissingPort
                 else if Suc e = i
                 then split_rest hostport (take (e - 1) (drop 1 hostport)) i 1 (Suc e)
                 else if hostport ! Suc e = CHR '':'' then Err AddrTooManyColons
                 else Err AddrMissingPort)
          else if CHR '':'' \<in> set (take i hostport) then Err AddrTooManyColons
          else split_rest hostport (take i hostport) i 0 0)"

text \<open>\<^verbatim>\<open>dtoi\<close> and \<^verbatim>\<open>xtoi\<close>: the number at the front of a string, below \<^verbatim>\<open>0xFFFFFF\<close>, and the rest.\<close>

fun digits_loop :: "(char \<Rightarrow> nat option) \<Rightarrow> nat \<Rightarrow> nat \<Rightarrow> string \<Rightarrow> (nat \<times> string) option" where
  "digits_loop dv base n [] = Some (n, [])"
| "digits_loop dv base n (c # cs) =
     (case dv c of
        None \<Rightarrow> Some (n, c # cs)
      | Some d \<Rightarrow>
          (let n' = base * n + d in if 16777215 \<le> n' then None else digits_loop dv base n' cs))"

definition xdigit_val :: "char \<Rightarrow> nat option" where
  "xdigit_val c = map_option unat (from_hex_char c)"

definition leading_number :: "(char \<Rightarrow> nat option) \<Rightarrow> nat \<Rightarrow> string \<Rightarrow> (nat \<times> string) option" where
  "leading_number dv base s =
     (case s of [] \<Rightarrow> None | c # cs \<Rightarrow> if dv c = None then None else digits_loop dv base 0 s)"

text \<open>\<^verbatim>\<open>parseIPv4\<close>: \<open>k\<close> octets are still to come; a dot precedes every octet but the first.\<close>

fun parse_octets :: "nat \<Rightarrow> bool \<Rightarrow> string \<Rightarrow> byte list option" where
  "parse_octets 0 dot s = (if s = [] then Some [] else None)"
| "parse_octets (Suc k) dot s =
     (if s = [] then None
      else if dot \<and> hd s \<noteq> CHR ''.'' then None
      else (case leading_number digit_val 10 (if dot then tl s else s) of
              None \<Rightarrow> None
            | Some (n, rest) \<Rightarrow>
                if 255 < n then None
                else map_option (\<lambda>bs. word_of_nat n # bs) (parse_octets k True rest)))"

definition parseIPv4 :: "string \<Rightarrow> byte list option" where
  "parseIPv4 s = map_option (\<lambda>p. v4_in_v6_prefix @ p) (parse_octets 4 False s)"

text \<open>
  \<^verbatim>\<open>parseIPv6\<close>: the loop over groups. \<open>acc\<close> holds the bytes read so far, \<open>ell\<close> the position of the
  ellipsis; the result is what is left of the string with both.
\<close>

function parse6_loop :: "byte list \<Rightarrow> nat option \<Rightarrow> string \<Rightarrow> (byte list \<times> nat option \<times> string) option" where
  "parse6_loop acc ell s =
     (if length acc < 16 then
        (case leading_number xdigit_val 16 s of
           None \<Rightarrow> None
         | Some (n, rest) \<Rightarrow>
             if 65535 < n then None
             else if rest \<noteq> [] \<and> hd rest = CHR ''.'' then
               (if ell = None \<and> length acc \<noteq> 12 then None
                else if 16 < length acc + 4 then None
                else case parse_octets 4 False s of
                       None \<Rightarrow> None
                     | Some p \<Rightarrow> Some (acc @ p, ell, []))
             else
               (let acc' = acc @ [word_of_nat (n div 256), word_of_nat (n mod 256)] in
                if rest = [] then Some (acc', ell, [])
                else if hd rest \<noteq> CHR '':'' \<or> tl rest = [] then None
                else if hd (tl rest) = CHR '':'' then
                  (if ell \<noteq> None then None
                   else if tl (tl rest) = [] then Some (acc', Some (length acc'), [])
                   else parse6_loop acc' (Some (length acc')) (tl (tl rest)))
                else parse6_loop acc' ell (tl rest)))
      else Some (acc, ell, s))"
  by pat_completeness auto
termination
  by (relation "measure (\<lambda>(acc, ell, s). 16 - length acc)") auto

declare parse6_loop.simps [simp del]

definition parseIPv6 :: "string \<Rightarrow> byte list option" where
  "parseIPv6 s =
     (let (ell, s') = (if take 2 s = ''::'' then (Some 0, drop 2 s) else (None, s)) in
      if ell = Some 0 \<and> s' = [] then Some (replicate 16 0)
      else case parse6_loop [] ell s' of
             None \<Rightarrow> None
           | Some (acc, ell', rest) \<Rightarrow>
               if rest \<noteq> [] then None
               else if length acc < 16 then
                 (case ell' of
                    None \<Rightarrow> None
                  | Some e \<Rightarrow> Some (take e acc @ replicate (16 - length acc) 0 @ drop e acc))
               else if ell' \<noteq> None then None
               else Some acc)"

definition ParseIP :: "string \<Rightarrow> byte list option" where
  "ParseIP s =
     (case dropWhile (\<lambda>c. c \<noteq> CHR ''.'' \<and> c \<noteq> CHR '':'') s of
        [] \<Rightarrow> None
      | c # _ \<Rightarrow> if c = CHR ''.'' then parseIPv4 s else parseIPv6 s)"

section \<open>Splitting inverts joining\<close>

lemma first_index_append: "c \<notin> set xs \<Longrightarrow> first_index c (xs @ c # ys) = Some (length xs)"
  by (induction xs) (auto simp: first_index_def)

lemma last_index_append: "c \<notin> set ys \<Longrightarrow> last_index c (xs @ c # ys) = Some (length xs)"
  using first_index_append [of c "rev ys" "rev xs"] by (simp add: last_index_def)

definition no_brackets :: "string \<Rightarrow> bool" where
  "no_brackets s \<longleftrightarrow> CHR ''['' \<notin> set s \<and> CHR '']'' \<notin> set s"

lemma SplitHostPort_plain:
  assumes "CHR '':'' \<notin> set host" "no_brackets host" "CHR '':'' \<notin> set port" "no_brackets port"
  shows "SplitHostPort (host @ '':'' @ port) = Ok (host, port)"
proof -
  have last: "last_index CHR '':'' (host @ CHR '':'' # port) = Some (length host)"
    using assms by (intro last_index_append) simp
  have "(host @ CHR '':'' # port) ! 0 \<noteq> CHR ''[''"
    using assms(2) by (cases host) (auto simp: no_brackets_def)
  with last assms show ?thesis
    by (auto simp: SplitHostPort_def split_rest_def no_brackets_def)
qed

lemma SplitHostPort_bracketed:
  assumes "no_brackets host" "CHR '':'' \<notin> set port" "no_brackets port"
  shows "SplitHostPort (''['' @ host @ '']:'' @ port) = Ok (host, port)"
proof -
  let ?s = "CHR ''['' # host @ CHR '']'' # CHR '':'' # port"
  have "last_index CHR '':'' ((CHR ''['' # host @ [CHR '']'']) @ CHR '':'' # port) =
      Some (length (CHR ''['' # host @ [CHR '']'']))"
    using assms by (intro last_index_append) simp
  then have last: "last_index CHR '':'' ?s = Some (Suc (Suc (length host)))" by simp
  have "first_index CHR '']'' ((CHR ''['' # host) @ CHR '']'' # CHR '':'' # port) =
      Some (length (CHR ''['' # host))"
    using assms by (intro first_index_append) (simp add: no_brackets_def)
  then have first: "first_index CHR '']'' ?s = Some (Suc (length host))" by simp
  from last first assms have "SplitHostPort ?s = Ok (host, port)"
    by (auto simp: SplitHostPort_def split_rest_def no_brackets_def)
  then show ?thesis by simp
qed

lemma SplitHostPort_JoinHostPort:
  assumes "no_brackets host" "CHR '':'' \<notin> set port" "no_brackets port"
  shows "SplitHostPort (JoinHostPort host port) = Ok (host, port)"
  using assms SplitHostPort_plain [of host port] SplitHostPort_bracketed [of host port]
  by (simp add: JoinHostPort_def)

section \<open>The characters of addresses\<close>

lemma dec_str_chars:
  "CHR '':'' \<notin> set (dec_str n)" "CHR ''.'' \<notin> set (dec_str n)" "no_brackets (dec_str n)"
  using dec_str_code [of "CHR '':''" n] dec_str_code [of "CHR ''.''" n]
    dec_str_code [of "CHR ''[''" n] dec_str_code [of "CHR '']''" n]
  by (auto simp: no_brackets_def)

lemma dotted_chars: "CHR '':'' \<notin> set (dotted p)" "no_brackets (dotted p)"
  using dec_str_chars by (auto simp: dotted_def no_brackets_def)

lemma hex_digits_chars: "n < 16 \<Longrightarrow> hex_digits ! n \<noteq> CHR ''['' \<and> hex_digits ! n \<noteq> CHR '']''"
proof -
  assume "n < 16"
  moreover have "list_all (\<lambda>n. hex_digits ! n \<noteq> CHR ''['' \<and> hex_digits ! n \<noteq> CHR '']'') [0..<16]"
    by (simp add: upt_rec hex_digits_def)
  ultimately show ?thesis by (simp add: list_all_iff del: upt_rec_numeral)
qed

lemma hex_str_no_brackets: "no_brackets (hex_str n)"
proof (induction n rule: hex_str.induct)
  case (1 n)
  show ?case
  proof (cases "n < 16")
    case True
    with hex_digits_chars [of n] show ?thesis by (auto simp: hex_str.simps [of n] no_brackets_def)
  next
    case False
    with 1 hex_digits_chars [of "n mod 16"] show ?thesis
      by (auto simp: hex_str.simps [of n] no_brackets_def)
  qed
qed

lemma print_groups_no_brackets: "no_brackets (print_groups gs run i)"
proof (induction gs run i rule: print_groups.induct)
  case (1 gs run i)
  show ?case
  proof (cases "i < length gs")
    case True
    with 1 hex_str_no_brackets show ?thesis
      by (auto simp: print_groups.simps [of gs run i] no_brackets_def split: option.splits)
  qed (simp add: print_groups.simps [of gs run i] no_brackets_def)
qed

text \<open>The addresses the program meets: four or sixteen address bytes and no zone.\<close>

definition wf_addr :: "UDPAddr \<Rightarrow> bool" where
  "wf_addr a \<longleftrightarrow> (length (addr_IP a) = 4 \<or> length (addr_IP a) = 16) \<and> addr_Zone a = []"

lemma IP_String_no_brackets: "length ip = 4 \<or> length ip = 16 \<Longrightarrow> no_brackets (IP_String ip)"
  by (auto simp: IP_String_def dotted_chars ip6_string_def Let_def print_groups_no_brackets
      IP_To4_def no_brackets_def [of "[]"] split: option.splits prod.splits)

lemma SplitHostPort_UDPAddr_String:
  assumes "wf_addr a"
  shows "SplitHostPort (UDPAddr_String a) = Ok (IP_String (addr_IP a), dec_str (addr_Port a))"
proof -
  have "UDPAddr_String a = JoinHostPort (IP_String (addr_IP a)) (dec_str (addr_Port a))"
    using assms by (auto simp: UDPAddr_String_def wf_addr_def)
  with assms show ?thesis
    by (simp add: SplitHostPort_JoinHostPort IP_String_no_brackets dec_str_chars wf_addr_def)
qed

section \<open>Parsing a dotted address\<close>

lemma digits_loop_dec:
  "\<forall>c \<in> set ds. \<exists>d < 10. c = digit_char d \<Longrightarrow> dec_value n ds < 16777215 \<Longrightarrow>
   rest = [] \<or> digit_val (hd rest) = None \<Longrightarrow>
   digits_loop digit_val 10 n (ds @ rest) = Some (dec_value n ds, rest)"
proof (induction ds arbitrary: n)
  case Nil
  then show ?case by (cases rest) (simp_all add: dec_value_def)
next
  case (Cons c cs)
  then obtain d where d: "d < 10" "c = digit_char d" by auto
  then have v: "dec_value n (c # cs) = dec_value (10 * n + d) cs" by (simp add: dec_value_def)
  with Cons.prems(2) dec_value_ge [of "10 * n + d" cs] have "10 * n + d < 16777215" by simp
  with Cons d v show ?case by (simp add: Let_def)
qed

lemma leading_number_dec:
  assumes "n < 16777215" "rest = [] \<or> digit_val (hd rest) = None"
  shows "leading_number digit_val 10 (dec_str n @ rest) = Some (n, rest)"
proof -
  obtain c cs where c: "dec_str n = c # cs" by (cases "dec_str n") simp_all
  have "\<exists>d < 10. c = digit_char d" by (rule dec_str_digits [of c n]) (simp add: c)
  then have "digit_val c \<noteq> None" by auto
  moreover have "digits_loop digit_val 10 0 (dec_str n @ rest) = Some (n, rest)"
    using assms digits_loop_dec [of "dec_str n" 0 rest] by (simp add: dec_str_digits dec_value_dec_str)
  ultimately show ?thesis by (simp add: leading_number_def c)
qed

lemma digit_val_dot [simp]: "digit_val CHR ''.'' = None"
  by (simp add: digit_val_def)

lemma parse_octets_step:
  assumes "parse_octets k True rest = Some bs" "rest = [] \<or> hd rest = CHR ''.''"
  shows "parse_octets (Suc k) dot ((if dot then ''.'' else []) @ dec_str (unat b) @ rest) = Some (b # bs)"
proof -
  have "unat b < 256" using unsigned_less [of b] by simp
  with assms leading_number_dec [of "unat b" rest] show ?thesis by auto
qed

lemma parseIPv4_dotted:
  assumes "length p = 4"
  shows "parseIPv4 (dotted p) = Some (v4_in_v6_prefix @ p)"
proof -
  from assms obtain a b c d where p: "p = [a, b, c, d]"
    by (auto simp: numeral_eq_Suc length_Suc_conv)
  have "parse_octets 1 True (''.'' @ dec_str (unat d)) = Some [d]"
    using parse_octets_step [of 0 "[]" "[]" True d] by simp
  then have "parse_octets 2 True (''.'' @ dec_str (unat c) @ ''.'' @ dec_str (unat d)) = Some [c, d]"
    using parse_octets_step [of 1 "''.'' @ dec_str (unat d)" "[d]" True c] by (simp add: numeral_2_eq_2)
  then have "parse_octets 3 True (''.'' @ dec_str (unat b) @ ''.'' @ dec_str (unat c) @ ''.'' @
      dec_str (unat d)) = Some [b, c, d]"
    using parse_octets_step [of 2 "''.'' @ dec_str (unat c) @ ''.'' @ dec_str (unat d)" "[c, d]" True b]
    by (simp add: eval_nat_numeral)
  then have "parse_octets 4 False (dotted p) = Some p"
    using parse_octets_step [of 3 "''.'' @ dec_str (unat b) @ ''.'' @ dec_str (unat c) @ ''.'' @
      dec_str (unat d)" "[b, c, d]" False a]
    by (simp add: p dotted_def eval_nat_numeral)
  then show ?thesis by (simp add: parseIPv4_def)
qed

lemma ParseIP_dotted: "length p = 4 \<Longrightarrow> ParseIP (dotted p) = Some (v4_in_v6_prefix @ p)"
proof -
  assume len: "length p = 4"
  have "\<forall>c \<in> set (dec_str (unat (p ! 0))). c \<noteq> CHR ''.'' \<and> c \<noteq> CHR '':''"
    using dec_str_chars by metis
  then have "dropWhile (\<lambda>c. c \<noteq> CHR ''.'' \<and> c \<noteq> CHR '':'') (dotted p) =
      ''.'' @ dec_str (unat (p ! 1)) @ ''.'' @ dec_str (unat (p ! 2)) @ ''.'' @ dec_str (unat (p ! 3))"
    by (simp add: dotted_def dropWhile_append2)
  with parseIPv4_dotted [OF len] show ?thesis by (simp add: ParseIP_def)
qed

end
