(* ===== verification/Krpc.thy ===== *)
theory Krpc
  imports Go_Net
begin

text \<open>
  \<^verbatim>\<open>krpc/krpc.go\<close>: building KRPC messages, reading typed values out of decoded ones, the compact
  form of node addresses and a variable-length integer encoding.

  A decoded message is a Go map from strings to \<^verbatim>\<open>interface{}\<close>; \<open>goval\<close> has one constructor per
  dynamic type the program stores in or asserts of such values. The bencode decoder produces
  \<open>GStr\<close>, \<open>GInt64\<close>, \<open>GList\<close> and \<open>GMap\<close>; the program itself also puts plain \<^verbatim>\<open>int\<close>s (\<open>GInt\<close>) into
  dictionaries it encodes. A map is an association list read with \<^const>\<open>map_of\<close>.
\<close>

section \<open>Values and accessors\<close>

datatype goval =
    GStr string
  | GInt int
  | GInt64 int
  | GList "goval list"
  | GMap "(string \<times> goval) list"

type_synonym dict = "(string \<times> goval) list"

definition transIDBytes :: string where
  "transIDBytes = ''abcdefghijklmnopqrstuvwxyzABCDEFGHIJKLMNOPQRSTUVWXYZ''"

definition IPv4NodeAddrLen :: nat where
  "IPv4NodeAddrLen = 26"

definition IPv6NodeAddrLen :: nat where
  "IPv6NodeAddrLen = 38"

text \<open>The two draws of \<^verbatim>\<open>rand.Int63()\<close> are the arguments; they are never negative.\<close>

definition NewTransactionID :: "nat \<Rightarrow> nat \<Rightarrow> string" where
  "NewTransactionID r0 r1 =
     [transIDBytes ! (r0 mod length transIDBytes), transIDBytes ! (r1 mod length transIDBytes)]"

definition MakeQuery :: "string \<Rightarrow> string \<Rightarrow> dict \<Rightarrow> dict" where
  "MakeQuery transaction query data =
     [(''t'', GStr transaction), (''y'', GStr ''q''), (''q'', GStr query), (''a'', GMap data)]"

definition MakeResponse :: "string \<Rightarrow> dict \<Rightarrow> dict" where
  "MakeResponse transaction data =
     [(''t'', GStr transaction), (''y'', GStr ''r''), (''r'', GMap data)]"

definition GetString :: "dict \<Rightarrow> string \<Rightarrow> string outcome" where
  "GetString data key =
     (case map_of data key of
        None \<Rightarrow> Err (MissingKey key)
      | Some (GStr out) \<Rightarrow> Ok out
      | Some _ \<Rightarrow> Err KeyTypeMismatch)"

definition GetInt :: "dict \<Rightarrow> string \<Rightarrow> int outcome" where
  "GetInt data key =
     (case map_of data key of
        None \<Rightarrow> Err (MissingKey key)
      | Some (GInt64 out) \<Rightarrow> Ok out
      | Some _ \<Rightarrow> Err KeyTypeMismatch)"

definition GetMap :: "dict \<Rightarrow> string \<Rightarrow> dict outcome" where
  "GetMap data key =
     (case map_of data key of
        None \<Rightarrow> Err (MissingKey key)
      | Some (GMap out) \<Rightarrow> Ok out
      | Some _ \<Rightarrow> Err KeyTypeMismatch)"

definition GetList :: "dict \<Rightarrow> string \<Rightarrow> goval list outcome" where
  "GetList data key =
     (case map_of data key of
        None \<Rightarrow> Err (MissingKey key)
      | Some (GList out) \<Rightarrow> Ok out
      | Some _ \<Rightarrow> Err KeyTypeMismatch)"

definition checkKey :: "dict \<Rightarrow> string \<Rightarrow> string \<Rightarrow> unit outcome" where
  "checkKey data key t =
     (case map_of data key of
        None \<Rightarrow> Err (MissingKey key)
      | Some val \<Rightarrow>
          if t \<in> {''string'', ''int'', ''map'', ''list''} then
            (let ok = (if t = ''string'' then (case val of GStr _ \<Rightarrow> True | _ \<Rightarrow> False)
                       else if t = ''int'' then (case val of GInt _ \<Rightarrow> True | _ \<Rightarrow> False)
                       else if t = ''map'' then (case val of GMap _ \<Rightarrow> True | _ \<Rightarrow> False)
                       else (case val of GList _ \<Rightarrow> True | _ \<Rightarrow> False))
             in if ok then Ok () else Err KeyTypeMismatch)
          else Err InvalidKeyType)"

fun checkKeys :: "dict \<Rightarrow> string list list \<Rightarrow> unit outcome" where
  "checkKeys data [] = Ok ()"
| "checkKeys data (args # pairs) =
     (case args of
        key # t # _ \<Rightarrow>
          (case checkKey data key t of Ok _ \<Rightarrow> checkKeys data pairs | r \<Rightarrow> r)
      | _ \<Rightarrow> Panic IndexOutOfRange)"

section \<open>Compact node addresses\<close>

text \<open>\<^verbatim>\<open>(uint16(hi)<<8)|uint16(lo)\<close>\<close>

definition port_of :: "byte \<Rightarrow> byte \<Rightarrow> 16 word" where
  "port_of hi lo = push_bit 8 (ucast hi) OR ucast lo"

definition DecodeCompactNodeAddr :: "string \<Rightarrow> string" where
  "DecodeCompactNodeAddr cni =
     (let b = str_bytes cni in
      if length cni = 6 then
        dec_str (unat (b ! 0)) @ ''.'' @ dec_str (unat (b ! 1)) @ ''.'' @ dec_str (unat (b ! 2)) @
        ''.'' @ dec_str (unat (b ! 3)) @ '':'' @ dec_str (unat (port_of (b ! 4) (b ! 5)))
      else if length cni = 18 then
        ''['' @ IP_String (take 16 b) @ '']:'' @ dec_str (unat (port_of (b ! 16) (b ! 17)))
      else [])"

definition EncodeCompactNodeAddr :: "string \<Rightarrow> string" where
  "EncodeCompactNodeAddr addr =
     (let (host, port) = (case SplitHostPort addr of Ok hp \<Rightarrow> hp | _ \<Rightarrow> ([], [])) in
      case ParseIP host of
        None \<Rightarrow> []
      | Some ip \<Rightarrow>
          (let c = (word_of_nat (parse_u16 port) :: 16 word);
               pt = [ucast (drop_bit 8 c), ucast c] in
           bytes_str (case IP_To4 ip of
                        Some ip2 \<Rightarrow> take 4 ip2 @ pt
                      | None \<Rightarrow> take 16 ip @ pt)))"

section \<open>Integers\<close>

text \<open>
  The loop of \<^verbatim>\<open>int2bytes\<close>: byte \<open>i\<close> is masked out and shifted down (arithmetically, as \<^verbatim>\<open>>>\<close> on an
  \<^verbatim>\<open>int64\<close> does), and \<open>j\<close> remembers the first non-zero byte.
\<close>

fun int2bytes_loop :: "64 word \<Rightarrow> nat \<Rightarrow> nat \<Rightarrow> byte list \<Rightarrow> nat option \<Rightarrow> byte list \<times> nat option" where
  "int2bytes_loop val 0 i data j = (data, j)"
| "int2bytes_loop val (Suc left) i data j =
     (let shift = (7 - i) * 8;
          b = ucast (signed_drop_bit shift (val AND push_bit shift 0xff))
      in int2bytes_loop val left (Suc i) (data @ [b])
           (if j = None \<and> b \<noteq> 0 then Some i else j))"

definition int2bytes :: "64 word \<Rightarrow> byte list" where
  "int2bytes val =
     (let (data, j) = int2bytes_loop val 8 0 [] None in
      case j of Some k \<Rightarrow> drop k data | None \<Rightarrow> take 1 data)"

section \<open>Lemmas\<close>

named_theorems krpc_get \<comment> \<open>unfolds the accessors\<close>
declare GetString_def [krpc_get] GetInt_def [krpc_get] GetMap_def [krpc_get] GetList_def [krpc_get]

lemma GetString_eq_Ok [simp]: "GetString d k = Ok s \<longleftrightarrow> map_of d k = Some (GStr s)"
  by (auto simp: GetString_def split: option.splits goval.splits)

lemma GetInt_eq_Ok [simp]: "GetInt d k = Ok i \<longleftrightarrow> map_of d k = Some (GInt64 i)"
  by (auto simp: GetInt_def split: option.splits goval.splits)

lemma GetMap_eq_Ok [simp]: "GetMap d k = Ok m \<longleftrightarrow> map_of d k = Some (GMap m)"
  by (auto simp: GetMap_def split: option.splits goval.splits)

lemma GetList_eq_Ok [simp]: "GetList d k = Ok l \<longleftrightarrow> map_of d k = Some (GList l)"
  by (auto simp: GetList_def split: option.splits goval.splits)

lemma Get_no_panic:
  "GetString d k \<noteq> Panic p" "GetString d k \<noteq> Hang" "GetInt d k \<noteq> Panic p" "GetInt d k \<noteq> Hang"
  "GetMap d k \<noteq> Panic p" "GetMap d k \<noteq> Hang" "GetList d k \<noteq> Panic p" "GetList d k \<noteq> Hang"
  by (simp_all add: krpc_get split: option.splits goval.splits)

lemma port_of_bytes: "ucast (drop_bit 8 (port_of hi lo)) = hi" "ucast (port_of hi lo) = lo"
proof -
  show "ucast (drop_bit 8 (port_of hi lo)) = hi"
    by (rule bit_word_eqI) (auto simp: port_of_def bit_simps dest: bit_imp_le_length)
  show "ucast (port_of hi lo) = lo"
    by (rule bit_word_eqI) (auto simp: port_of_def bit_simps)
qed

lemma DecodeCompactNodeAddr_6:
  assumes "length cni = 6"
  shows "DecodeCompactNodeAddr cni =
    dotted (take 4 (str_bytes cni)) @ '':'' @
    dec_str (unat (port_of (str_bytes cni ! 4) (str_bytes cni ! 5)))"
  using assms by (simp add: DecodeCompactNodeAddr_def Let_def dotted_def)

lemma IP_To4_mapped: "length p = 4 \<Longrightarrow> IP_To4 (v4_in_v6_prefix @ p) = Some p"
  by (simp add: IP_To4_def v4_in_v6_prefix_def)

text \<open>Encoding an IPv4 address text gives its four bytes and the two port bytes.\<close>

lemma EncodeCompactNodeAddr_v4:
  assumes split: "SplitHostPort addr = Ok (dotted p, dec_str (unat (port_of hi lo)))" and "length p = 4"
  shows "EncodeCompactNodeAddr addr = bytes_str (p @ [hi, lo])"
proof -
  have "unat (port_of hi lo) < 65536" using unsigned_less [of "port_of hi lo"] by simp
  then have "(word_of_nat (parse_u16 (dec_str (unat (port_of hi lo)))) :: 16 word) = port_of hi lo"
    by (simp add: parse_u16_dec_str)
  with assms show ?thesis
    by (simp add: EncodeCompactNodeAddr_def Let_def ParseIP_dotted IP_To4_mapped port_of_bytes)
qed

text \<open>The byte that the mask and the arithmetic shift of \<^verbatim>\<open>int2bytes\<close> select.\<close>

lemma int2bytes_byte:
  assumes "s \<le> 56"
  shows "(ucast (signed_drop_bit s (val AND push_bit s (0xff :: 64 word))) :: byte) = ucast (drop_bit s val)"
proof (rule bit_word_eqI)
  fix n :: nat
  assume "n < LENGTH(8)"
  then have n: "n < 8" by simp
  have "(0xff :: 64 word) = mask 8" by (simp add: mask_eq_exp_minus_1)
  then have ff: "bit (0xff :: 64 word) n" using n by (simp only: bit_mask_iff) simp
  have sn: "s + n < 64" using n assms by simp
  have "bit (val AND push_bit s 0xff) (s + n) \<longleftrightarrow> bit val (s + n)"
    using sn ff by (simp add: bit_and_iff bit_push_bit_iff)
  then have "bit (signed_drop_bit s (val AND push_bit s 0xff)) n \<longleftrightarrow> bit val (s + n)"
    using sn by (auto simp: bit_signed_drop_bit_iff)
  then show "bit (ucast (signed_drop_bit s (val AND push_bit s 0xff)) :: byte) n =
      bit (ucast (drop_bit s val) :: byte) n"
    using n by (simp add: bit_ucast_iff bit_drop_bit_eq)
qed

lemma int2bytes_loop_eq:
  "i + m = 8 \<Longrightarrow> int2bytes_loop val m i data j =
     (let bs = map (\<lambda>i. ucast (drop_bit ((7 - i) * 8) val)) [i..<8]
      in (data @ bs,
          if j = None
          then map_option ((+) i) (if \<exists>b \<in> set bs. b \<noteq> 0 then Some (length (takeWhile (\<lambda>b. b = 0) bs)) else None)
          else j))"
proof (induction m arbitrary: i data j)
  case 0
  then show ?case by (cases j) simp_all
next
  case (Suc m)
  then have "i < 8" "[i..<8] = i # [Suc i..<8]" by (auto simp: upt_conv_Cons)
  with Suc.IH [of "Suc i"] Suc.prems show ?case
    by (cases j) (auto simp: Let_def int2bytes_byte comp_def)
qed

text \<open>\<^verbatim>\<open>int2bytes\<close> drops the leading zero bytes of the big-endian form, but keeps one byte for zero.\<close>

definition be_bytes64 :: "64 word \<Rightarrow> byte list" where
  "be_bytes64 val = map (\<lambda>i. ucast (drop_bit ((7 - i) * 8) val)) [0..<8]"

lemma int2bytes_eq:
  "int2bytes val =
     (if \<exists>b \<in> set (be_bytes64 val). b \<noteq> 0 then dropWhile (\<lambda>b. b = 0) (be_bytes64 val) else [0])"
proof -
  have loop: "int2bytes_loop val 8 0 [] None =
      (be_bytes64 val, if \<exists>b \<in> set (be_bytes64 val). b \<noteq> 0
         then Some (length (takeWhile (\<lambda>b. b = 0) (be_bytes64 val))) else None)"
    using int2bytes_loop_eq [of 0 8 val "[]" None]
    by (simp add: be_bytes64_def Let_def option.map_ident del: upt_rec_numeral)
  have hd: "\<forall>b \<in> set (be_bytes64 val). b = 0 \<Longrightarrow> take 1 (be_bytes64 val) = [0]"
    by (simp add: be_bytes64_def upt_rec)
  show ?thesis
    by (cases "\<exists>b \<in> set (be_bytes64 val). b \<noteq> 0")
      (use hd in \<open>auto simp: int2bytes_def loop dropWhile_eq_drop\<close>)
qed

section \<open>Properties\<close>

text \<open>C39: \<^verbatim>\<open>EncodeCompactNodeAddr\<close> inverts \<^verbatim>\<open>DecodeCompactNodeAddr\<close> on every compact IPv4 node address:
  printing six bytes as a dotted address with a port and parsing the text back gives the same
  six bytes.\<close>

theorem CompactNodeAddr_roundtrip:
  assumes "length cni = 6"
  shows "EncodeCompactNodeAddr (DecodeCompactNodeAddr cni) = cni"
proof -
  let ?b = "str_bytes cni"
  have "?b = take 4 ?b @ [?b ! 4, ?b ! 5]"
    using assms by (intro nth_equalityI) (auto simp: nth_append less_Suc_eq numeral_eq_Suc)
  moreover have "SplitHostPort (DecodeCompactNodeAddr cni) =
      Ok (dotted (take 4 ?b), dec_str (unat (port_of (?b ! 4) (?b ! 5))))"
    unfolding DecodeCompactNodeAddr_6 [OF assms]
    by (intro SplitHostPort_plain) (simp_all add: dotted_chars dec_str_chars)
  ultimately show ?thesis
    using EncodeCompactNodeAddr_v4 [of "DecodeCompactNodeAddr cni" "take 4 ?b" "?b ! 4" "?b ! 5"] assms
    by (metis bytes_str_bytes length_str_bytes length_take min.absorb2 numeral_le_iff semiring_norm(68,71,72))
qed

theorem CompactNodeAddr_roundtrip_witness:
  "EncodeCompactNodeAddr (DecodeCompactNodeAddr (bytes_str [192, 168, 1, 1, 26, 225])) =
   bytes_str [192, 168, 1, 1, 26, 225]"
  by (rule CompactNodeAddr_roundtrip) simp

text \<open>The eighteen-byte form does not round-trip when its address is an IPv4-mapped one: it is
  printed in dotted form and encoded back as the six-byte IPv4 form.\<close>

theorem CompactNodeAddr_mapped:
  assumes "length cni = 18" and "take 12 (str_bytes cni) = v4_in_v6_prefix"
  shows "EncodeCompactNodeAddr (DecodeCompactNodeAddr cni) = drop 12 cni"
proof -
  let ?b = "str_bytes cni" and ?p = "take 4 (drop 12 (str_bytes cni))"
  have "?b \<noteq> []" using assms(1) by (auto simp: str_bytes_def)
  then have ip: "IP_String (take 16 ?b) = dotted ?p"
    using assms by (auto simp: IP_String_def IP_To4_def drop_take)
  have "SplitHostPort (DecodeCompactNodeAddr cni) =
      Ok (dotted ?p, dec_str (unat (port_of (?b ! 16) (?b ! 17))))"
    using assms SplitHostPort_bracketed [of "dotted ?p"] ip
    by (simp add: DecodeCompactNodeAddr_def Let_def dotted_chars dec_str_chars)
  then have "EncodeCompactNodeAddr (DecodeCompactNodeAddr cni) = bytes_str (?p @ [?b ! 16, ?b ! 17])"
    using assms by (intro EncodeCompactNodeAddr_v4) simp_all
  also have "?p @ [?b ! 16, ?b ! 17] = drop 12 ?b"
    using assms(1) by (intro nth_equalityI) (auto simp: nth_append less_Suc_eq numeral_eq_Suc)
  also have "bytes_str (drop 12 ?b) = drop 12 cni"
    by (simp add: bytes_str_def str_bytes_def drop_map comp_def)
  finally show ?thesis .
qed

theorem CompactNodeAddr_mapped_witness:
  "EncodeCompactNodeAddr (DecodeCompactNodeAddr (bytes_str (v4_in_v6_prefix @ [10, 0, 0, 1, 26, 225]))) =
   drop 12 (bytes_str (v4_in_v6_prefix @ [10, 0, 0, 1, 26, 225]))"
  by (rule CompactNodeAddr_mapped) (simp_all add: v4_in_v6_prefix_def)

text \<open>\<^verbatim>\<open>checkKey\<close> with type \<^verbatim>\<open>"int"\<close> refuses exactly the integers that \<^verbatim>\<open>GetInt\<close> accepts: the
  decoder yields \<^verbatim>\<open>int64\<close> values, the check asserts \<^verbatim>\<open>int\<close>.\<close>

theorem checkKey_int_rejects_int64:
  assumes "GetInt data key = Ok i"
  shows "checkKey data key ''int'' = Err KeyTypeMismatch"
  using assms by (simp add: checkKey_def)

theorem checkKey_int_rejects_int64_witness:
  "checkKey [(''port'', GInt64 6881)] ''port'' ''int'' = Err KeyTypeMismatch"
  by (rule checkKey_int_rejects_int64 [of _ _ 6881]) simp

text \<open>A transaction identifier is always two letters of the alphabet, whatever is drawn.\<close>

theorem NewTransactionID_letters:
  "length (NewTransactionID r0 r1) = 2 \<and> set (NewTransactionID r0 r1) \<subseteq> set transIDBytes"
proof -
  have "transIDBytes ! (r mod length transIDBytes) \<in> set transIDBytes" for r
    by (intro nth_mem mod_less_divisor) (simp add: transIDBytes_def)
  then show ?thesis by (simp add: NewTransactionID_def)
qed

end
