(* ===== verification/Torrent.thy ===== *)
theory Torrent
  imports Infohash Krpc
begin

text \<open>
  \<^verbatim>\<open>models/torrent.go\<close> and \<^verbatim>\<open>models/peer.go\<close>: the torrent record, and building one from the metadata
  a peer sent. The bencode decoder is a package outside the repository: \<open>dec\<close> stands for
  \<^verbatim>\<open>bencode.DecodeDict\<close> and returns the dictionary with the position after it. Its call may end
  in any way; theorems say what they assume of it.
\<close>

section \<open>Data\<close>

text \<open>Go's \<^verbatim>\<open>time.Time\<close>, as an instant; the zero value is 0.\<close>

type_synonym gotime = int

type_synonym dict_decoder = "byte list \<Rightarrow> int \<Rightarrow> (dict \<times> int) outcome"

record File =
  f_ID :: int
  f_Path :: string
  f_Size :: int
  f_TorrentID :: int

record Torrent =
  t_ID :: int
  t_Infohash :: infohash
  t_Name :: string
  t_Files :: "File list"
  t_Size :: int
  t_Updated :: gotime
  t_Created :: gotime
  t_Tags :: "string list"

record Peer =
  p_Addr :: UDPAddr
  p_Infohash :: infohash
  p_Created :: gotime
  p_Updated :: gotime

definition Peer_String :: "Peer \<Rightarrow> string" where
  "Peer_String p = Infohash_String (p_Infohash p) @ '' ('' @ UDPAddr_String (p_Addr p) @ '')''"

definition mkPeer :: "UDPAddr \<Rightarrow> infohash \<Rightarrow> Peer" where
  "mkPeer addr ih = \<lparr>p_Addr = addr, p_Infohash = ih, p_Created = 0, p_Updated = 0\<rparr>"

lemma mkPeer_sel [simp]: "p_Addr (mkPeer addr ih) = addr" "p_Infohash (mkPeer addr ih) = ih"
  by (simp_all add: mkPeer_def)

section \<open>From metadata to torrent\<close>

definition InfohashMatchesMetadata :: "infohash \<Rightarrow> byte list \<Rightarrow> bool" where
  "InfohashMatchesMetadata ih md \<longleftrightarrow> ih = sha1_sum md"

text \<open>\<^verbatim>\<open>strings.Join\<close>\<close>

fun strings_Join :: "string list \<Rightarrow> string \<Rightarrow> string" where
  "strings_Join [] sep = []"
| "strings_Join [x] sep = x"
| "strings_Join (x # y # ys) sep = x @ sep @ strings_Join (y # ys) sep"

text \<open>The inner loop: every element of a path is asserted to be a string.\<close>

fun path_loop :: "goval list \<Rightarrow> string list outcome" where
  "path_loop [] = Ok []"
| "path_loop (p # ps) =
     (case p of
        GStr s \<Rightarrow> and_then (path_loop ps) (\<lambda>rest. Ok (s # rest))
      | _ \<Rightarrow> Panic TypeAssertion)"

text \<open>One entry of \<^verbatim>\<open>files\<close>, with its two unchecked type assertions; a missing \<^verbatim>\<open>path\<close> reads as nil.\<close>

definition file_of :: "goval \<Rightarrow> File outcome" where
  "file_of item =
     (case item of
        GMap file \<Rightarrow>
          (case map_of file ''path'' of
             Some (GList paths) \<Rightarrow>
               and_then (path_loop paths) (\<lambda>path.
               and_then (GetInt file ''length'') (\<lambda>fSize.
               Ok \<lparr>f_ID = 0, f_Path = strings_Join path ''/'', f_Size = fSize, f_TorrentID = 0\<rparr>))
           | _ \<Rightarrow> Panic TypeAssertion)
      | _ \<Rightarrow> Panic TypeAssertion)"

fun files_loop :: "goval list \<Rightarrow> File list \<Rightarrow> int \<Rightarrow> (File list \<times> int) outcome" where
  "files_loop [] fs tot = Ok (fs, tot)"
| "files_loop (item # rest) fs tot =
     and_then (file_of item) (\<lambda>f. files_loop rest (fs @ [f]) (wrap64 (tot + f_Size f)))"

definition TorrentFromMetadata :: "dict_decoder \<Rightarrow> infohash \<Rightarrow> byte list \<Rightarrow> Torrent outcome" where
  "TorrentFromMetadata dec ih md =
     (if \<not> InfohashMatchesMetadata ih md then Err InfohashMismatch
      else
        and_then (dec md 0) (\<lambda>(info, _).
        and_then (GetString info ''name'') (\<lambda>name.
        let bt = \<lparr>t_ID = 0, t_Infohash = ih, t_Name = name, t_Files = [], t_Size = 0,
                  t_Updated = 0, t_Created = 0, t_Tags = []\<rparr> in
        (case GetList info ''files'' of
           Ok files \<Rightarrow>
             and_then (files_loop files [] 0) (\<lambda>(fs, tot). Ok (bt\<lparr>t_Files := fs, t_Size := tot\<rparr>))
         | _ \<Rightarrow>
             (case GetInt info ''length'' of
                Ok len \<Rightarrow> Ok (bt\<lparr>t_Size := len\<rparr>)
              | _ \<Rightarrow> Err NeitherLengthNorFiles)))))"

section \<open>Well-formed file entries\<close>

text \<open>What the assertions demand of an entry, and what a whole entry is.\<close>

definition entry_asserts :: "goval \<Rightarrow> bool" where
  "entry_asserts item \<longleftrightarrow>
     (\<exists>file paths. item = GMap file \<and> map_of file ''path'' = Some (GList paths) \<and>
        (\<forall>p \<in> set paths. \<exists>s. p = GStr s))"

lemma path_loop_Ok_iff: "path_loop ps = Ok ss \<longleftrightarrow> ps = map GStr ss"
  by (induction ps arbitrary: ss) (auto simp: and_then_Ok_iff Cons_eq_map_conv split: goval.splits)

lemma path_loop_cases: "(\<exists>ss. path_loop ps = Ok ss) \<or> path_loop ps = Panic TypeAssertion"
  by (induction ps) (auto split: goval.splits)

lemma path_loop_Panic_iff: "path_loop ps = Panic q \<longleftrightarrow> q = TypeAssertion \<and> \<not> (\<forall>p \<in> set ps. \<exists>s. p = GStr s)"
  by (induction ps) (auto simp: and_then_Panic_iff split: goval.splits)

lemma file_of_Panic_iff: "file_of item = Panic q \<longleftrightarrow> q = TypeAssertion \<and> \<not> entry_asserts item"
proof (cases "\<exists>file paths. item = GMap file \<and> map_of file ''path'' = Some (GList paths)")
  case True
  then obtain d paths where "item = GMap d" "map_of d ''path'' = Some (GList paths)" by blast
  then show ?thesis
    using path_loop_cases [of paths] path_loop_Panic_iff [of paths] Get_no_panic(3)
    by (auto simp: file_of_def entry_asserts_def and_then_Panic_iff)
next
  case False
  then show ?thesis
    by (auto simp: file_of_def entry_asserts_def split: goval.splits option.splits)
qed

lemma file_of_Ok_iff:
  "file_of item = Ok f \<longleftrightarrow>
     (\<exists>file paths tot. item = GMap file \<and> map_of file ''path'' = Some (GList (map GStr paths)) \<and>
        map_of file ''length'' = Some (GInt64 tot) \<and>
        f = \<lparr>f_ID = 0, f_Path = strings_Join paths ''/'', f_Size = tot, f_TorrentID = 0\<rparr>)"
  by (auto simp: file_of_def and_then_Ok_iff path_loop_Ok_iff split: goval.splits option.splits)

lemma files_loop_Ok:
  "files_loop items fs tot = Ok (fs', tot') \<Longrightarrow>
   \<exists>gs. fs' = fs @ gs \<and> list_all2 (\<lambda>item f. file_of item = Ok f) items gs \<and>
     (in_int64 tot \<longrightarrow> tot' = wrap64 (tot + sum_list (map f_Size gs)))"
proof (induction items arbitrary: fs tot)
  case (Cons item items)
  from Cons.prems obtain f where f: "file_of item = Ok f"
    "files_loop items (fs @ [f]) (wrap64 (tot + f_Size f)) = Ok (fs', tot')"
    by (auto simp: and_then_Ok_iff)
  from Cons.IH [OF f(2)] obtain gs where "fs' = fs @ f # gs"
    "list_all2 (\<lambda>item f. file_of item = Ok f) items gs"
    "tot' = wrap64 (tot + f_Size f + sum_list (map f_Size gs))"
    by (auto simp: wrap64_add)
  with f(1) show ?case by (intro exI [of _ "f # gs"]) (simp add: add.assoc)
qed (simp add: wrap64_id)

lemma files_loop_Panic_iff:
  "files_loop items fs tot = Panic q \<longleftrightarrow>
     q = TypeAssertion \<and> (\<exists>pre item post. items = pre @ item # post \<and>
       (\<forall>i \<in> set pre. \<exists>f. file_of i = Ok f) \<and> \<not> entry_asserts item)"
proof (induction items arbitrary: fs tot)
  case (Cons x items)
  have split: "(\<exists>pre item post. x # items = pre @ item # post \<and> P pre item) \<longleftrightarrow>
      P [] x \<or> (\<exists>pre item post. items = pre @ item # post \<and> P (x # pre) item)" for P
    by (metis append_Cons append_Nil list.inject neq_Nil_conv)
  show ?case
    unfolding split files_loop.simps and_then_Panic_iff file_of_Panic_iff Cons.IH by auto
qed simp

section \<open>Properties\<close>

text \<open>C35: when \<^verbatim>\<open>TorrentFromMetadata\<close> returns a torrent, the metadata hashes to the infohash asked
  for, the torrent carries that infohash and the dictionary's name, and either it lists one file
  per entry of \<^verbatim>\<open>files\<close>, in order, with the path components joined by a slash and the size the
  64-bit sum of the lengths, or there is no \<^verbatim>\<open>files\<close> list and the size is \<^verbatim>\<open>length\<close>.\<close>

theorem TorrentFromMetadata_sound:
  assumes "TorrentFromMetadata dec ih md = Ok t"
  shows "ih = sha1_sum md \<and> t_Infohash t = ih \<and> t_Tags t = [] \<and>
    (\<exists>info idx. dec md 0 = Ok (info, idx) \<and> map_of info ''name'' = Some (GStr (t_Name t)) \<and>
      (case map_of info ''files'' of
         Some (GList items) \<Rightarrow>
           list_all2 (\<lambda>item f. \<exists>file paths. item = GMap file \<and>
             map_of file ''path'' = Some (GList (map GStr paths)) \<and>
             map_of file ''length'' = Some (GInt64 (f_Size f)) \<and> f_Path f = strings_Join paths ''/'')
             items (t_Files t) \<and>
           t_Size t = wrap64 (sum_list (map f_Size (t_Files t)))
       | _ \<Rightarrow> map_of info ''length'' = Some (GInt64 (t_Size t)) \<and> t_Files t = []))"
proof -
  from assms obtain info idx name where md: "ih = sha1_sum md" "dec md 0 = Ok (info, idx)"
    "map_of info ''name'' = Some (GStr name)"
    by (auto simp: TorrentFromMetadata_def InfohashMatchesMetadata_def and_then_Ok_iff split: if_splits)
  have entry: "list_all2 (\<lambda>item f. \<exists>file paths. item = GMap file \<and>
             map_of file ''path'' = Some (GList (map GStr paths)) \<and>
             map_of file ''length'' = Some (GInt64 (f_Size f)) \<and> f_Path f = strings_Join paths ''/'')
             items gs" if "list_all2 (\<lambda>item f. file_of item = Ok f) items gs" for items gs
    using that by (rule list_all2_mono) (auto simp: file_of_Ok_iff)
  show ?thesis
  proof (cases "\<exists>items. map_of info ''files'' = Some (GList items)")
    case True
    then obtain items where items: "map_of info ''files'' = Some (GList items)" by blast
    then obtain fs tot where loop: "files_loop items [] 0 = Ok (fs, tot)"
      and t: "t = \<lparr>t_ID = 0, t_Infohash = ih, t_Name = name, t_Files = fs, t_Size = tot,
                  t_Updated = 0, t_Created = 0, t_Tags = []\<rparr>"
      using assms md
      by (auto simp: TorrentFromMetadata_def InfohashMatchesMetadata_def GetString_def GetList_def and_then_Ok_iff)
    from files_loop_Ok [OF loop] have "list_all2 (\<lambda>item f. file_of item = Ok f) items fs"
      "tot = wrap64 (sum_list (map f_Size fs))" by (auto simp: in_int64_def)
    with entry md items t show ?thesis by auto
  next
    case False
    then have "GetList info ''files'' = Err (MissingKey ''files'') \<or> GetList info ''files'' = Err KeyTypeMismatch"
      by (auto simp: GetList_def split: option.splits goval.splits)
    with assms md False show ?thesis
      by (auto simp: TorrentFromMetadata_def InfohashMatchesMetadata_def GetString_def
          split: outcome.splits option.splits goval.splits)
  qed
qed

text \<open>C36: metadata that hashes correctly and decodes to a dictionary with a name makes
  \<^verbatim>\<open>TorrentFromMetadata\<close> panic exactly when its \<^verbatim>\<open>files\<close> list has an entry that is not a dictionary
  with a \<^verbatim>\<open>path\<close> list of strings, all entries before it being sound; the panic is a failed type
  assertion, not an error.\<close>

theorem TorrentFromMetadata_panics_iff:
  assumes "dec (md :: byte list) 0 = Ok (info, idx)" "map_of info ''name'' = Some (GStr name)"
  shows "TorrentFromMetadata dec (sha1_sum md) md = Panic q \<longleftrightarrow>
    q = TypeAssertion \<and> (\<exists>items pre item post. map_of info ''files'' = Some (GList items) \<and>
      items = pre @ item # post \<and> (\<forall>i \<in> set pre. \<exists>f. file_of i = Ok f) \<and> \<not> entry_asserts item)"
proof (cases "\<exists>items. map_of info ''files'' = Some (GList items)")
  case True
  then obtain items where items: "map_of info ''files'' = Some (GList items)" by blast
  then have "TorrentFromMetadata dec (sha1_sum md) md = Panic q \<longleftrightarrow> files_loop items [] 0 = Panic q"
    using assms
    by (auto simp: TorrentFromMetadata_def InfohashMatchesMetadata_def GetString_def GetList_def and_then_Panic_iff)
  then show ?thesis using items by (simp add: files_loop_Panic_iff)
next
  case False
  then have "GetList info ''files'' = Err (MissingKey ''files'') \<or> GetList info ''files'' = Err KeyTypeMismatch"
    by (auto simp: GetList_def split: option.splits goval.splits)
  with assms False show ?thesis
    by (auto simp: TorrentFromMetadata_def InfohashMatchesMetadata_def GetString_def
        split: outcome.splits option.splits)
qed

text \<open>A decoder that answers one sample metadata, for the concrete applications below.\<close>

definition sample_decoder :: "dict \<Rightarrow> dict_decoder" where
  "sample_decoder info md i = Ok (info, int (length md))"

theorem TorrentFromMetadata_sound_witness:
  "\<exists>t. TorrentFromMetadata (sample_decoder [(''name'', GStr ''a''), (''length'', GInt64 5)])
      (sha1_sum [1]) [1] = Ok t \<and> t_Size t = 5 \<and> t_Infohash t = sha1_sum [1]"
proof -
  define dec where "dec = sample_decoder [(''name'', GStr ''a''), (''length'', GInt64 5)]"
  obtain t where t: "TorrentFromMetadata dec (sha1_sum [1]) [1] = Ok t"
    by (simp add: TorrentFromMetadata_def InfohashMatchesMetadata_def dec_def sample_decoder_def krpc_get)
  from TorrentFromMetadata_sound [OF t] t show ?thesis by (auto simp: dec_def sample_decoder_def)
qed

theorem TorrentFromMetadata_panics_iff_witness:
  "TorrentFromMetadata (sample_decoder [(''name'', GStr ''a''), (''files'', GList [GInt64 0])])
     (sha1_sum [1]) [1] = Panic TypeAssertion"
proof -
  let ?info = "[(''name'', GStr ''a''), (''files'', GList [GInt64 0])]"
  have "\<not> entry_asserts (GInt64 0)" by (simp add: entry_asserts_def)
  moreover have "sample_decoder ?info [1] 0 = Ok (?info, 1)" by (simp add: sample_decoder_def)
  ultimately show ?thesis
    using TorrentFromMetadata_panics_iff [of "sample_decoder ?info" "[1]" ?info 1 "''a''" TypeAssertion]
    by fastforce
qed

end
