(* ===== verification/Sql_Tables.thy ===== *)
theory Sql_Tables
  imports Torrent "HOL-Library.List_Lexorder" "HOL-Library.Char_ord"
begin

text \<open>
  The schema and the prepared statements of \<^verbatim>\<open>db/sqlite.go\<close>, as functions on tables. A table is the
  list of its rows; \<^verbatim>\<open>integer primary key\<close> columns and the implicit row number of the two link tables are
  assigned as SQLite documents it, one more than the largest in the table. \<^verbatim>\<open>or replace\<close> deletes the rows
  that violate a uniqueness constraint before it inserts, \<^verbatim>\<open>or ignore\<close> does nothing when there are such
  rows, foreign keys are enforced (\<^verbatim>\<open>migrate\<close> switches them on) and deletions cascade. The full-text
  index is not kept here: only \<^verbatim>\<open>searchTorrents\<close> reads it. \<open>now\<close> stands for \<^verbatim>\<open>date('now')\<close>.
\<close>

section \<open>Tables\<close>

record torrent_row =
  tr_id :: int
  tr_infohash :: "byte list"
  tr_size :: int
  tr_name :: "string option"
  tr_created :: string
  tr_updated :: string

record file_row =
  fr_id :: int
  fr_torrent_id :: int
  fr_path :: string
  fr_size :: int

record tag_row =
  tg_id :: int
  tg_name :: string

record peer_row =
  pr_id :: int
  pr_address :: string
  pr_created :: string
  pr_updated :: string

text \<open>A row of \<^verbatim>\<open>tags_torrents\<close> or \<^verbatim>\<open>peers_torrents\<close>: its row number, the tag or peer, the torrent.\<close>

record link_row =
  lk_rowid :: int
  lk_from :: int
  lk_torrent_id :: int

text \<open>The database, and the last row number the connection has inserted.\<close>

record database =
  db_version :: int
  db_torrents :: "torrent_row list"
  db_files :: "file_row list"
  db_tags :: "tag_row list"
  db_tags_torrents :: "link_row list"
  db_peers :: "peer_row list"
  db_peers_torrents :: "link_row list"
  db_last_rowid :: int

definition empty_database :: database where
  "empty_database = \<lparr>db_version = 0, db_torrents = [], db_files = [], db_tags = [], db_tags_torrents = [],
     db_peers = [], db_peers_torrents = [], db_last_rowid = 0\<rparr>"

definition new_rowid :: "int list \<Rightarrow> int" where
  "new_rowid ids = fold max ids 0 + 1"

section \<open>Deletions, with their cascades\<close>

definition delete_torrents :: "(torrent_row \<Rightarrow> bool) \<Rightarrow> database \<Rightarrow> database" where
  "delete_torrents P db =
     (let gone = map tr_id (filter P (db_torrents db)) in
      db\<lparr>db_torrents := filter (\<lambda>r. \<not> P r) (db_torrents db),
         db_files := filter (\<lambda>f. fr_torrent_id f \<notin> set gone) (db_files db),
         db_tags_torrents := filter (\<lambda>l. lk_torrent_id l \<notin> set gone) (db_tags_torrents db),
         db_peers_torrents := filter (\<lambda>l. lk_torrent_id l \<notin> set gone) (db_peers_torrents db)\<rparr>)"

definition delete_tags :: "(tag_row \<Rightarrow> bool) \<Rightarrow> database \<Rightarrow> database" where
  "delete_tags P db =
     (let gone = map tg_id (filter P (db_tags db)) in
      db\<lparr>db_tags := filter (\<lambda>r. \<not> P r) (db_tags db),
         db_tags_torrents := filter (\<lambda>l. lk_from l \<notin> set gone) (db_tags_torrents db)\<rparr>)"

definition delete_peers :: "(peer_row \<Rightarrow> bool) \<Rightarrow> database \<Rightarrow> database" where
  "delete_peers P db =
     (let gone = map pr_id (filter P (db_peers db)) in
      db\<lparr>db_peers := filter (\<lambda>r. \<not> P r) (db_peers db),
         db_peers_torrents := filter (\<lambda>l. lk_from l \<notin> set gone) (db_peers_torrents db)\<rparr>)"

section \<open>The prepared statements\<close>

definition sql_removeTorrent :: "byte list \<Rightarrow> database \<Rightarrow> database" where
  "sql_removeTorrent ih = delete_torrents (\<lambda>r. tr_infohash r = ih)"

definition sql_removePeer :: "string \<Rightarrow> database \<Rightarrow> database" where
  "sql_removePeer addr = delete_peers (\<lambda>r. pr_address r = addr)"

text \<open>\<^verbatim>\<open>insert or replace into torrents\<close>: the new row number is chosen before the old row goes.\<close>

definition sql_insertTorrent :: "string \<Rightarrow> string option \<Rightarrow> byte list \<Rightarrow> int \<Rightarrow> database \<Rightarrow> database" where
  "sql_insertTorrent now name ih sz db =
     (let i = new_rowid (map tr_id (db_torrents db));
          db' = delete_torrents (\<lambda>r. tr_infohash r = ih) db
      in db'\<lparr>db_torrents := db_torrents db' @
               [\<lparr>tr_id = i, tr_infohash = ih, tr_size = sz, tr_name = name, tr_created = now, tr_updated = now\<rparr>],
             db_last_rowid := i\<rparr>)"

definition sql_insertTag :: "string \<Rightarrow> database \<Rightarrow> database" where
  "sql_insertTag name db =
     (let i = new_rowid (map tg_id (db_tags db));
          db' = delete_tags (\<lambda>r. tg_name r = name) db
      in db'\<lparr>db_tags := db_tags db' @ [\<lparr>tg_id = i, tg_name = name\<rparr>], db_last_rowid := i\<rparr>)"

definition sql_insertPeer :: "string \<Rightarrow> string \<Rightarrow> database \<Rightarrow> database" where
  "sql_insertPeer now addr db =
     (if addr \<in> set (map pr_address (db_peers db)) then db
      else
        (let i = new_rowid (map pr_id (db_peers db)) in
         db\<lparr>db_peers := db_peers db @ [\<lparr>pr_id = i, pr_address = addr, pr_created = now, pr_updated = now\<rparr>],
            db_last_rowid := i\<rparr>))"

text \<open>Link rows must refer to rows that exist; \<^verbatim>\<open>or ignore\<close> does not cover that.\<close>

definition new_link :: "int \<Rightarrow> int \<Rightarrow> link_row list \<Rightarrow> link_row list" where
  "new_link a t ls = ls @ [\<lparr>lk_rowid = new_rowid (map lk_rowid ls), lk_from = a, lk_torrent_id = t\<rparr>]"

definition linked :: "int \<Rightarrow> int \<Rightarrow> link_row list \<Rightarrow> bool" where
  "linked a t ls \<longleftrightarrow> (\<exists>l \<in> set ls. lk_from l = a \<and> lk_torrent_id l = t)"

definition sql_insertTagTorrent :: "int \<Rightarrow> int \<Rightarrow> database \<Rightarrow> database outcome" where
  "sql_insertTagTorrent tagID torrentID db =
     (if linked tagID torrentID (db_tags_torrents db) then Ok db
      else if tagID \<in> set (map tg_id (db_tags db)) \<and> torrentID \<in> set (map tr_id (db_torrents db)) then
        Ok (db\<lparr>db_tags_torrents := new_link tagID torrentID (db_tags_torrents db),
               db_last_rowid := new_rowid (map lk_rowid (db_tags_torrents db))\<rparr>)
      else Err ForeignKeyViolation)"

definition sql_insertPeerTorrent :: "int \<Rightarrow> int \<Rightarrow> database \<Rightarrow> database outcome" where
  "sql_insertPeerTorrent peerID torrentID db =
     (if linked peerID torrentID (db_peers_torrents db) then Ok db
      else if peerID \<in> set (map pr_id (db_peers db)) \<and> torrentID \<in> set (map tr_id (db_torrents db)) then
        Ok (db\<lparr>db_peers_torrents := new_link peerID torrentID (db_peers_torrents db),
               db_last_rowid := new_rowid (map lk_rowid (db_peers_torrents db))\<rparr>)
      else Err ForeignKeyViolation)"

definition sql_insertFile :: "int \<Rightarrow> string \<Rightarrow> int \<Rightarrow> database \<Rightarrow> database outcome" where
  "sql_insertFile torrentID path sz db =
     (if torrentID \<in> set (map tr_id (db_torrents db)) then
        (let i = new_rowid (map fr_id (db_files db)) in
         Ok (db\<lparr>db_files := db_files db @ [\<lparr>fr_id = i, fr_torrent_id = torrentID, fr_path = path, fr_size = sz\<rparr>],
                db_last_rowid := i\<rparr>))
      else Err ForeignKeyViolation)"

section \<open>Queries\<close>

text \<open>What the driver hands out for a column; \<open>tm\<close> is how it renders the date columns.\<close>

datatype sqlval = SNull | SInt int | SText string | SBlob "byte list" | STime gotime

type_synonym sql_row = "sqlval list"

definition sql_text :: "string option \<Rightarrow> sqlval" where
  "sql_text v = (case v of None \<Rightarrow> SNull | Some s \<Rightarrow> SText s)"

definition sql_limit :: "int \<Rightarrow> 'a list \<Rightarrow> 'a list" where
  "sql_limit n xs = (if n < 0 then xs else take (nat n) xs)"

definition sql_offset :: "int \<Rightarrow> 'a list \<Rightarrow> 'a list" where
  "sql_offset n xs = drop (nat n) xs"

definition sql_selectFiles :: "int \<Rightarrow> database \<Rightarrow> sql_row list" where
  "sql_selectFiles torrentID db =
     map (\<lambda>f. [SInt (fr_id f), SInt (fr_torrent_id f), SText (fr_path f), SInt (fr_size f)])
       (sort_key fr_path (filter (\<lambda>f. fr_torrent_id f = torrentID) (db_files db)))"

definition sql_selectTags :: "int \<Rightarrow> database \<Rightarrow> sql_row list" where
  "sql_selectTags torrentID db =
     map (\<lambda>t. [SText (tg_name t)]) (filter (\<lambda>t. linked (tg_id t) torrentID (db_tags_torrents db)) (db_tags db))"

text \<open>\<^verbatim>\<open>select *\<close> has the seven columns of the table, the unused \<^verbatim>\<open>tsv\<close> last.\<close>

definition sql_getTorrent :: "(string \<Rightarrow> sqlval) \<Rightarrow> byte list \<Rightarrow> database \<Rightarrow> sql_row list" where
  "sql_getTorrent tm ih db =
     map (\<lambda>r. [SInt (tr_id r), SBlob (tr_infohash r), SInt (tr_size r), sql_text (tr_name r),
               tm (tr_created r), tm (tr_updated r), SNull])
       (sql_limit 1 (filter (\<lambda>r. tr_infohash r = ih) (db_torrents db)))"

definition tagged :: "string \<Rightarrow> database \<Rightarrow> torrent_row \<Rightarrow> bool" where
  "tagged tag db r \<longleftrightarrow>
     (\<exists>t \<in> set (db_tags db). tg_name t = tag \<and> linked (tg_id t) (tr_id r) (db_tags_torrents db))"

definition sql_torrentsByTag :: "(string \<Rightarrow> sqlval) \<Rightarrow> string \<Rightarrow> int \<Rightarrow> database \<Rightarrow> sql_row list" where
  "sql_torrentsByTag tm tag off db =
     map (\<lambda>r. [SInt (tr_id r), SBlob (tr_infohash r), sql_text (tr_name r), SInt (tr_size r),
               tm (tr_created r), tm (tr_updated r)])
       (sql_limit 50 (sql_offset off (sort_key tr_updated (filter (tagged tag db) (db_torrents db)))))"

text \<open>
  The pending infohashes: torrents without a name that have a peer, each with the greatest of its
  peers' addresses. The order of the groups is not fixed by the statement: \<open>ord\<close> is the one SQLite uses.
\<close>

definition peer_addresses :: "int \<Rightarrow> database \<Rightarrow> string list" where
  "peer_addresses torrentID db =
     map pr_address (filter (\<lambda>p. linked (pr_id p) torrentID (db_peers_torrents db)) (db_peers db))"

definition pending_rows :: "database \<Rightarrow> torrent_row list" where
  "pending_rows db = filter (\<lambda>r. tr_name r = None \<and> peer_addresses (tr_id r) db \<noteq> []) (db_torrents db)"

fun max_text :: "string list \<Rightarrow> string" where
  "max_text [] = []"
| "max_text (x # xs) = fold max xs x"

definition sql_selectPendingInfohashes ::
    "(torrent_row list \<Rightarrow> torrent_row list) \<Rightarrow> int \<Rightarrow> database \<Rightarrow> sql_row list" where
  "sql_selectPendingInfohashes ord n db =
     map (\<lambda>r. [SText (max_text (peer_addresses (tr_id r) db)), SBlob (tr_infohash r)])
       (sql_limit n (ord (pending_rows db)))"

section \<open>Integrity\<close>

text \<open>Keys are unique, every reference has its row, and nothing is linked twice.\<close>

definition keys_unique :: "database \<Rightarrow> bool" where
  "keys_unique db \<longleftrightarrow>
     distinct (map tr_id (db_torrents db)) \<and> distinct (map tr_infohash (db_torrents db)) \<and>
     distinct (map fr_id (db_files db)) \<and>
     distinct (map tg_id (db_tags db)) \<and> distinct (map tg_name (db_tags db)) \<and>
     distinct (map pr_id (db_peers db)) \<and> distinct (map pr_address (db_peers db)) \<and>
     distinct (map (\<lambda>l. (lk_from l, lk_torrent_id l)) (db_tags_torrents db)) \<and>
     distinct (map (\<lambda>l. (lk_from l, lk_torrent_id l)) (db_peers_torrents db))"

definition refs_exist :: "database \<Rightarrow> bool" where
  "refs_exist db \<longleftrightarrow>
     (\<forall>f \<in> set (db_files db). fr_torrent_id f \<in> tr_id ` set (db_torrents db)) \<and>
     (\<forall>l \<in> set (db_tags_torrents db). lk_torrent_id l \<in> tr_id ` set (db_torrents db)) \<and>
     (\<forall>l \<in> set (db_peers_torrents db). lk_torrent_id l \<in> tr_id ` set (db_torrents db)) \<and>
     (\<forall>l \<in> set (db_tags_torrents db). lk_from l \<in> tg_id ` set (db_tags db)) \<and>
     (\<forall>l \<in> set (db_peers_torrents db). lk_from l \<in> pr_id ` set (db_peers db))"

definition db_wf :: "database \<Rightarrow> bool" where
  "db_wf db \<longleftrightarrow> keys_unique db \<and> refs_exist db"

lemmas db_wf_defs = db_wf_def keys_unique_def refs_exist_def

lemma fold_max_ge: "(m :: int) \<le> fold max xs m" "x \<in> set xs \<Longrightarrow> x \<le> fold max xs (m :: int)"
proof -
  have ge: "m \<le> fold max xs m" for xs and m :: int
  proof (induction xs arbitrary: m)
    case (Cons a xs)
    from Cons.IH [of "max a m"] show ?case by simp
  qed simp
  then show "m \<le> fold max xs m" .
  show "x \<in> set xs \<Longrightarrow> x \<le> fold max xs m"
  proof (induction xs arbitrary: m)
    case (Cons a xs)
    with ge [of "max a m" xs] show ?case by auto
  qed simp
qed

lemma new_rowid_fresh: "x \<in> set ids \<Longrightarrow> x < new_rowid ids"
  using fold_max_ge(2) [of x ids 0] by (simp add: new_rowid_def)

lemma new_rowid_notin [simp]: "new_rowid ids \<notin> set ids"
  using new_rowid_fresh by fastforce

lemma new_rowid_map [simp]: "x \<in> set xs \<Longrightarrow> f x \<noteq> new_rowid (map f xs)" "x \<in> set xs \<Longrightarrow> new_rowid (map f xs) \<noteq> f x"
  using new_rowid_notin [of "map f xs"] by (metis imageI list.set_map)+

text \<open>What is left after a cascade still refers to rows that are left.\<close>

lemma cascade_ref:
  assumes "\<forall>l \<in> set ls. f l \<in> k ` set rs" "l \<in> set ls" "f l \<notin> k ` {x \<in> set rs. P x}"
  shows "f l \<in> k ` {x \<in> set rs. \<not> P x}"
proof -
  from assms(1,2) have "f l \<in> k ` set rs" by blast
  with assms(3) show ?thesis by blast
qed

lemma empty_database_wf: "db_wf empty_database"
  by (simp add: db_wf_defs empty_database_def)

lemma delete_torrents_wf: "db_wf db \<Longrightarrow> db_wf (delete_torrents P db)"
  by (auto simp: db_wf_defs delete_torrents_def distinct_map_filter Let_def intro: cascade_ref)

lemma delete_tags_wf: "db_wf db \<Longrightarrow> db_wf (delete_tags P db)"
  by (auto simp: db_wf_defs delete_tags_def distinct_map_filter Let_def intro: cascade_ref)

lemma delete_peers_wf: "db_wf db \<Longrightarrow> db_wf (delete_peers P db)"
  by (auto simp: db_wf_defs delete_peers_def distinct_map_filter Let_def intro: cascade_ref)

lemma delete_torrents_sel [simp]:
  "db_torrents (delete_torrents P db) = filter (\<lambda>r. \<not> P r) (db_torrents db)"
  "db_tags (delete_torrents P db) = db_tags db" "db_peers (delete_torrents P db) = db_peers db"
  by (simp_all add: delete_torrents_def Let_def)

lemma delete_tags_sel [simp]:
  "db_tags (delete_tags P db) = filter (\<lambda>r. \<not> P r) (db_tags db)"
  "db_torrents (delete_tags P db) = db_torrents db" "db_files (delete_tags P db) = db_files db"
  "db_peers (delete_tags P db) = db_peers db" "db_peers_torrents (delete_tags P db) = db_peers_torrents db"
  by (simp_all add: delete_tags_def Let_def)

lemma insert_torrent_wf:
  assumes "db_wf db" "tr_id r \<notin> tr_id ` set (db_torrents db)" "tr_infohash r \<notin> tr_infohash ` set (db_torrents db)"
  shows "db_wf (db\<lparr>db_torrents := db_torrents db @ [r], db_last_rowid := i\<rparr>)"
  using assms by (auto simp: db_wf_defs)

lemma insert_tag_wf:
  assumes "db_wf db" "tg_id r \<notin> tg_id ` set (db_tags db)" "tg_name r \<notin> tg_name ` set (db_tags db)"
  shows "db_wf (db\<lparr>db_tags := db_tags db @ [r], db_last_rowid := i\<rparr>)"
  using assms by (auto simp: db_wf_defs)

lemma sql_insertTorrent_wf: "db_wf db \<Longrightarrow> db_wf (sql_insertTorrent now name ih sz db)"
  unfolding sql_insertTorrent_def Let_def
  by (intro insert_torrent_wf delete_torrents_wf) auto

lemma sql_insertTag_wf: "db_wf db \<Longrightarrow> db_wf (sql_insertTag name db)"
  unfolding sql_insertTag_def Let_def
  by (intro insert_tag_wf delete_tags_wf) auto

lemma sql_insertPeer_wf: "db_wf db \<Longrightarrow> db_wf (sql_insertPeer now addr db)"
  by (auto simp: db_wf_defs sql_insertPeer_def Let_def)

lemma new_link_props:
  "\<not> linked a t ls \<Longrightarrow> distinct (map (\<lambda>l. (lk_from l, lk_torrent_id l)) ls) \<Longrightarrow>
   distinct (map (\<lambda>l. (lk_from l, lk_torrent_id l)) (new_link a t ls))"
  "(\<forall>l \<in> set (new_link a t ls). P (lk_from l) (lk_torrent_id l)) \<longleftrightarrow>
   P a t \<and> (\<forall>l \<in> set ls. P (lk_from l) (lk_torrent_id l))"
  by (auto simp: new_link_def linked_def)

lemma sql_insertTagTorrent_wf: "db_wf db \<Longrightarrow> sql_insertTagTorrent a t db = Ok db' \<Longrightarrow> db_wf db'"
  using new_link_props(2) [of a t "db_tags_torrents db" "\<lambda>x y. x \<in> tg_id ` set (db_tags db)"]
    new_link_props(2) [of a t "db_tags_torrents db" "\<lambda>x y. y \<in> tr_id ` set (db_torrents db)"]
  by (auto simp: db_wf_defs sql_insertTagTorrent_def new_link_props(1) simp flip: set_map split: if_splits)

lemma sql_insertPeerTorrent_wf: "db_wf db \<Longrightarrow> sql_insertPeerTorrent a t db = Ok db' \<Longrightarrow> db_wf db'"
  using new_link_props(2) [of a t "db_peers_torrents db" "\<lambda>x y. x \<in> pr_id ` set (db_peers db)"]
    new_link_props(2) [of a t "db_peers_torrents db" "\<lambda>x y. y \<in> tr_id ` set (db_torrents db)"]
  by (auto simp: db_wf_defs sql_insertPeerTorrent_def new_link_props(1) simp flip: set_map split: if_splits)

lemma sql_insertFile_wf: "db_wf db \<Longrightarrow> sql_insertFile t path sz db = Ok db' \<Longrightarrow> db_wf db'"
  by (auto simp: db_wf_defs sql_insertFile_def Let_def split: if_splits)

lemmas sql_wf = delete_torrents_wf delete_tags_wf delete_peers_wf sql_insertTorrent_wf sql_insertTag_wf
  sql_insertPeer_wf sql_insertTagTorrent_wf sql_insertPeerTorrent_wf sql_insertFile_wf

lemma sql_remove_wf: "db_wf db \<Longrightarrow> db_wf (sql_removeTorrent ih db)" "db_wf db \<Longrightarrow> db_wf (sql_removePeer addr db)"
  by (simp_all add: sql_removeTorrent_def sql_removePeer_def delete_torrents_wf delete_peers_wf)

end
