(* ===== verification/Go_Resolve.thy ===== *)
theory Go_Resolve
  imports Krpc
begin

text \<open>
  \<^verbatim>\<open>net.ResolveUDPAddr\<close> of Go 1.13. A text with a literal address and a decimal port is resolved
  without asking anybody, which is modelled in full; the record \<open>resolver\<close> stands for the two
  questions to the operating system, the addresses of a host name and the port of a service name.
\<close>

section \<open>Ports\<close>

record resolver =
  res_hosts :: "string \<Rightarrow> (byte list \<times> string) list outcome"
  res_services :: "string \<Rightarrow> string \<Rightarrow> int outcome"

text \<open>
  The loop of \<^verbatim>\<open>parsePort\<close> on a \<^verbatim>\<open>uint32\<close> accumulator, whose product wraps around; \<^const>\<open>None\<close> asks
  for a service lookup.
\<close>

fun parsePort_loop :: "nat \<Rightarrow> string \<Rightarrow> nat option" where
  "parsePort_loop n [] = Some n"
| "parsePort_loop n (c # cs) =
     (case digit_val c of
        None \<Rightarrow> None
      | Some d \<Rightarrow>
          if 2 ^ 30 \<le> n then Some (2 ^ 32 - 1)
          else (let m = n * 10 mod 2 ^ 32; nn = (m + d) mod 2 ^ 32
                in if nn < m then Some (2 ^ 32 - 1) else parsePort_loop nn cs))"

definition parsePort :: "string \<Rightarrow> int option" where
  "parsePort service =
     (if service = [] then Some 0
      else
        (let neg = (hd service = CHR ''-'');
             digits = (if hd service = CHR ''+'' \<or> neg then tl service else service)
         in map_option (\<lambda>n.
              let port = (if \<not> neg \<and> 2 ^ 30 \<le> n then 2 ^ 30 - 1
                          else if neg \<and> 2 ^ 30 < n then 2 ^ 30 else int n)
              in if neg then - port else port) (parsePort_loop 0 digits)))"

definition LookupPort :: "resolver \<Rightarrow> string \<Rightarrow> string \<Rightarrow> nat outcome" where
  "LookupPort res network service =
     and_then (case parsePort service of Some p \<Rightarrow> Ok p | None \<Rightarrow> res_services res network service)
       (\<lambda>p. if p < 0 \<or> 65535 < p then Err (External ''invalid port'') else Ok (nat p))"

section \<open>Hosts\<close>

text \<open>\<^verbatim>\<open>parseIPZone\<close>: an IPv6 literal may end in a zone.\<close>

definition parseIPZone :: "string \<Rightarrow> (byte list \<times> string) option" where
  "parseIPZone s =
     (case dropWhile (\<lambda>c. c \<noteq> CHR ''.'' \<and> c \<noteq> CHR '':'') s of
        [] \<Rightarrow> None
      | c # _ \<Rightarrow>
          if c = CHR ''.'' then map_option (\<lambda>ip. (ip, [])) (parseIPv4 s)
          else
            (let (host, zone) = (case last_index CHR ''%'' s of
                Some i \<Rightarrow> if 0 < i then (take i s, drop (Suc i) s) else (s, [])
              | None \<Rightarrow> (s, []))
             in map_option (\<lambda>ip. (ip, zone)) (parseIPv6 host)))"

definition lookupIPAddr :: "resolver \<Rightarrow> string \<Rightarrow> (byte list \<times> string) list outcome" where
  "lookupIPAddr res host =
     (case parseIPZone host of Some ipz \<Rightarrow> Ok [ipz] | None \<Rightarrow> res_hosts res host)"

definition is_ipv4 :: "byte list \<Rightarrow> bool" where
  "is_ipv4 ip \<longleftrightarrow> IP_To4 ip \<noteq> None"

definition is_ipv6 :: "byte list \<Rightarrow> bool" where
  "is_ipv6 ip \<longleftrightarrow> length ip = 16 \<and> IP_To4 ip = None"

definition IPv4zero :: "byte list" where
  "IPv4zero = v4_in_v6_prefix @ [0, 0, 0, 0]"

text \<open>The filter by network and the choice of \<^verbatim>\<open>forResolve\<close>.\<close>

definition suitable :: "string \<Rightarrow> byte list \<Rightarrow> bool" where
  "suitable network ip =
     (if network \<noteq> [] \<and> last network = CHR ''4'' then is_ipv4 ip
      else if network \<noteq> [] \<and> last network = CHR ''6'' then is_ipv6 ip
      else True)"

definition first_or_head :: "('a \<Rightarrow> bool) \<Rightarrow> 'a list \<Rightarrow> 'a" where
  "first_or_head P xs = (case filter P xs of [] \<Rightarrow> hd xs | x # _ \<Rightarrow> x)"

definition forResolve :: "string \<Rightarrow> string \<Rightarrow> (byte list \<times> string) list \<Rightarrow> byte list \<times> string" where
  "forResolve network addr ips =
     (if network = ''udp'' \<and> CHR ''['' \<in> set addr
      then first_or_head (\<lambda>(ip, _). \<not> is_ipv4 ip) ips
      else first_or_head (\<lambda>(ip, _). is_ipv4 ip) ips)"

definition ResolveUDPAddr :: "resolver \<Rightarrow> string \<Rightarrow> string \<Rightarrow> UDPAddr outcome" where
  "ResolveUDPAddr res network0 address =
     (let network = (if network0 = [] then ''udp'' else network0) in
      if network \<notin> {''udp'', ''udp4'', ''udp6''} then Err (External ''unknown network'')
      else
        and_then (if address = [] then Ok ([], 0)
                  else and_then (SplitHostPort address) (\<lambda>(host, port).
                       and_then (LookupPort res network port) (\<lambda>portnum. Ok (host, portnum))))
          (\<lambda>(host, portnum).
             if host = [] then Ok \<lparr>addr_IP = [], addr_Port = portnum, addr_Zone = []\<rparr>
             else
               and_then (lookupIPAddr res host) (\<lambda>ips0.
                 let ips1 = (if length ips0 = 1 \<and> fst (hd ips0) = replicate 16 0
                             then ips0 @ [(IPv4zero, [])] else ips0);
                     ips = filter (\<lambda>(ip, _). suitable network ip) ips1
                 in if ips = [] then Err (External ''no suitable address found'')
                    else (let (ip, zone) = forResolve network address ips
                          in Ok \<lparr>addr_IP = ip, addr_Port = portnum, addr_Zone = zone\<rparr>))))"

section \<open>Literal addresses\<close>

lemma digit_char_val: "digit_val c = Some d \<Longrightarrow> d < 10"
  by (auto simp: digit_val_def Let_def split: if_splits)

lemma parsePort_loop_dec:
  "\<forall>c \<in> set ds. \<exists>d < 10. c = digit_char d \<Longrightarrow> dec_value n ds < 2 ^ 30 \<Longrightarrow>
   parsePort_loop n ds = Some (dec_value n ds)"
proof (induction ds arbitrary: n)
  case Nil
  then show ?case by (simp add: dec_value_def)
next
  case (Cons c cs)
  then obtain d where d: "d < 10" "c = digit_char d" by auto
  then have v: "dec_value n (c # cs) = dec_value (10 * n + d) cs" by (simp add: dec_value_def)
  with Cons.prems(2) dec_value_ge [of "10 * n + d" cs] have "10 * n + d < 2 ^ 30" by simp
  with Cons d v show ?case by (simp add: Let_def mult.commute)
qed

lemma parsePort_dec_str:
  assumes "n < 2 ^ 30"
  shows "parsePort (dec_str n) = Some (int n)"
proof -
  obtain c cs where c: "dec_str n = c # cs" by (cases "dec_str n") simp_all
  then have "c \<in> set (dec_str n)" by simp
  then have sign: "c \<noteq> CHR ''-''" "c \<noteq> CHR ''+''"
    using dec_str_code [of "CHR ''-''" n] dec_str_code [of "CHR ''+''" n] by auto
  have "parsePort_loop 0 (dec_str n) = Some n"
    using assms parsePort_loop_dec [of "dec_str n" 0] by (simp add: dec_str_digits dec_value_dec_str)
  with sign assms show ?thesis by (simp add: parsePort_def c)
qed

lemma parseIPZone_dotted: "length p = 4 \<Longrightarrow> parseIPZone (dotted p) = Some (v4_in_v6_prefix @ p, [])"
proof -
  assume len: "length p = 4"
  have "\<forall>c \<in> set (dec_str (unat (p ! 0))). c \<noteq> CHR ''.'' \<and> c \<noteq> CHR '':''"
    using dec_str_chars by metis
  then have "dropWhile (\<lambda>c. c \<noteq> CHR ''.'' \<and> c \<noteq> CHR '':'') (dotted p) =
      ''.'' @ dec_str (unat (p ! 1)) @ ''.'' @ dec_str (unat (p ! 2)) @ ''.'' @ dec_str (unat (p ! 3))"
    by (simp add: dotted_def dropWhile_append2)
  with parseIPv4_dotted [OF len] show ?thesis by (simp add: parseIPZone_def)
qed

lemma dotted_not_Nil [simp]: "dotted p \<noteq> []"
  by (simp add: dotted_def)

lemma ResolveUDPAddr_dotted_on:
  assumes "length p = 4" "port < 65536" "net = ''udp'' \<or> net = ''udp4''"
  shows "ResolveUDPAddr res net (dotted p @ '':'' @ dec_str port) =
    Ok \<lparr>addr_IP = v4_in_v6_prefix @ p, addr_Port = port, addr_Zone = []\<rparr>"
proof -
  have "SplitHostPort (dotted p @ '':'' @ dec_str port) = Ok (dotted p, dec_str port)"
    by (intro SplitHostPort_plain) (simp_all add: dotted_chars dec_str_chars)
  moreover have "LookupPort res net (dec_str port) = Ok port"
    using assms by (simp add: LookupPort_def parsePort_dec_str)
  moreover have "v4_in_v6_prefix @ p \<noteq> replicate 16 0"
  proof
    assume "v4_in_v6_prefix @ p = replicate 16 0"
    then have "(v4_in_v6_prefix @ p) ! 10 = (replicate 16 0 :: byte list) ! 10" by (rule arg_cong)
    then show False by (simp add: v4_in_v6_prefix_def nth_append)
  qed
  ultimately show ?thesis
    using assms
    by (auto simp: ResolveUDPAddr_def lookupIPAddr_def parseIPZone_dotted suitable_def is_ipv4_def
        IP_To4_mapped forResolve_def first_or_head_def Let_def)
qed

lemma ResolveUDPAddr_dotted:
  "length p = 4 \<Longrightarrow> port < 65536 \<Longrightarrow> ResolveUDPAddr res ''udp4'' (dotted p @ '':'' @ dec_str port) =
    Ok \<lparr>addr_IP = v4_in_v6_prefix @ p, addr_Port = port, addr_Zone = []\<rparr>"
  by (rule ResolveUDPAddr_dotted_on) simp_all

text \<open>What every resolved address has: a 16-bit port.\<close>

lemma LookupPort_bound: "LookupPort res network service = Ok p \<Longrightarrow> p \<le> 65535"
  by (auto simp: LookupPort_def and_then_Ok_iff split: if_splits)

lemma ResolveUDPAddr_port: "ResolveUDPAddr res network addr = Ok a \<Longrightarrow> addr_Port a \<le> 65535"
  by (auto simp: ResolveUDPAddr_def Let_def and_then_Ok_iff dest!: LookupPort_bound
      split: if_splits prod.splits)

lemma SplitHostPort_two_colons:
  assumes "CHR '':'' \<in> set host" "hd host \<noteq> CHR ''[''" "CHR '':'' \<notin> set port"
  shows "SplitHostPort (host @ '':'' @ port) = Err AddrTooManyColons"
proof -
  have "host \<noteq> []" using assms(1) by auto
  then have "(host @ CHR '':'' # port) ! 0 \<noteq> CHR ''[''" using assms(2) by (simp add: nth_append hd_conv_nth)
  moreover have "last_index CHR '':'' (host @ CHR '':'' # port) = Some (length host)"
    using assms(3) by (rule last_index_append)
  ultimately show ?thesis using assms(1) by (simp add: SplitHostPort_def)
qed

section \<open>The text of an IPv6 address has a colon\<close>

lemma print_groups_colon: "1 < length gs \<Longrightarrow> CHR '':'' \<in> set (print_groups gs run 0)"
proof -
  assume len: "1 < length gs"
  have "CHR '':'' \<in> set (print_groups gs run 1)"
    using len by (subst print_groups.simps) (auto split: option.splits)
  then show ?thesis
    using len by (subst print_groups.simps) (auto split: option.splits)
qed

lemma length_groups16: "length (groups16 bs) = length bs div 2"
  by (induction bs rule: groups16.induct) auto

lemma IP_String_ipv6:
  assumes "is_ipv6 ip"
  shows "CHR '':'' \<in> set (IP_String ip)"
proof -
  have "length (groups16 ip) = 8" using assms by (simp add: length_groups16 is_ipv6_def)
  moreover obtain e0 e1 where "zero_run (groups16 ip) 0 0 0 = (e0, e1)" by fastforce
  ultimately show ?thesis
    using assms print_groups_colon [of "groups16 ip"]
    by (auto simp: is_ipv6_def IP_String_def ip6_string_def)
qed

lemma IP_String_ipv4: "IP_To4 ip = Some p4 \<Longrightarrow> IP_String ip = dotted p4 \<and> length p4 = 4"
  by (auto simp: IP_String_def IP_To4_def split: if_splits)

text \<open>An IPv4 address survives being printed and resolved, in its 16-byte form.\<close>

lemma ResolveUDPAddr_String:
  assumes "IP_To4 (addr_IP a) = Some p4" "addr_Port a < 65536" "addr_Zone a = []"
  shows "ResolveUDPAddr res ''udp'' (UDPAddr_String a) =
    Ok \<lparr>addr_IP = v4_in_v6_prefix @ p4, addr_Port = addr_Port a, addr_Zone = []\<rparr>"
proof -
  have "addr_IP a \<noteq> []" using assms(1) by (auto simp: IP_To4_def)
  with IP_String_ipv4 [OF assms(1)] assms(3) have "UDPAddr_String a = dotted p4 @ '':'' @ dec_str (addr_Port a)"
    by (auto simp: UDPAddr_String_def JoinHostPort_def dotted_chars no_brackets_def)
  with IP_String_ipv4 [OF assms(1)] assms(2) ResolveUDPAddr_dotted_on [of p4 "addr_Port a" "''udp''" res]
  show ?thesis by simp
qed

end
