(* ===== verification/Store.thy ===== *)
theory Store
  imports Sql_Tables Go_Resolve
begin

text \<open>
  The store of \<^verbatim>\<open>db/sqlite.go\<close> on the tables of \<open>Sql_Tables\<close>. Every method holds the store's lock, so a
  call is one step on the database; the calls of the running daemon never overlap, so one connection
  serves them and the last inserted row number is that connection's. \<open>se_fault\<close> says which calls of the
  database fail, and with which error, for reasons outside the statements (input and output, a busy
  or closed database); a deferred \<^verbatim>\<open>Rollback\<close> restores the tables, not the last row number.
\<close>

section \<open>Calling the database\<close>

record sql_env =
  se_fault :: "database \<Rightarrow> string \<Rightarrow> go_error option"
  se_now :: string
  se_time :: "string \<Rightarrow> sqlval"
  se_order :: "torrent_row list \<Rightarrow> torrent_row list"
  se_search :: "string \<Rightarrow> int \<Rightarrow> database \<Rightarrow> sql_row list"
  se_resolver :: resolver

type_synonym 'a stored = "database \<times> 'a outcome"

definition store_then ::
    "'s \<times> 'a outcome \<Rightarrow> ('a \<Rightarrow> 's \<Rightarrow> 's \<times> 'b outcome) \<Rightarrow> 's \<times> 'b outcome" where
  "store_then m f =
     (case m of
        (db, Ok x) \<Rightarrow> f x db
      | (db, Err e) \<Rightarrow> (db, Err e)
      | (db, Panic p) \<Rightarrow> (db, Panic p)
      | (db, Hang) \<Rightarrow> (db, Hang))"

text \<open>\<^verbatim>\<open>fmt.Errorf("...: %s", err)\<close> around the error of a call\<close>

fun wrap_err :: "string \<Rightarrow> 'a outcome \<Rightarrow> 'a outcome" where
  "wrap_err msg (Err e) = Err (Wrapped msg (Some e))"
| "wrap_err msg r = r"

definition wrapped :: "string \<Rightarrow> 's \<times> 'a outcome \<Rightarrow> 's \<times> 'a outcome" where
  "wrapped msg m = (fst m, wrap_err msg (snd m))"

text \<open>A query or another call that only reads.\<close>

definition call_sql :: "sql_env \<Rightarrow> database \<Rightarrow> string \<Rightarrow> unit outcome" where
  "call_sql env db name = (case se_fault env db name of Some e \<Rightarrow> Err e | None \<Rightarrow> Ok ())"

definition exec_sql :: "sql_env \<Rightarrow> string \<Rightarrow> (database \<Rightarrow> database outcome) \<Rightarrow> database \<Rightarrow> unit stored" where
  "exec_sql env name stmt db =
     (case and_then (call_sql env db name) (\<lambda>_. stmt db) of
        Ok db' \<Rightarrow> (db', Ok ())
      | Err e \<Rightarrow> (db, Err e)
      | Panic p \<Rightarrow> (db, Panic p)
      | Hang \<Rightarrow> (db, Hang))"

text \<open>\<^verbatim>\<open>Exec\<close> and then \<^verbatim>\<open>LastInsertId\<close>\<close>

definition exec_insert :: "sql_env \<Rightarrow> string \<Rightarrow> (database \<Rightarrow> database outcome) \<Rightarrow> database \<Rightarrow> int stored" where
  "exec_insert env name stmt db =
     store_then (exec_sql env name stmt db) (\<lambda>_ db.
       (db, and_then (call_sql env db ''LastInsertId'') (\<lambda>_. Ok (db_last_rowid db))))"

definition roll_back :: "database \<Rightarrow> database \<Rightarrow> database" where
  "roll_back before after = before\<lparr>db_last_rowid := db_last_rowid after\<rparr>"

text \<open>A transaction with its deferred rollback; \<open>msg\<close> wraps the error of \<^verbatim>\<open>Begin\<close> where the code does.\<close>

definition in_tx :: "sql_env \<Rightarrow> string option \<Rightarrow> (database \<Rightarrow> unit stored) \<Rightarrow> database \<Rightarrow> unit stored" where
  "in_tx env msg body db =
     (case se_fault env db ''Begin'' of
        Some e \<Rightarrow> (db, Err (case msg of None \<Rightarrow> e | Some m \<Rightarrow> Wrapped m (Some e)))
      | None \<Rightarrow>
          (case body db of
             (db', Ok _) \<Rightarrow>
               (case se_fault env db' ''Commit'' of
                  None \<Rightarrow> (db', Ok ())
                | Some e \<Rightarrow> (roll_back db db', Err e))
           | (db', r) \<Rightarrow> (roll_back db db', r)))"

section \<open>Opening\<close>

definition migrate :: "sql_env \<Rightarrow> database \<Rightarrow> unit stored" where
  "migrate env db =
     (case and_then (call_sql env db ''pragma'') (\<lambda>_.
           and_then (call_sql env db ''Begin'') (\<lambda>_.
           and_then (call_sql env db ''user_version'') (\<lambda>_.
             if db_version db = 0
             then and_then (call_sql env db ''sqliteSchema'') (\<lambda>_. Ok (db\<lparr>db_version := 1\<rparr>))
             else Ok db))) of
        Ok db' \<Rightarrow> (if se_fault env db' ''Commit'' = None then db' else db, Ok ())
      | Err e \<Rightarrow> (db, Err e)
      | Panic p \<Rightarrow> (db, Panic p)
      | Hang \<Rightarrow> (db, Hang))"

definition statement_names :: "string list" where
  "statement_names =
     [''removeTorrent'', ''selectPendingInfohashes'', ''selectFiles'', ''insertPeer'', ''insertPeerTorrent'',
      ''insertTorrent'', ''getTorrent'', ''insertFile'', ''selectTags'', ''removePeer'', ''insertTagTorrent'',
      ''insertTag'', ''torrentsByTag'', ''searchTorrents'']"

fun prepareStatements :: "sql_env \<Rightarrow> database \<Rightarrow> string list \<Rightarrow> unit outcome" where
  "prepareStatements env db [] = Ok ()"
| "prepareStatements env db (name # names) =
     and_then (call_sql env db (''prepare '' @ name)) (\<lambda>_. prepareStatements env db names)"

definition NewStore :: "sql_env \<Rightarrow> database outcome \<Rightarrow> database outcome" where
  "NewStore env opened =
     and_then (wrap_err ''failed to open store'' opened) (\<lambda>db.
       (case migrate env db of
          (db', r) \<Rightarrow> and_then r (\<lambda>_. and_then (prepareStatements env db' statement_names) (\<lambda>_. Ok db'))))"

section \<open>Writing\<close>

fun save_tags :: "sql_env \<Rightarrow> int \<Rightarrow> string list \<Rightarrow> database \<Rightarrow> unit stored" where
  "save_tags env torrentID [] db = (db, Ok ())"
| "save_tags env torrentID (tag # tags) db =
     store_then (wrapped ''saveTag'' (exec_insert env ''insertTag'' (\<lambda>db. Ok (sql_insertTag tag db)) db)) (\<lambda>tagID db.
     store_then (wrapped ''insertTagTorrent'' (exec_sql env ''insertTagTorrent'' (sql_insertTagTorrent tagID torrentID) db))
       (\<lambda>_. save_tags env torrentID tags))"

fun save_files :: "sql_env \<Rightarrow> int \<Rightarrow> File list \<Rightarrow> database \<Rightarrow> unit stored" where
  "save_files env torrentID [] db = (db, Ok ())"
| "save_files env torrentID (f # fs) db =
     store_then (wrapped ''insertFile'' (exec_sql env ''insertFile'' (sql_insertFile torrentID (f_Path f) (f_Size f)) db))
       (\<lambda>_. save_files env torrentID fs)"

definition SaveTorrent :: "sql_env \<Rightarrow> Torrent \<Rightarrow> database \<Rightarrow> unit stored" where
  "SaveTorrent env t =
     in_tx env (Some ''saveTorrent'') (\<lambda>db.
       store_then (wrapped ''insertTorrent'' (exec_insert env ''insertTorrent''
         (\<lambda>db. Ok (sql_insertTorrent (se_now env) (Some (t_Name t)) (Infohash_Bytes (t_Infohash t)) (t_Size t) db)) db))
         (\<lambda>torrentID db.
       store_then (save_tags env torrentID (t_Tags t) db) (\<lambda>_. save_files env torrentID (t_Files t))))"

text \<open>\<^verbatim>\<open>RemoveTorrent\<close> wraps whatever it gets, nil too.\<close>

definition RemoveTorrent :: "sql_env \<Rightarrow> Torrent \<Rightarrow> database \<Rightarrow> unit stored" where
  "RemoveTorrent env t db =
     (case exec_sql env ''removeTorrent'' (\<lambda>db. Ok (sql_removeTorrent (t_Infohash t) db)) db of
        (db', Ok _) \<Rightarrow> (db', Err (Wrapped ''removeTorrent'' None))
      | (db', r) \<Rightarrow> (db', wrap_err ''removeTorrent'' r))"

definition SavePeer :: "sql_env \<Rightarrow> Peer \<Rightarrow> database \<Rightarrow> unit stored" where
  "SavePeer env p =
     in_tx env None (\<lambda>db. wrapped ''savePeer''
       (store_then (exec_insert env ''insertPeer'' (\<lambda>db. Ok (sql_insertPeer (se_now env) (UDPAddr_String (p_Addr p)) db)) db)
         (\<lambda>peerID db.
        store_then (exec_insert env ''insertTorrent'' (\<lambda>db. Ok (sql_insertTorrent (se_now env) None (p_Infohash p) 0 db)) db)
         (\<lambda>torrentID. exec_sql env ''insertPeerTorrent'' (sql_insertPeerTorrent peerID torrentID)))))"

definition RemovePeer :: "sql_env \<Rightarrow> Peer \<Rightarrow> database \<Rightarrow> unit stored" where
  "RemovePeer env p = exec_sql env ''removePeer'' (\<lambda>db. Ok (sql_removePeer (UDPAddr_String (p_Addr p)) db))"

definition SaveTag :: "sql_env \<Rightarrow> string \<Rightarrow> database \<Rightarrow> int stored" where
  "SaveTag env tag db = wrapped ''saveTag'' (exec_insert env ''insertTag'' (\<lambda>db. Ok (sql_insertTag tag db)) db)"

section \<open>Reading\<close>

text \<open>\<^verbatim>\<open>rows.Scan\<close>: the conversions of \<^verbatim>\<open>database/sql\<close> for the values the columns can have.\<close>

fun scan_int :: "sqlval \<Rightarrow> int outcome" where
  "scan_int (SInt i) = Ok i"
| "scan_int _ = Err ScanConversion"

fun scan_string :: "sqlval \<Rightarrow> string outcome" where
  "scan_string (SText s) = Ok s"
| "scan_string _ = Err ScanConversion"

fun scan_bytes :: "sqlval \<Rightarrow> byte list outcome" where
  "scan_bytes (SBlob b) = Ok b"
| "scan_bytes _ = Err ScanConversion"

fun scan_time :: "sqlval \<Rightarrow> gotime outcome" where
  "scan_time (STime t) = Ok t"
| "scan_time _ = Err ScanConversion"

definition scan_torrent :: "sql_row \<Rightarrow> Torrent outcome" where
  "scan_torrent row =
     (case row of
        [i, ih, name, sz, created, updated] \<Rightarrow>
          and_then (scan_int i) (\<lambda>i.
          and_then (scan_bytes ih) (\<lambda>ih.
          and_then (scan_string name) (\<lambda>name.
          and_then (scan_int sz) (\<lambda>sz.
          and_then (scan_time created) (\<lambda>created.
          and_then (scan_time updated) (\<lambda>updated.
            Ok \<lparr>t_ID = i, t_Infohash = ih, t_Name = name, t_Files = [], t_Size = sz,
                t_Updated = updated, t_Created = created, t_Tags = []\<rparr>))))))
      | _ \<Rightarrow> Err (ScanArity (length row) 6))"

text \<open>The file rows are scanned into a variable that is then dropped.\<close>

fun scan_files :: "sql_row list \<Rightarrow> unit outcome" where
  "scan_files [] = Ok ()"
| "scan_files (row # rows) =
     (case row of
        [i, tid, path, sz] \<Rightarrow>
          and_then (wrap_err ''failed to build file''
            (and_then (scan_int i) (\<lambda>_. and_then (scan_int tid) (\<lambda>_. and_then (scan_string path) (\<lambda>_. scan_int sz)))))
            (\<lambda>_. scan_files rows)
      | _ \<Rightarrow> Err (Wrapped ''failed to build file'' (Some (ScanArity (length row) 4))))"

fun scan_tags :: "sql_row list \<Rightarrow> string list outcome" where
  "scan_tags [] = Ok []"
| "scan_tags (row # rows) =
     (case row of
        [name] \<Rightarrow>
          and_then (wrap_err ''failed to build tag'' (scan_string name)) (\<lambda>tg.
          and_then (scan_tags rows) (\<lambda>tgs. Ok (tg # tgs)))
      | _ \<Rightarrow> Err (Wrapped ''failed to build tag'' (Some (ScanArity (length row) 1))))"

text \<open>
  A failed inner query leaves a nil \<^verbatim>\<open>*sql.Rows\<close>, whose \<^verbatim>\<open>Close\<close> is deferred before the error is looked
  at: the deferred call dereferences it.
\<close>

definition inner_query :: "sql_env \<Rightarrow> database \<Rightarrow> string \<Rightarrow> sql_row list \<Rightarrow> sql_row list outcome" where
  "inner_query env db name rows = (if se_fault env db name = None then Ok rows else Panic NilDereference)"

fun fetchTorrents :: "sql_env \<Rightarrow> database \<Rightarrow> sql_row list \<Rightarrow> Torrent list outcome" where
  "fetchTorrents env db [] = Ok []"
| "fetchTorrents env db (row # rows) =
     and_then (scan_torrent row) (\<lambda>t.
     and_then (and_then (inner_query env db ''selectFiles'' (sql_selectFiles (t_ID t) db)) scan_files) (\<lambda>_.
     and_then (and_then (inner_query env db ''selectTags'' (sql_selectTags (t_ID t) db)) scan_tags) (\<lambda>tgs.
     and_then (fetchTorrents env db rows) (\<lambda>ts. Ok (t\<lparr>t_Tags := tgs\<rparr> # ts)))))"

definition TorrentByHash :: "sql_env \<Rightarrow> infohash \<Rightarrow> database \<Rightarrow> Torrent outcome" where
  "TorrentByHash env ih db =
     and_then (call_sql env db ''getTorrent'') (\<lambda>_.
     and_then (fetchTorrents env db (sql_getTorrent (se_time env) ih db)) (\<lambda>torrents.
       index_go torrents 0))"

definition TorrentsByName :: "sql_env \<Rightarrow> string \<Rightarrow> int \<Rightarrow> database \<Rightarrow> Torrent list outcome" where
  "TorrentsByName env query off db =
     and_then (call_sql env db ''searchTorrents'') (\<lambda>_.
       fetchTorrents env db (se_search env (''%'' @ query @ ''%'') off db))"

definition TorrentsByTag :: "sql_env \<Rightarrow> string \<Rightarrow> int \<Rightarrow> database \<Rightarrow> Torrent list outcome" where
  "TorrentsByTag env tag off db =
     and_then (call_sql env db ''torrentsByTag'') (\<lambda>_.
       fetchTorrents env db (sql_torrentsByTag (se_time env) tag off db))"

fun pending_loop :: "resolver \<Rightarrow> sql_row list \<Rightarrow> Peer list outcome" where
  "pending_loop res [] = Ok []"
| "pending_loop res (row # rows) =
     (case row of
        [addr, ih] \<Rightarrow>
          and_then (scan_string addr) (\<lambda>addr.
          and_then (scan_bytes ih) (\<lambda>ih.
          and_then (ResolveUDPAddr res ''udp'' addr) (\<lambda>a.
          and_then (pending_loop res rows) (\<lambda>ps. Ok (mkPeer a ih # ps)))))
      | _ \<Rightarrow> Err (ScanArity (length row) 2))"

definition PendingInfohashes :: "sql_env \<Rightarrow> int \<Rightarrow> database \<Rightarrow> Peer list outcome" where
  "PendingInfohashes env n db =
     and_then (call_sql env db ''selectPendingInfohashes'') (\<lambda>_.
       pending_loop (se_resolver env) (sql_selectPendingInfohashes (se_order env) n db))"

section \<open>What a successful call has done\<close>

lemma store_then_Ok:
  "store_then m f = (db', Ok y) \<longleftrightarrow> (\<exists>db1 x. m = (db1, Ok x) \<and> f x db1 = (db', Ok y))"
  by (auto simp: store_then_def split: prod.splits outcome.splits)

lemma wrapped_Ok: "wrapped msg m = (db', Ok y) \<longleftrightarrow> m = (db', Ok y)"
  by (cases m; cases "snd m") (auto simp: wrapped_def)

lemma call_sql_Ok: "call_sql env db name = Ok x \<longleftrightarrow> se_fault env db name = None"
  by (simp add: call_sql_def split: option.splits)

lemma exec_sql_Ok:
  "exec_sql env name stmt db = (db', Ok x) \<longleftrightarrow> se_fault env db name = None \<and> stmt db = Ok db'"
  by (auto simp: exec_sql_def call_sql_def split: option.splits outcome.splits)

lemma exec_insert_Ok:
  "exec_insert env name stmt db = (db', Ok i) \<longleftrightarrow>
     se_fault env db name = None \<and> stmt db = Ok db' \<and> se_fault env db' ''LastInsertId'' = None \<and>
     i = db_last_rowid db'"
  by (auto simp: exec_insert_def store_then_Ok exec_sql_Ok and_then_Ok_iff call_sql_Ok)

lemma in_tx_Ok:
  "in_tx env msg body db = (db', Ok x) \<longleftrightarrow>
     se_fault env db ''Begin'' = None \<and> body db = (db', Ok ()) \<and> se_fault env db' ''Commit'' = None"
  by (auto simp: in_tx_def split: option.splits prod.splits outcome.splits)

lemmas stored_Ok = store_then_Ok wrapped_Ok exec_sql_Ok exec_insert_Ok in_tx_Ok

section \<open>Integrity\<close>

lemma db_wf_last_rowid [simp]: "db_wf (db\<lparr>db_last_rowid := i\<rparr>) = db_wf db"
  by (simp add: db_wf_defs)

lemma db_wf_version [simp]: "db_wf (db\<lparr>db_version := i\<rparr>) = db_wf db"
  by (simp add: db_wf_defs)

lemma roll_back_wf: "db_wf before \<Longrightarrow> db_wf (roll_back before after)"
  by (simp add: roll_back_def)

lemma fst_wrapped [simp]: "fst (wrapped msg m) = fst m"
  by (simp add: wrapped_def)

lemma store_then_wf:
  "db_wf (fst m) \<Longrightarrow> (\<And>x db. db_wf db \<Longrightarrow> db_wf (fst (f x db))) \<Longrightarrow> db_wf (fst (store_then m f))"
  by (auto simp: store_then_def split: prod.splits outcome.splits)

lemma exec_sql_wf:
  "db_wf db \<Longrightarrow> (\<And>db'. stmt db = Ok db' \<Longrightarrow> db_wf db') \<Longrightarrow> db_wf (fst (exec_sql env name stmt db))"
  by (auto simp: exec_sql_def and_then_Ok_iff split: outcome.splits)

lemma exec_insert_wf:
  "db_wf db \<Longrightarrow> (\<And>db'. stmt db = Ok db' \<Longrightarrow> db_wf db') \<Longrightarrow> db_wf (fst (exec_insert env name stmt db))"
  by (auto simp: exec_insert_def intro!: store_then_wf exec_sql_wf)

lemma in_tx_wf: "db_wf db \<Longrightarrow> db_wf (fst (body db)) \<Longrightarrow> db_wf (fst (in_tx env msg body db))"
  by (auto simp: in_tx_def roll_back_wf split: option.splits prod.splits outcome.splits)

lemmas stored_wf = in_tx_wf store_then_wf exec_sql_wf exec_insert_wf sql_remove_wf sql_insertTorrent_wf
  sql_insertTag_wf sql_insertPeer_wf

lemma save_tags_wf: "db_wf db \<Longrightarrow> db_wf (fst (save_tags env i tags db))"
  by (induction env i tags db rule: save_tags.induct)
    (auto intro!: store_then_wf exec_sql_wf exec_insert_wf sql_insertTag_wf dest: sql_insertTagTorrent_wf)

lemma save_files_wf: "db_wf db \<Longrightarrow> db_wf (fst (save_files env i fs db))"
  by (induction env i fs db rule: save_files.induct)
    (auto intro!: store_then_wf exec_sql_wf dest: sql_insertFile_wf)

lemma SaveTorrent_wf: "db_wf db \<Longrightarrow> db_wf (fst (SaveTorrent env t db))"
  unfolding SaveTorrent_def
  by (auto intro!: in_tx_wf store_then_wf exec_insert_wf sql_insertTorrent_wf save_tags_wf save_files_wf)

lemma SavePeer_wf: "db_wf db \<Longrightarrow> db_wf (fst (SavePeer env p db))"
  unfolding SavePeer_def
  by (auto intro!: in_tx_wf store_then_wf exec_insert_wf exec_sql_wf sql_insertTorrent_wf sql_insertPeer_wf
      dest: sql_insertPeerTorrent_wf)

lemma RemoveTorrent_fst:
  "fst (RemoveTorrent env t db) = fst (exec_sql env ''removeTorrent'' (\<lambda>db. Ok (sql_removeTorrent (t_Infohash t) db)) db)"
  by (simp add: RemoveTorrent_def split: prod.splits outcome.splits)

lemma RemoveTorrent_wf: "db_wf db \<Longrightarrow> db_wf (fst (RemoveTorrent env t db))"
  unfolding RemoveTorrent_fst by (auto intro!: exec_sql_wf sql_remove_wf)

lemma RemovePeer_wf: "db_wf db \<Longrightarrow> db_wf (fst (RemovePeer env p db))"
  unfolding RemovePeer_def by (auto intro!: exec_sql_wf sql_remove_wf)

lemma SaveTag_wf: "db_wf db \<Longrightarrow> db_wf (fst (SaveTag env tag db))"
  unfolding SaveTag_def by (auto intro!: exec_insert_wf sql_insertTag_wf)

lemma migrate_wf: "db_wf db \<Longrightarrow> db_wf (fst (migrate env db))"
  by (auto simp: migrate_def and_then_Ok_iff split: outcome.splits if_splits)

lemma NewStore_wf: "NewStore env (Ok db) = Ok db' \<Longrightarrow> db_wf db \<Longrightarrow> db_wf db'"
  using migrate_wf [of db env] by (auto simp: NewStore_def and_then_Ok_iff split: prod.splits)

text \<open>A use of the store: any of its writing methods, under any faults.\<close>

inductive store_step :: "database \<Rightarrow> database \<Rightarrow> bool" where
  save_torrent: "SaveTorrent env t db = (db', r) \<Longrightarrow> store_step db db'"
| remove_torrent: "RemoveTorrent env t db = (db', r) \<Longrightarrow> store_step db db'"
| save_peer: "SavePeer env p db = (db', r) \<Longrightarrow> store_step db db'"
| remove_peer: "RemovePeer env p db = (db', r) \<Longrightarrow> store_step db db'"
| save_tag: "SaveTag env tag db = (db', n) \<Longrightarrow> store_step db db'"
| reopen: "NewStore env (Ok db) = Ok db' \<Longrightarrow> store_step db db'"

lemma store_step_wf: "store_step db db' \<Longrightarrow> db_wf db \<Longrightarrow> db_wf db'"
  by (induction rule: store_step.induct)
    (metis fst_conv SaveTorrent_wf RemoveTorrent_wf SavePeer_wf RemovePeer_wf SaveTag_wf NewStore_wf)+

section \<open>The index the tables stand for\<close>

text \<open>
  The abstract content of the store: for every infohash the name (none while it is pending), the
  size, the files and the set of tags.
\<close>

type_synonym index_entry = "string option \<times> int \<times> (string \<times> int) list \<times> string set"

definition files_of :: "database \<Rightarrow> int \<Rightarrow> (string \<times> int) list" where
  "files_of db i = map (\<lambda>f. (fr_path f, fr_size f)) (filter (\<lambda>f. fr_torrent_id f = i) (db_files db))"

definition tags_of :: "database \<Rightarrow> int \<Rightarrow> string set" where
  "tags_of db i = tg_name ` {t \<in> set (db_tags db). linked (tg_id t) i (db_tags_torrents db)}"

definition stored_index :: "database \<Rightarrow> infohash \<Rightarrow> index_entry option" where
  "stored_index db ih =
     map_option (\<lambda>r. (tr_name r, tr_size r, files_of db (tr_id r), tags_of db (tr_id r)))
       (find (\<lambda>r. tr_infohash r = ih) (db_torrents db))"

text \<open>The abstract operations.\<close>

definition index_save :: "Torrent \<Rightarrow> (infohash \<Rightarrow> index_entry option) \<Rightarrow> infohash \<Rightarrow> index_entry option" where
  "index_save t ix ih =
     (if ih = t_Infohash t
      then Some (Some (t_Name t), t_Size t, map (\<lambda>f. (f_Path f, f_Size f)) (t_Files t), set (t_Tags t))
      else map_option (\<lambda>(n, s, fs, tgs). (n, s, fs, tgs - set (t_Tags t))) (ix ih))"

lemma find_None: "find P xs = None \<longleftrightarrow> (\<forall>x \<in> set xs. \<not> P x)"
  by (auto simp: find_None_iff)

lemma find_append: "find P (xs @ ys) = (case find P xs of None \<Rightarrow> find P ys | Some x \<Rightarrow> Some x)"
  by (induction xs) simp_all

lemma find_filter_other: "(\<And>x. P x \<Longrightarrow> Q x) \<Longrightarrow> find P (filter Q xs) = find P xs"
  by (induction xs) auto

lemma find_id: "distinct (map f xs) \<Longrightarrow> x \<in> set xs \<Longrightarrow> find (\<lambda>y. f y = f x) xs = Some x"
  by (induction xs) (auto simp: image_iff)

lemma linked_filter: "linked a t (filter P ls) \<longleftrightarrow> (\<exists>l \<in> set ls. P l \<and> lk_from l = a \<and> lk_torrent_id l = t)"
  by (auto simp: linked_def)

text \<open>Deleting torrents leaves the tags and files of the others alone.\<close>

lemma delete_torrents_other:
  assumes "db_wf db" "r \<in> set (db_torrents db)" "\<not> P r"
  shows "files_of (delete_torrents P db) (tr_id r) = files_of db (tr_id r)"
    and "tags_of (delete_torrents P db) (tr_id r) = tags_of db (tr_id r)"
proof -
  have inj: "inj_on tr_id (set (db_torrents db))" using assms(1) by (simp add: db_wf_defs distinct_map)
  then have keep: "tr_id x \<noteq> tr_id r" if "x \<in> set (db_torrents db)" "P x" for x
    using assms(2,3) that by (auto dest: inj_onD)
  show "files_of (delete_torrents P db) (tr_id r) = files_of db (tr_id r)"
    using keep by (auto simp: files_of_def delete_torrents_def Let_def intro!: filter_cong arg_cong [of _ _ "map _"])
  show "tags_of (delete_torrents P db) (tr_id r) = tags_of db (tr_id r)"
    using keep by (fastforce simp: tags_of_def delete_torrents_def Let_def linked_def)
qed

lemma files_of_none: "refs_exist db \<Longrightarrow> i \<notin> tr_id ` set (db_torrents db) \<Longrightarrow> files_of db i = []"
  by (auto simp: files_of_def refs_exist_def filter_empty_conv)

lemma tags_of_none: "refs_exist db \<Longrightarrow> i \<notin> tr_id ` set (db_torrents db) \<Longrightarrow> tags_of db i = {}"
  by (fastforce simp: tags_of_def refs_exist_def linked_def)

lemma find_unique:
  "distinct (map f xs) \<Longrightarrow> find (\<lambda>x. f x = k) xs = Some r \<longleftrightarrow> r \<in> set xs \<and> f r = k"
  by (induction xs) (auto simp: image_iff)

lemma stored_index_cong:
  assumes "db_torrents db' = db_torrents db"
    and "\<And>r. r \<in> set (db_torrents db) \<Longrightarrow> files_of db' (tr_id r) = files_of db (tr_id r)"
    and "\<And>r. r \<in> set (db_torrents db) \<Longrightarrow> tags_of db' (tr_id r) = tags_of db (tr_id r)"
  shows "stored_index db' = stored_index db"
proof
  fix ih
  show "stored_index db' ih = stored_index db ih"
    using assms by (auto simp: stored_index_def find_Some_iff intro!: map_option_cong)
qed

lemma files_of_update [simp]:
  "files_of (db\<lparr>db_torrents := ts\<rparr>) = files_of db" "files_of (db\<lparr>db_last_rowid := i\<rparr>) = files_of db"
  "tags_of (db\<lparr>db_torrents := ts\<rparr>) = tags_of db" "tags_of (db\<lparr>db_last_rowid := i\<rparr>) = tags_of db"
  by (auto simp: files_of_def tags_of_def)

text \<open>Deleting the torrents of one infohash, and inserting one in its place.\<close>

lemma stored_index_delete:
  assumes "db_wf db"
  shows "stored_index (delete_torrents (\<lambda>r. tr_infohash r = ih) db) = (stored_index db)(ih := None)"
proof
  fix ih'
  show "stored_index (delete_torrents (\<lambda>r. tr_infohash r = ih) db) ih' = ((stored_index db)(ih := None)) ih'"
  proof (cases "ih' = ih")
    case True
    then show ?thesis by (simp add: stored_index_def find_None)
  next
    case False
    then have "find (\<lambda>r. tr_infohash r = ih') (filter (\<lambda>r. tr_infohash r \<noteq> ih) (db_torrents db)) =
        find (\<lambda>r. tr_infohash r = ih') (db_torrents db)" by (intro find_filter_other) auto
    moreover have "r \<in> set (db_torrents db) \<and> tr_infohash r \<noteq> ih"
      if "find (\<lambda>r. tr_infohash r = ih') (db_torrents db) = Some r" for r
      using that False assms by (auto simp: db_wf_defs find_unique)
    ultimately show ?thesis
      using False delete_torrents_other [OF assms, of _ "\<lambda>r. tr_infohash r = ih"]
      by (cases "find (\<lambda>r. tr_infohash r = ih') (db_torrents db)") (simp_all add: stored_index_def)
  qed
qed

lemma stored_index_insert:
  assumes "db_wf db"
  shows "stored_index (sql_insertTorrent now name ih sz db) = (stored_index db)(ih \<mapsto> (name, sz, [], {}))"
proof
  fix ih'
  let ?d = "delete_torrents (\<lambda>r. tr_infohash r = ih) db"
  let ?i = "new_rowid (map tr_id (db_torrents db))"
  have wf: "refs_exist ?d" using delete_torrents_wf [OF assms] by (simp add: db_wf_def)
  have "?i \<notin> tr_id ` set (db_torrents ?d)" by auto
  with wf have new: "files_of ?d ?i = []" "tags_of ?d ?i = {}" by (simp_all add: files_of_none tags_of_none)
  have "stored_index ?d ih' = ((stored_index db)(ih := None)) ih'" by (simp add: stored_index_delete assms)
  with new show "stored_index (sql_insertTorrent now name ih sz db) ih' = ((stored_index db)(ih \<mapsto> (name, sz, [], {}))) ih'"
    by (auto simp: stored_index_def sql_insertTorrent_def Let_def find_append split: option.splits if_splits)
qed

text \<open>Replacing a tag takes it away from every torrent that had it; its new row is linked to none.\<close>

lemma sql_insertTag_tags_of:
  assumes "db_wf db"
  shows "tags_of (sql_insertTag tag db) j = tags_of db j - {tag}"
proof -
  let ?i = "new_rowid (map tg_id (db_tags db))"
  have fresh: "\<not> linked ?i j (db_tags_torrents db)"
    using assms by (fastforce simp: db_wf_defs linked_def)
  have inj: "inj_on tg_id (set (db_tags db))" using assms by (simp add: db_wf_defs distinct_map)
  have "tg_id x \<noteq> tg_id y" if "x \<in> set (db_tags db)" "y \<in> set (db_tags db)" "tg_name x \<noteq> tg_name y" for x y
    using inj that by (auto dest: inj_onD)
  then have "linked (tg_id x) j (db_tags_torrents (delete_tags (\<lambda>r. tg_name r = tag) db)) \<longleftrightarrow>
      linked (tg_id x) j (db_tags_torrents db)" if "x \<in> set (db_tags db)" "tg_name x \<noteq> tag" for x
    using that by (auto simp: delete_tags_def Let_def linked_filter linked_def)
  moreover have "\<not> linked ?i j (db_tags_torrents (delete_tags (\<lambda>r. tg_name r = tag) db))"
    using fresh by (auto simp: delete_tags_def Let_def linked_def)
  ultimately have "{x \<in> set (db_tags (sql_insertTag tag db)). linked (tg_id x) j (db_tags_torrents (sql_insertTag tag db))} =
      {x \<in> set (db_tags db). tg_name x \<noteq> tag \<and> linked (tg_id x) j (db_tags_torrents db)}"
    by (auto simp: sql_insertTag_def Let_def)
  then show ?thesis by (auto simp: tags_of_def)
qed

lemma sql_insertTag_sel [simp]:
  "db_torrents (sql_insertTag tag db) = db_torrents db" "db_files (sql_insertTag tag db) = db_files db"
  "db_last_rowid (sql_insertTag tag db) = new_rowid (map tg_id (db_tags db))"
  by (simp_all add: sql_insertTag_def Let_def)

lemma linked_new_link: "linked a t (new_link b u ls) \<longleftrightarrow> (a = b \<and> t = u) \<or> linked a t ls"
  by (auto simp: new_link_def linked_def)

lemma sql_insertTagTorrent_tags_of:
  assumes "sql_insertTagTorrent a i db = Ok db'" "find (\<lambda>t. tg_id t = a) (db_tags db) = Some t"
    "distinct (map tg_id (db_tags db))"
  shows "tags_of db' j = tags_of db j \<union> (if j = i then {tg_name t} else {})"
    and "db_torrents db' = db_torrents db" and "db_files db' = db_files db"
proof -
  have uniq: "x \<in> set (db_tags db) \<and> tg_id x = a \<longleftrightarrow> x = t" for x
    using assms(2,3) by (auto simp: find_unique distinct_map dest: inj_onD)
  have links: "linked b u (db_tags_torrents db') \<longleftrightarrow> (b = a \<and> u = i) \<or> linked b u (db_tags_torrents db)" for b u
    using assms(1) by (auto simp: sql_insertTagTorrent_def linked_new_link split: if_splits)
  have keep: "db_tags db' = db_tags db" "db_torrents db' = db_torrents db" "db_files db' = db_files db"
    using assms(1) by (auto simp: sql_insertTagTorrent_def split: if_splits)
  then show "db_torrents db' = db_torrents db" "db_files db' = db_files db" by simp_all
  have "{x \<in> set (db_tags db'). linked (tg_id x) j (db_tags_torrents db')} =
      {x \<in> set (db_tags db). linked (tg_id x) j (db_tags_torrents db)} \<union> (if j = i then {t} else {})"
    using uniq by (auto simp: keep links)
  then show "tags_of db' j = tags_of db j \<union> (if j = i then {tg_name t} else {})"
    by (simp add: tags_of_def image_Un)
qed

lemma find_new_tag:
  assumes "db_wf db"
  shows "\<exists>t. find (\<lambda>t. tg_id t = new_rowid (map tg_id (db_tags db))) (db_tags (sql_insertTag tag db)) = Some t \<and> tg_name t = tag"
  by (auto simp: sql_insertTag_def Let_def find_append find_None split: option.splits)
    (auto simp: find_Some_iff dest!: nth_mem)

lemma save_tags_index:
  "save_tags env i tags db = (db', Ok ()) \<Longrightarrow> db_wf db \<Longrightarrow>
   db_wf db' \<and> db_torrents db' = db_torrents db \<and> db_files db' = db_files db \<and>
   (\<forall>j. tags_of db' j = tags_of db j - set tags \<union> (if j = i then set tags else {}))"
proof (induction env i tags db rule: save_tags.induct)
  case (2 env i tag tags db)
  let ?d = "sql_insertTag tag db"
  from "2.prems"(1) obtain d2 where d2: "sql_insertTagTorrent (db_last_rowid ?d) i ?d = Ok d2"
    and rest: "save_tags env i tags d2 = (db', Ok ())"
    and m: "wrapped ''saveTag'' (exec_insert env ''insertTag'' (\<lambda>db. Ok (sql_insertTag tag db)) db) = (?d, Ok (db_last_rowid ?d))"
    by (auto simp: stored_Ok)
  have wfd: "db_wf ?d" using "2.prems"(2) by (rule sql_insertTag_wf)
  then have wf2: "db_wf d2" using d2 by (rule sql_insertTagTorrent_wf)
  from find_new_tag [OF "2.prems"(2)] obtain t where
    "find (\<lambda>t. tg_id t = db_last_rowid ?d) (db_tags ?d) = Some t" "tg_name t = tag" by auto
  note link = sql_insertTagTorrent_tags_of [OF d2 this(1)]
  have IH: "db_wf db' \<and> db_torrents db' = db_torrents d2 \<and> db_files db' = db_files d2 \<and>
      (\<forall>j. tags_of db' j = tags_of d2 j - set tags \<union> (if j = i then set tags else {}))"
    using "2.IH" [OF rest wf2] .
  show ?case
    using IH link wfd \<open>tg_name t = tag\<close> sql_insertTag_tags_of [OF "2.prems"(2), of tag]
    by (auto simp: db_wf_defs)
qed simp

lemma save_files_index:
  "save_files env i fs db = (db', Ok ()) \<Longrightarrow>
   db_torrents db' = db_torrents db \<and> tags_of db' = tags_of db \<and>
   (\<forall>j. files_of db' j = files_of db j @ (if j = i then map (\<lambda>f. (f_Path f, f_Size f)) fs else []))"
proof (induction env i fs db rule: save_files.induct)
  case (2 env i f fs db)
  from "2.prems" obtain d where d: "sql_insertFile i (f_Path f) (f_Size f) db = Ok d"
    and rest: "save_files env i fs d = (db', Ok ())"
    by (auto simp: stored_Ok)
  from d have "db_torrents d = db_torrents db" "tags_of d = tags_of db"
    "\<forall>j. files_of d j = files_of db j @ (if j = i then [(f_Path f, f_Size f)] else [])"
    by (auto simp: sql_insertFile_def Let_def files_of_def tags_of_def fun_eq_iff split: if_splits)
  with "2.IH" [OF rest] show ?case by auto
qed simp

text \<open>The row a successful \<^verbatim>\<open>insertTorrent\<close> has made is the only one with its number, and with its infohash.\<close>

lemma sql_insertTorrent_row:
  assumes "db_wf db" "r \<in> set (db_torrents (sql_insertTorrent now name ih sz db))"
  shows "tr_id r = db_last_rowid (sql_insertTorrent now name ih sz db) \<longleftrightarrow> tr_infohash r = ih"
  using assms by (auto simp: sql_insertTorrent_def Let_def)

text \<open>What the tables hold after \<^verbatim>\<open>SaveTorrent\<close>, relative to the insertion of its row.\<close>

lemma SaveTorrent_tables:
  assumes wf: "db_wf db" and ok: "SaveTorrent env t db = (db', Ok ())"
    and d: "d = sql_insertTorrent (se_now env) (Some (t_Name t)) (t_Infohash t) (t_Size t) db"
  shows "db_torrents db' = db_torrents d"
    and "tags_of db' j = tags_of d j - set (t_Tags t) \<union> (if j = db_last_rowid d then set (t_Tags t) else {})"
    and "files_of db' j = files_of d j @ (if j = db_last_rowid d then map (\<lambda>f. (f_Path f, f_Size f)) (t_Files t) else [])"
proof -
  from ok obtain d2 where "save_tags env (db_last_rowid d) (t_Tags t) d = (d2, Ok ())"
    "save_files env (db_last_rowid d) (t_Files t) d2 = (db', Ok ())"
    by (auto simp: SaveTorrent_def stored_Ok Infohash_Bytes_def d)
  moreover have "db_wf d" using wf by (simp add: d sql_insertTorrent_wf)
  ultimately show "db_torrents db' = db_torrents d"
    "tags_of db' j = tags_of d j - set (t_Tags t) \<union> (if j = db_last_rowid d then set (t_Tags t) else {})"
    "files_of db' j = files_of d j @ (if j = db_last_rowid d then map (\<lambda>f. (f_Path f, f_Size f)) (t_Files t) else [])"
    using save_tags_index save_files_index by (fastforce simp: files_of_def)+
qed

lemma SaveTorrent_index:
  assumes wf: "db_wf db" and ok: "SaveTorrent env t db = (db', Ok ())"
  shows "stored_index db' = index_save t (stored_index db)"
proof
  fix ih
  let ?d = "sql_insertTorrent (se_now env) (Some (t_Name t)) (t_Infohash t) (t_Size t) db"
  let ?i = "db_last_rowid ?d"
  note rows = SaveTorrent_tables(1) [OF wf ok refl] and tags = SaveTorrent_tables(2) [OF wf ok refl]
    and files = SaveTorrent_tables(3) [OF wf ok refl]
  let ?found = "find (\<lambda>r. tr_infohash r = ih) (db_torrents ?d)"
  have index: "map_option (\<lambda>r. (tr_name r, tr_size r, files_of ?d (tr_id r), tags_of ?d (tr_id r))) ?found =
      ((stored_index db)(t_Infohash t \<mapsto> (Some (t_Name t), t_Size t, [], {}))) ih"
    using stored_index_insert [OF wf, of "se_now env" "Some (t_Name t)" "t_Infohash t" "t_Size t"]
    by (simp add: stored_index_def fun_eq_iff)
  show "stored_index db' ih = index_save t (stored_index db) ih"
  proof (cases ?found)
    case None
    with index have "stored_index db ih = None" "ih \<noteq> t_Infohash t" by (auto split: if_splits)
    with None show ?thesis by (simp add: stored_index_def [of db'] rows index_save_def)
  next
    case (Some r)
    have "distinct (map tr_infohash (db_torrents ?d))" using sql_insertTorrent_wf [OF wf] by (simp add: db_wf_defs)
    with Some have "r \<in> set (db_torrents ?d)" "tr_infohash r = ih" by (simp_all add: find_unique)
    with sql_insertTorrent_row [OF wf] have "tr_id r = ?i \<longleftrightarrow> ih = t_Infohash t" by auto
    with Some index [symmetric] show ?thesis
      by (auto simp: stored_index_def [of db'] rows tags files index_save_def split: if_splits)
  qed
qed

section \<open>Saved peers\<close>

lemma index_keeps:
  "sql_insertPeerTorrent a i db = Ok db' \<Longrightarrow> stored_index db' = stored_index db"
  "stored_index (sql_insertPeer now addr db) = stored_index db"
  by (auto simp: sql_insertPeerTorrent_def sql_insertPeer_def Let_def stored_index_def files_of_def tags_of_def fun_eq_iff
      split: if_splits)

lemma SavePeer_index:
  assumes wf: "db_wf db" and ok: "SavePeer env p db = (db', Ok ())"
  shows "stored_index db' = (stored_index db)(p_Infohash p \<mapsto> (None, 0, [], {}))"
proof -
  let ?a = "sql_insertPeer (se_now env) (UDPAddr_String (p_Addr p)) db"
  from ok obtain i j where "sql_insertPeerTorrent i j (sql_insertTorrent (se_now env) None (p_Infohash p) 0 ?a) = Ok db'"
    by (auto simp: SavePeer_def stored_Ok)
  with sql_insertPeer_wf [OF wf] show ?thesis
    by (simp add: index_keeps stored_index_insert del: fun_upd_apply)
qed

lemma in_tx_Err:
  "in_tx env msg body db = (db', r) \<Longrightarrow> r \<noteq> Ok () \<Longrightarrow> db' = db\<lparr>db_last_rowid := db_last_rowid db'\<rparr>"
  by (auto simp: in_tx_def roll_back_def split: option.splits prod.splits outcome.splits)

end
