(* ===== verification/Store_Properties.thy ===== *)
theory Store_Properties
  imports Store "HOL-Library.Multiset"
begin

text \<open>
  Properties of the store: integrity under every sequence of calls and faults, atomicity, what saving a
  torrent and a peer does to the index the tables stand for, and what the queries give back.
\<close>

section \<open>Calls that succeed\<close>

definition no_faults :: "sql_env \<Rightarrow> bool" where
  "no_faults env \<longleftrightarrow> se_fault env = (\<lambda>_ _. None)"

lemma no_faults_exec:
  assumes "no_faults env"
  shows "call_sql env db name = Ok ()"
    and "stmt db = Ok db' \<Longrightarrow> exec_sql env name stmt db = (db', Ok ())"
    and "stmt db = Ok db' \<Longrightarrow> exec_insert env name stmt db = (db', Ok (db_last_rowid db'))"
    and "body db = (db', Ok ()) \<Longrightarrow> in_tx env msg body db = (db', Ok ())"
    and "body db = (db', Err e) \<Longrightarrow> in_tx env msg body db = (roll_back db db', Err e)"
  using assms by (simp_all add: no_faults_def call_sql_def exec_sql_def exec_insert_def store_then_def in_tx_def)

lemma store_then_simps [simp]:
  "store_then (db, Ok x) f = f x db" "store_then (db, Err e) f = (db, Err e)"
  "wrapped msg (db, Ok x) = (db, Ok x)" "wrapped msg (db, Err e) = (db, Err (Wrapped msg (Some e)))"
  by (simp_all add: store_then_def wrapped_def)

lemma insertTag_then_link:
  assumes "db_wf db" "i \<in> tr_id ` set (db_torrents db)"
  shows "\<exists>db'. sql_insertTagTorrent (db_last_rowid (sql_insertTag tag db)) i (sql_insertTag tag db) = Ok db'"
  using assms by (auto simp: sql_insertTagTorrent_def) (auto simp: sql_insertTag_def Let_def)

lemma save_tags_succeeds:
  assumes "no_faults env"
  shows "db_wf db \<Longrightarrow> i \<in> tr_id ` set (db_torrents db) \<Longrightarrow> \<exists>db'. save_tags env i tags db = (db', Ok ())"
proof (induction tags arbitrary: db)
  case (Cons tag tags)
  let ?d = "sql_insertTag tag db"
  from insertTag_then_link [OF Cons.prems] obtain d2 where
    d2: "sql_insertTagTorrent (db_last_rowid ?d) i ?d = Ok d2" by blast
  have "db_wf d2" using sql_insertTagTorrent_wf [OF sql_insertTag_wf [OF Cons.prems(1)] d2] .
  moreover have "db_torrents d2 = db_torrents db"
    using d2 by (auto simp: sql_insertTagTorrent_def split: if_splits)
  ultimately have "\<exists>db'. save_tags env i tags d2 = (db', Ok ())" using Cons by simp
  with d2 show ?case by (simp add: no_faults_exec(2,3) [OF assms])
qed simp

lemma save_files_succeeds:
  assumes "no_faults env"
  shows "i \<in> tr_id ` set (db_torrents db) \<Longrightarrow> \<exists>db'. save_files env i fs db = (db', Ok ())"
proof (induction fs arbitrary: db)
  case (Cons f fs)
  let ?d = "db\<lparr>db_files := db_files db @ [\<lparr>fr_id = new_rowid (map fr_id (db_files db)), fr_torrent_id = i,
      fr_path = f_Path f, fr_size = f_Size f\<rparr>], db_last_rowid := new_rowid (map fr_id (db_files db))\<rparr>"
  have "sql_insertFile i (f_Path f) (f_Size f) db = Ok ?d"
    using Cons.prems by (simp add: sql_insertFile_def Let_def)
  moreover have "\<exists>db'. save_files env i fs ?d = (db', Ok ())" using Cons by simp
  ultimately show ?case by (simp add: no_faults_exec(2) [OF assms])
qed simp

lemma sql_insertTorrent_id:
  "db_last_rowid (sql_insertTorrent now name ih sz db) \<in> tr_id ` set (db_torrents (sql_insertTorrent now name ih sz db))"
  by (simp add: sql_insertTorrent_def Let_def)

lemma SaveTorrent_succeeds:
  assumes "no_faults env" "db_wf db"
  shows "\<exists>db'. SaveTorrent env t db = (db', Ok ())"
proof -
  let ?d = "sql_insertTorrent (se_now env) (Some (t_Name t)) (Infohash_Bytes (t_Infohash t)) (t_Size t) db"
  from save_tags_succeeds [OF assms(1) sql_insertTorrent_wf [OF assms(2)] sql_insertTorrent_id] obtain d2 where
    d2: "save_tags env (db_last_rowid ?d) (t_Tags t) ?d = (d2, Ok ())" by blast
  have "db_torrents d2 = db_torrents ?d" using save_tags_index [OF d2 sql_insertTorrent_wf [OF assms(2)]] by blast
  with save_files_succeeds [OF assms(1)] sql_insertTorrent_id obtain d3 where
    "save_files env (db_last_rowid ?d) (t_Files t) d2 = (d3, Ok ())" by metis
  with d2 show ?thesis unfolding SaveTorrent_def
    by (intro exI [of _ d3] no_faults_exec(4) [OF assms(1)]) (simp add: no_faults_exec(3) [OF assms(1)])
qed

section \<open>Properties\<close>


text \<open>C16: saving is all or nothing: when \<^verbatim>\<open>SaveTorrent\<close> or \<^verbatim>\<open>SavePeer\<close> fails, whichever of its calls did, no
  table has changed, only the connection's last row number may have; when \<^verbatim>\<open>SaveTorrent\<close> succeeds the
  index has changed by its abstract operation. A successful \<^verbatim>\<open>SavePeer\<close> leaves the announced infohash
  pending, without name, size, files and tags, even if the torrent was stored with them before.\<close>

theorem saving_is_atomic:
  assumes "db_wf db"
  shows "(case SaveTorrent env t db of
      (db', Ok _) \<Rightarrow> stored_index db' = index_save t (stored_index db)
    | (db', _) \<Rightarrow> db' = db\<lparr>db_last_rowid := db_last_rowid db'\<rparr>) \<and>
    (case SavePeer env p db of
      (db', Ok _) \<Rightarrow> stored_index db' = (stored_index db)(p_Infohash p \<mapsto> (None, 0, [], {}))
    | (db', _) \<Rightarrow> db' = db\<lparr>db_last_rowid := db_last_rowid db'\<rparr>)"
proof (intro conjI)
  show "case SaveTorrent env t db of
      (db', Ok _) \<Rightarrow> stored_index db' = index_save t (stored_index db)
    | (db', _) \<Rightarrow> db' = db\<lparr>db_last_rowid := db_last_rowid db'\<rparr>"
    using SaveTorrent_index [OF assms, of env t] in_tx_Err
    by (auto simp: SaveTorrent_def split: prod.splits outcome.splits)
  show "case SavePeer env p db of
      (db', Ok _) \<Rightarrow> stored_index db' = (stored_index db)(p_Infohash p \<mapsto> (None, 0, [], {}))
    | (db', _) \<Rightarrow> db' = db\<lparr>db_last_rowid := db_last_rowid db'\<rparr>"
    using SavePeer_index [OF assms, of env p] in_tx_Err
    by (auto simp: SavePeer_def split: prod.splits outcome.splits)
qed

text \<open>C4: \<^verbatim>\<open>SaveTorrent\<close> implements its abstract operation: on a database that does not fail it succeeds,
  and the index then has the torrent with its name, size, files and tags, every other entry as it
  was except that it has lost the tags of the saved torrent: replacing a tag deletes the links of
  all other torrents to it.\<close>

theorem SaveTorrent_refines:
  assumes "no_faults env" "db_wf db"
  shows "\<exists>db'. SaveTorrent env t db = (db', Ok ()) \<and> db_wf db' \<and> stored_index db' = index_save t (stored_index db)"
  using SaveTorrent_succeeds [OF assms, of t] SaveTorrent_wf [OF assms(2), of env t] SaveTorrent_index [OF assms(2)]
  by fastforce

lemma filter_key: "distinct (map f xs) \<Longrightarrow> x \<in> set xs \<Longrightarrow> filter (\<lambda>y. f y = f x) xs = [x]"
proof (induction xs)
  case (Cons a xs)
  then show ?case
  proof (cases "a = x")
    case True
    with Cons.prems have "filter (\<lambda>y. f y = f x) xs = []" by (auto simp: filter_empty_conv image_iff)
    with True show ?thesis by simp
  qed auto
qed simp

section \<open>Peers and pending infohashes\<close>

lemma sql_insertTorrent_sel [simp]:
  "db_peers (sql_insertTorrent now name ih sz db) = db_peers db"
  "db_last_rowid (sql_insertTorrent now name ih sz db) = new_rowid (map tr_id (db_torrents db))"
  by (simp_all add: sql_insertTorrent_def Let_def)

lemma new_torrent_unlinked:
  assumes "db_wf db"
  shows "\<not> linked a (new_rowid (map tr_id (db_torrents db))) (db_peers_torrents (sql_insertTorrent now name ih sz db))"
  using assms by (fastforce simp: linked_def sql_insertTorrent_def delete_torrents_def Let_def db_wf_defs)

text \<open>Linking peer \<open>a\<close> to the torrent just inserted, the rest of \<^verbatim>\<open>SavePeer\<close> after \<^verbatim>\<open>insertPeer\<close>.\<close>

definition link_new :: "sql_env \<Rightarrow> infohash \<Rightarrow> int \<Rightarrow> database \<Rightarrow> database outcome" where
  "link_new env ih a db =
     (let d = sql_insertTorrent (se_now env) None ih 0 db in sql_insertPeerTorrent a (db_last_rowid d) d)"

lemma link_new_cases:
  assumes "db_wf db"
  shows "link_new env ih a db =
    (if a \<in> pr_id ` set (db_peers db)
     then (let d = sql_insertTorrent (se_now env) None ih 0 db in
           Ok (d\<lparr>db_peers_torrents := new_link a (db_last_rowid d) (db_peers_torrents d),
                 db_last_rowid := new_rowid (map lk_rowid (db_peers_torrents d))\<rparr>))
     else Err ForeignKeyViolation)"
proof -
  have "new_rowid (map tr_id (db_torrents db)) \<in> tr_id ` set (db_torrents (sql_insertTorrent (se_now env) None ih 0 db))"
    using sql_insertTorrent_id [of "se_now env" None ih 0 db] by simp
  with new_torrent_unlinked [OF assms] show ?thesis
    by (simp add: link_new_def sql_insertPeerTorrent_def Let_def)
qed

lemma SavePeer_no_faults:
  assumes "no_faults env"
  shows "SavePeer env p db =
    (let d = sql_insertPeer (se_now env) (UDPAddr_String (p_Addr p)) db in
     case link_new env (p_Infohash p) (db_last_rowid d) d of
       Ok db' \<Rightarrow> (db', Ok ())
     | Err e \<Rightarrow> (db\<lparr>db_last_rowid := new_rowid (map tr_id (db_torrents d))\<rparr>, Err (Wrapped ''savePeer'' (Some e)))
     | _ \<Rightarrow> SavePeer env p db)"
proof -
  have f: "se_fault env = (\<lambda>_ _. None)" using assms by (simp add: no_faults_def)
  show ?thesis
    by (simp add: SavePeer_def in_tx_def f exec_insert_def exec_sql_def call_sql_def link_new_def Let_def roll_back_def
        split: outcome.splits)
qed

lemma link_new_pending:
  assumes wf: "db_wf db" and ok: "link_new env ih a db = Ok db'" and q: "q \<in> set (db_peers db)" "pr_id q = a"
  shows "\<exists>r \<in> set (db_torrents db'). tr_infohash r = ih \<and> tr_name r = None \<and> peer_addresses (tr_id r) db' = [pr_address q]"
proof -
  let ?d = "sql_insertTorrent (se_now env) None ih 0 db"
  let ?i = "new_rowid (map tr_id (db_torrents db))"
  let ?r = "\<lparr>tr_id = ?i, tr_infohash = ih, tr_size = 0, tr_name = None, tr_created = se_now env, tr_updated = se_now env\<rparr>"
  from ok link_new_cases [OF wf] have db': "db' = ?d\<lparr>db_peers_torrents := new_link a ?i (db_peers_torrents ?d),
      db_last_rowid := new_rowid (map lk_rowid (db_peers_torrents ?d))\<rparr>"
    by (auto simp: Let_def split: if_splits)
  then have "?r \<in> set (db_torrents db')" by (simp add: sql_insertTorrent_def Let_def)
  moreover have links: "linked (pr_id x) ?i (db_peers_torrents db') \<longleftrightarrow> pr_id x = pr_id q" for x :: peer_row
    using new_torrent_unlinked [OF wf] q by (auto simp: db' linked_new_link)
  moreover have "filter (\<lambda>x. pr_id x = pr_id q) (db_peers db) = [q]"
    using wf q by (intro filter_key) (simp_all add: db_wf_defs)
  moreover have "db_peers db' = db_peers db" by (simp add: db')
  ultimately show ?thesis by (intro bexI [of _ ?r]) (simp_all add: peer_addresses_def)
qed

lemma pending_loop_rows:
  assumes "\<And>r. r \<in> set rs \<Longrightarrow> \<exists>a. ResolveUDPAddr res ''udp'' (f r) = Ok a"
  shows "\<exists>ps. pending_loop res (map (\<lambda>r. [SText (f r), SBlob (g r)]) rs) = Ok ps \<and>
    (\<forall>r \<in> set rs. \<forall>a. ResolveUDPAddr res ''udp'' (f r) = Ok a \<longrightarrow> mkPeer a (g r) \<in> set ps)"
  using assms
proof (induction rs)
  case (Cons r rs)
  from Cons.prems obtain a where a: "ResolveUDPAddr res ''udp'' (f r) = Ok a" by auto
  from Cons obtain ps where "pending_loop res (map (\<lambda>r. [SText (f r), SBlob (g r)]) rs) = Ok ps"
    "\<forall>r \<in> set rs. \<forall>a. ResolveUDPAddr res ''udp'' (f r) = Ok a \<longrightarrow> mkPeer a (g r) \<in> set ps"
    by auto
  with a show ?case by auto
qed simp

lemma max_text_in: "xs \<noteq> [] \<Longrightarrow> max_text xs \<in> set xs"
proof (cases xs)
  case (Cons x ys)
  have "fold max ys x \<in> insert x (set ys)"
  proof (induction ys arbitrary: x)
    case (Cons y ys)
    from Cons [of "max y x"] show ?case by (auto simp: max_def split: if_splits)
  qed simp
  with Cons show ?thesis by simp
qed simp

lemma pending_addresses_known:
  "r \<in> set (pending_rows db) \<Longrightarrow> \<exists>q \<in> set (db_peers db). max_text (peer_addresses (tr_id r) db) = pr_address q"
  using max_text_in [of "peer_addresses (tr_id r) db"] by (auto simp: pending_rows_def peer_addresses_def)

lemma pending_loop_sound:
  "pending_loop res rows = Ok ps \<Longrightarrow> length ps = length rows \<and>
   (\<forall>p \<in> set ps. \<exists>addr. [SText addr, SBlob (p_Infohash p)] \<in> set rows \<and> ResolveUDPAddr res ''udp'' addr = Ok (p_Addr p))"
proof (induction res rows arbitrary: ps rule: pending_loop.induct)
  case (2 res row rows)
  from "2.prems" obtain addr ih a qs where row: "row = [SText addr, SBlob ih]"
    and a: "ResolveUDPAddr res ''udp'' addr = Ok a" and qs: "pending_loop res rows = Ok qs" "ps = mkPeer a ih # qs"
    by (auto simp: and_then_Ok_iff split: list.splits elim!: scan_string.elims scan_bytes.elims)
  from "2.IH" [of "SText addr" "[SBlob ih]" "SBlob ih" "[]" addr ih a qs] row a qs show ?case by fastforce
qed simp

lemma pending_length:
  assumes "\<forall>rs. mset (se_order env rs) = mset rs" "PendingInfohashes env n db = Ok ps"
  shows "length ps \<le> length (db_torrents db)"
proof -
  from assms(2) have "length ps = length (sql_limit n (se_order env (pending_rows db)))"
    by (auto simp: PendingInfohashes_def and_then_Ok_iff sql_selectPendingInfohashes_def dest!: pending_loop_sound)
  also have "\<dots> \<le> length (pending_rows db)"
    using assms(1) by (metis length_take linorder_le_cases min.cobounded1 size_mset sql_limit_def)
  finally show ?thesis by (simp add: pending_rows_def le_trans [OF _ length_filter_le])
qed

lemma pending_listed:
  assumes "mset (se_order env (pending_rows db)) = mset (pending_rows db)" "no_faults env"
    and "n < 0 \<or> length (db_torrents db) \<le> nat n"
    and "\<forall>q \<in> set (db_peers db). \<exists>a. ResolveUDPAddr (se_resolver env) ''udp'' (pr_address q) = Ok a"
    and "r \<in> set (db_torrents db)" "tr_name r = None" "peer_addresses (tr_id r) db = [addr]"
    and "ResolveUDPAddr (se_resolver env) ''udp'' addr = Ok a"
  shows "\<exists>ps. PendingInfohashes env n db = Ok ps \<and> mkPeer a (tr_infohash r) \<in> set ps"
proof -
  let ?rs = "se_order env (pending_rows db)"
  have "length ?rs \<le> length (db_torrents db)"
    using assms(1) by (metis length_filter_le pending_rows_def size_mset)
  then have lim: "sql_limit n ?rs = ?rs" using assms(3) by (auto simp: sql_limit_def)
  have in_rs: "r \<in> set ?rs" using assms(1,5-7) mset_eq_setD [OF assms(1)] by (simp add: pending_rows_def)
  have "\<exists>a. ResolveUDPAddr (se_resolver env) ''udp'' (max_text (peer_addresses (tr_id x) db)) = Ok a" if "x \<in> set ?rs" for x
    using pending_addresses_known [of x db] that mset_eq_setD [OF assms(1)] assms(4) by fastforce
  from pending_loop_rows [where rs = ?rs and g = tr_infohash and f = "\<lambda>r. max_text (peer_addresses (tr_id r) db)", OF this] in_rs assms(7,8) show ?thesis
    by (auto simp: PendingInfohashes_def no_faults_exec(1) [OF assms(2)] sql_selectPendingInfohashes_def lim)
qed

lemma SavePeer_succeeds:
  assumes "no_faults env" "db_wf db" "UDPAddr_String (p_Addr p) \<notin> pr_address ` set (db_peers db)"
  shows "\<exists>db'. SavePeer env p db = (db', Ok ())"
proof -
  let ?d = "sql_insertPeer (se_now env) (UDPAddr_String (p_Addr p)) db"
  have "db_last_rowid ?d \<in> pr_id ` set (db_peers ?d)" using assms(3) by (auto simp: sql_insertPeer_def Let_def)
  with link_new_cases [OF sql_insertPeer_wf [OF assms(2)]] obtain db' where
    "link_new env (p_Infohash p) (db_last_rowid ?d) ?d = Ok db'" by (simp add: Let_def)
  then have "SavePeer env p db = (db', Ok ())" by (subst SavePeer_no_faults [OF assms(1)]) simp
  then show ?thesis ..
qed

lemma SavePeer_new:
  assumes "no_faults env" "db_wf db" "\<forall>rs. mset (se_order env rs) = mset rs"
    and "UDPAddr_String (p_Addr p) \<notin> pr_address ` set (db_peers db)"
    and "IP_To4 (addr_IP (p_Addr p)) = Some p4" "addr_Port (p_Addr p) < 65536" "addr_Zone (p_Addr p) = []"
    and "\<forall>q \<in> set (db_peers db). \<exists>a. ResolveUDPAddr (se_resolver env) ''udp'' (pr_address q) = Ok a"
  shows "\<exists>db'. SavePeer env p db = (db', Ok ()) \<and> db_wf db' \<and> length (db_torrents db') \<le> Suc (length (db_torrents db)) \<and>
    (\<forall>n. n < 0 \<or> length (db_torrents db') \<le> nat n \<longrightarrow> (\<exists>ps. PendingInfohashes env n db' = Ok ps \<and>
       mkPeer \<lparr>addr_IP = v4_in_v6_prefix @ p4, addr_Port = addr_Port (p_Addr p), addr_Zone = []\<rparr> (p_Infohash p) \<in> set ps))"
proof -
  let ?addr = "UDPAddr_String (p_Addr p)"
  let ?d = "sql_insertPeer (se_now env) ?addr db"
  let ?q = "\<lparr>pr_id = db_last_rowid ?d, pr_address = ?addr, pr_created = se_now env, pr_updated = se_now env\<rparr>"
  have peers: "db_peers ?d = db_peers db @ [?q]" using assms(4) by (auto simp: sql_insertPeer_def Let_def)
  have wf: "db_wf ?d" using assms(2) by (rule sql_insertPeer_wf)
  have "db_last_rowid ?d \<in> pr_id ` set (db_peers ?d)" by (simp add: peers)
  with link_new_cases [OF wf] obtain db' where ok: "link_new env (p_Infohash p) (db_last_rowid ?d) ?d = Ok db'"
    by (simp add: Let_def)
  then have save: "SavePeer env p db = (db', Ok ())" by (subst SavePeer_no_faults [OF assms(1)]) simp
  have "db_peers db' = db_peers ?d" using ok by (auto simp: link_new_cases [OF wf] Let_def split: if_splits)
  then have "\<forall>q \<in> set (db_peers db'). \<exists>a. ResolveUDPAddr (se_resolver env) ''udp'' (pr_address q) = Ok a"
    using assms(8) ResolveUDPAddr_String [OF assms(5-7)] by (auto simp: peers)
  moreover have "?q \<in> set (db_peers ?d)" "pr_id ?q = db_last_rowid ?d" by (simp_all add: peers)
  from link_new_pending [OF wf ok this] obtain r where
    "r \<in> set (db_torrents db')" "tr_infohash r = p_Infohash p" "tr_name r = None" "peer_addresses (tr_id r) db' = [?addr]"
    by auto
  ultimately have "\<exists>ps. PendingInfohashes env n db' = Ok ps \<and>
      mkPeer \<lparr>addr_IP = v4_in_v6_prefix @ p4, addr_Port = addr_Port (p_Addr p), addr_Zone = []\<rparr> (p_Infohash p) \<in> set ps"
    if "n < 0 \<or> length (db_torrents db') \<le> nat n" for n
    using pending_listed [OF _ assms(1) that] assms(3) ResolveUDPAddr_String [OF assms(5-7)] by fastforce
  moreover have "length (db_torrents db') \<le> Suc (length (db_torrents db))"
  proof -
    have "db_torrents db' = db_torrents (sql_insertTorrent (se_now env) None (p_Infohash p) 0 ?d)"
      using ok by (auto simp: link_new_cases [OF wf] Let_def split: if_splits)
    moreover have "db_torrents ?d = db_torrents db" by (simp add: sql_insertPeer_def Let_def)
    ultimately show ?thesis by (simp add: sql_insertTorrent_def Let_def)
  qed
  moreover have "db_wf db'" using SavePeer_wf [OF assms(2), of env p] save by simp
  ultimately show ?thesis using save by blast
qed

text \<open>C24: a peer with a new IPv4 address is saved, and its infohash is then pending: a query for enough
  pending infohashes returns the infohash with the peer's address, in 16-byte form, provided the
  addresses of the peers already stored resolve.\<close>

theorem saved_peer_is_pending:
  assumes "no_faults env" "db_wf db" "\<forall>rs. mset (se_order env rs) = mset rs"
    and "UDPAddr_String (p_Addr p) \<notin> pr_address ` set (db_peers db)"
    and "IP_To4 (addr_IP (p_Addr p)) = Some p4" "addr_Port (p_Addr p) < 65536" "addr_Zone (p_Addr p) = []"
    and "\<forall>q \<in> set (db_peers db). \<exists>a. ResolveUDPAddr (se_resolver env) ''udp'' (pr_address q) = Ok a"
  shows "\<exists>db' ps. SavePeer env p db = (db', Ok ()) \<and> PendingInfohashes env (-1) db' = Ok ps \<and>
    mkPeer \<lparr>addr_IP = v4_in_v6_prefix @ p4, addr_Port = addr_Port (p_Addr p), addr_Zone = []\<rparr> (p_Infohash p) \<in> set ps"
  using SavePeer_new [OF assms] by fastforce


section \<open>Queries\<close>

lemma filter_unique_key: "distinct (map f xs) \<Longrightarrow> find (\<lambda>x. f x = k) xs = None \<Longrightarrow> filter (\<lambda>x. f x = k) xs = []"
  by (auto simp: find_None filter_empty_conv)

text \<open>C31: \<^verbatim>\<open>TorrentByHash\<close> never returns a torrent: for an infohash that is stored the seven columns of the
  statement do not fit the six variables of the scan, for any other the result is indexed although
  it is empty.\<close>

theorem TorrentByHash_never_returns:
  "TorrentByHash env ih db =
     (case se_fault env db ''getTorrent'' of
        Some e \<Rightarrow> Err e
      | None \<Rightarrow> if stored_index db ih = None then Panic IndexOutOfRange else Err (ScanArity 7 6))"
proof (cases "filter (\<lambda>r. tr_infohash r = ih) (db_torrents db)")
  case Nil
  then have "stored_index db ih = None" by (auto simp: stored_index_def find_None filter_empty_conv)
  with Nil show ?thesis
    by (simp add: TorrentByHash_def call_sql_def sql_getTorrent_def sql_limit_def index_go_def split: option.splits)
next
  case (Cons r rs)
  then have "r \<in> set (db_torrents db)" "tr_infohash r = ih" by (auto simp: filter_eq_Cons_iff)
  then have "stored_index db ih \<noteq> None" by (auto simp: stored_index_def find_None)
  with Cons show ?thesis
    by (simp add: TorrentByHash_def call_sql_def sql_getTorrent_def sql_limit_def scan_torrent_def split: option.splits)
qed

text \<open>\<^verbatim>\<open>RemoveTorrent\<close> removes the torrent with its files, its links to tags and its links to peers, and
  nothing else, and still returns an error; it never returns nil.\<close>

theorem RemoveTorrent_reports_error:
  assumes "db_wf db"
  shows "snd (RemoveTorrent env t db) \<noteq> Ok () \<and>
    (se_fault env db ''removeTorrent'' = None \<longrightarrow>
      snd (RemoveTorrent env t db) = Err (Wrapped ''removeTorrent'' None) \<and>
      stored_index (fst (RemoveTorrent env t db)) = (stored_index db)(t_Infohash t := None))"
  using stored_index_delete [OF assms, of "t_Infohash t"]
  by (auto simp: RemoveTorrent_def exec_sql_def call_sql_def sql_removeTorrent_def split: option.splits outcome.splits)

lemma scan_files_rows:
  "scan_files (map (\<lambda>f. [SInt (fr_id f), SInt (fr_torrent_id f), SText (fr_path f), SInt (fr_size f)]) fs) = Ok ()"
  for fs :: "file_row list"
  by (induction fs) simp_all

lemma scan_tags_rows: "scan_tags (map (\<lambda>t. [SText (tg_name t)]) ts) = Ok (map tg_name ts)" for ts :: "tag_row list"
  by (induction ts) simp_all

lemma scan_files_Ok: "scan_files (sql_selectFiles i db) = Ok ()"
  by (simp only: sql_selectFiles_def scan_files_rows)

lemma scan_tags_Ok: "\<exists>tgs. scan_tags (sql_selectTags i db) = Ok tgs \<and> set tgs = tags_of db i"
  by (auto simp: sql_selectTags_def tags_of_def scan_tags_rows)

lemma tagged_iff: "tagged tag db r \<longleftrightarrow> tag \<in> tags_of db (tr_id r)"
  by (auto simp: tagged_def tags_of_def)


text \<open>A search by name that finds anything fails: the statement selects five columns, six are scanned.\<close>

theorem TorrentsByName_fails:
  assumes "se_search env (''%'' @ query @ ''%'') off db = row # rows" "length row = 5" "se_fault env db ''searchTorrents'' = None"
  shows "TorrentsByName env query off db = Err (ScanArity 5 6)"
  using assms
  by (auto simp: TorrentsByName_def call_sql_def scan_torrent_def split: list.splits)

text \<open>A failed inner query of \<^verbatim>\<open>fetchTorrents\<close> is not reported as an error: the deferred call on the nil rows panics.\<close>

theorem inner_query_panics:
  assumes "scan_torrent row = Ok t" "se_fault env db ''selectFiles'' \<noteq> None"
  shows "fetchTorrents env db (row # rows) = Panic NilDereference"
  using assms by (auto simp: inner_query_def)

section \<open>Concrete applications\<close>

text \<open>A database that never fails, emits groups in table order and renders dates as times.\<close>

definition sample_sql :: sql_env where
  "sample_sql = \<lparr>se_fault = (\<lambda>_ _. None), se_now = ''2020-01-01'', se_time = (\<lambda>_. STime 7), se_order = (\<lambda>rs. rs),
     se_search = (\<lambda>_ _ _. []), se_resolver = \<lparr>res_hosts = (\<lambda>_. Err ReadError), res_services = (\<lambda>_ _. Err ReadError)\<rparr>\<rparr>"

definition sample_saved :: Torrent where
  "sample_saved = \<lparr>t_ID = 0, t_Infohash = [1], t_Name = ''film'', t_Files = [], t_Size = 9, t_Updated = 0,
     t_Created = 0, t_Tags = [''video'', ''hd'']\<rparr>"

definition sample_announcer :: Peer where
  "sample_announcer = mkPeer \<lparr>addr_IP = [1, 2, 3, 4], addr_Port = 6881, addr_Zone = []\<rparr> [1]"

lemma sample_sql_ok: "no_faults sample_sql" "se_time sample_sql d = STime 7" "\<forall>rs. mset (se_order sample_sql rs) = mset rs"
  by (simp_all add: no_faults_def sample_sql_def)


theorem saving_is_atomic_witness:
  "SavePeer (sample_sql\<lparr>se_fault := (\<lambda>_ _. Some ReadError)\<rparr>) sample_announcer empty_database = (empty_database, Err ReadError) \<and>
   (case SaveTorrent sample_sql sample_saved empty_database of
      (db', Ok _) \<Rightarrow> stored_index db' = index_save sample_saved (stored_index empty_database)
    | (db', _) \<Rightarrow> db' = empty_database\<lparr>db_last_rowid := db_last_rowid db'\<rparr>)"
  using saving_is_atomic [OF empty_database_wf, where env = sample_sql and t = sample_saved and p = sample_announcer]
  by (simp add: SavePeer_def in_tx_def)

theorem SaveTorrent_refines_witness:
  "\<exists>db'. SaveTorrent sample_sql sample_saved empty_database = (db', Ok ()) \<and>
     stored_index db' [1] = Some (Some ''film'', 9, [], {''video'', ''hd''})"
  using SaveTorrent_refines [OF sample_sql_ok(1) empty_database_wf, of sample_saved]
  by (auto simp: index_save_def sample_saved_def)

theorem saved_peer_is_pending_witness:
  "\<exists>db' ps. SavePeer sample_sql sample_announcer empty_database = (db', Ok ()) \<and>
     PendingInfohashes sample_sql (-1) db' = Ok ps \<and>
     mkPeer \<lparr>addr_IP = v4_in_v6_prefix @ [1, 2, 3, 4], addr_Port = 6881, addr_Zone = []\<rparr> [1] \<in> set ps"
proof -
  have "UDPAddr_String (p_Addr sample_announcer) \<notin> pr_address ` set (db_peers empty_database)"
    "IP_To4 (addr_IP (p_Addr sample_announcer)) = Some [1, 2, 3, 4]"
    "addr_Port (p_Addr sample_announcer) < 65536" "addr_Zone (p_Addr sample_announcer) = []"
    "\<forall>q \<in> set (db_peers empty_database). \<exists>a. ResolveUDPAddr (se_resolver sample_sql) ''udp'' (pr_address q) = Ok a"
    by (simp_all add: empty_database_def sample_announcer_def mkPeer_def IP_To4_def)
  from saved_peer_is_pending [OF sample_sql_ok(1) empty_database_wf sample_sql_ok(3) this] show ?thesis
    by (simp add: sample_announcer_def mkPeer_def)
qed

text \<open>The address is stored, and the last row inserted was a link of another table.\<close>

definition sample_known :: database where
  "sample_known = empty_database\<lparr>db_peers := [\<lparr>pr_id = 1, pr_address = UDPAddr_String (p_Addr sample_announcer),
     pr_created = [], pr_updated = []\<rparr>], db_last_rowid := 2\<rparr>"


theorem RemoveTorrent_reports_error_witness:
  "snd (RemoveTorrent sample_sql sample_saved empty_database) = Err (Wrapped ''removeTorrent'' None)"
  using RemoveTorrent_reports_error [OF empty_database_wf, of sample_sql sample_saved]
  by (simp add: sample_sql_def)


section \<open>The store as the crawler uses it\<close>

text \<open>
  What both stores promise about the infohashes they know, whatever they keep with them: saving adds at
  most the infohash saved and loses none, removing takes away at most the one removed.
\<close>

datatype store_call = SaveTorrentCall Torrent | RemoveTorrentCall Torrent | SavePeerCall Peer | RemovePeerCall Peer

fun apply_call ::
    "(Torrent \<Rightarrow> 's \<Rightarrow> 's \<times> unit outcome) \<Rightarrow> (Torrent \<Rightarrow> 's \<Rightarrow> 's \<times> unit outcome) \<Rightarrow>
     (Peer \<Rightarrow> 's \<Rightarrow> 's \<times> unit outcome) \<Rightarrow> (Peer \<Rightarrow> 's \<Rightarrow> 's \<times> unit outcome) \<Rightarrow> store_call \<Rightarrow> 's \<Rightarrow> 's" where
  "apply_call st rt sp rp (SaveTorrentCall t) s = fst (st t s)"
| "apply_call st rt sp rp (RemoveTorrentCall t) s = fst (rt t s)"
| "apply_call st rt sp rp (SavePeerCall p) s = fst (sp p s)"
| "apply_call st rt sp rp (RemovePeerCall p) s = fst (rp p s)"

fun call_adds :: "store_call \<Rightarrow> infohash set" where
  "call_adds (SaveTorrentCall t) = {t_Infohash t}"
| "call_adds (SavePeerCall p) = {p_Infohash p}"
| "call_adds _ = {}"

fun call_removes :: "store_call \<Rightarrow> infohash set" where
  "call_removes (RemoveTorrentCall t) = {t_Infohash t}"
| "call_removes _ = {}"

locale known_infohashes =
  fixes wf :: "'s \<Rightarrow> bool" and known :: "'s \<Rightarrow> infohash set"
    and save_torrent remove_torrent :: "Torrent \<Rightarrow> 's \<Rightarrow> 's \<times> unit outcome"
    and save_peer remove_peer :: "Peer \<Rightarrow> 's \<Rightarrow> 's \<times> unit outcome"
  assumes call_wf: "wf s \<Longrightarrow> wf (apply_call save_torrent remove_torrent save_peer remove_peer c s)"
    and call_known: "wf s \<Longrightarrow>
      known (apply_call save_torrent remove_torrent save_peer remove_peer c s) \<subseteq> known s \<union> call_adds c"
    and call_keeps: "wf s \<Longrightarrow>
      known s - call_removes c \<subseteq> known (apply_call save_torrent remove_torrent save_peer remove_peer c s)"
begin

lemma calls_wf: "wf s \<Longrightarrow> wf (fold (apply_call save_torrent remove_torrent save_peer remove_peer) cs s)"
  by (induction cs arbitrary: s) (simp_all add: call_wf)

lemma calls_known:
  "wf s \<Longrightarrow> known (fold (apply_call save_torrent remove_torrent save_peer remove_peer) cs s) \<subseteq>
     known s \<union> \<Union> (call_adds ` set cs)"
proof (induction cs arbitrary: s)
  case (Cons c cs)
  from Cons.IH [OF call_wf [OF Cons.prems, of c]] call_known [OF Cons.prems, of c] show ?case by auto
qed simp

lemma calls_keep:
  "wf s \<Longrightarrow> known s - \<Union> (call_removes ` set cs) \<subseteq>
     known (fold (apply_call save_torrent remove_torrent save_peer remove_peer) cs s)"
proof (induction cs arbitrary: s)
  case (Cons c cs)
  from Cons.IH [OF call_wf [OF Cons.prems, of c]] call_keeps [OF Cons.prems, of c] show ?case by auto
qed simp

end

text \<open>
  The interfaces \<^verbatim>\<open>TorrentStore\<close> and \<^verbatim>\<open>PeerStore\<close> of \<^verbatim>\<open>models/storage.go\<close>, with the laws a client relies on:
  a call keeps the invariant, and changes the index as its abstract operation does or not at all.
\<close>

locale torrent_store =
  fixes wf :: "'s \<Rightarrow> bool" and index :: "'s \<Rightarrow> infohash \<Rightarrow> index_entry option"
    and save_torrent remove_torrent :: "Torrent \<Rightarrow> 's \<Rightarrow> 's \<times> unit outcome"
    and save_peer remove_peer :: "Peer \<Rightarrow> 's \<Rightarrow> 's \<times> unit outcome"
  assumes save_torrent_wf: "wf s \<Longrightarrow> wf (fst (save_torrent t s))"
    and remove_torrent_wf: "wf s \<Longrightarrow> wf (fst (remove_torrent t s))"
    and save_peer_wf: "wf s \<Longrightarrow> wf (fst (save_peer p s))"
    and remove_peer_wf: "wf s \<Longrightarrow> wf (fst (remove_peer p s))"
    and save_torrent_index: "wf s \<Longrightarrow>
      index (fst (save_torrent t s)) = index_save t (index s) \<or> index (fst (save_torrent t s)) = index s"
    and remove_torrent_index: "wf s \<Longrightarrow>
      index (fst (remove_torrent t s)) = (index s)(t_Infohash t := None) \<or> index (fst (remove_torrent t s)) = index s"
    and save_peer_index: "wf s \<Longrightarrow>
      index (fst (save_peer p s)) = (index s)(p_Infohash p \<mapsto> (None, 0, [], {})) \<or> index (fst (save_peer p s)) = index s"
    and remove_peer_index: "wf s \<Longrightarrow> index (fst (remove_peer p s)) = index s"
begin

text \<open>A property of all entries, kept by every call if it does not depend on tags that get lost.\<close>

definition entries_ok :: "(infohash \<Rightarrow> index_entry \<Rightarrow> bool) \<Rightarrow> 's \<Rightarrow> bool" where
  "entries_ok P s \<longleftrightarrow> wf s \<and> (\<forall>ih e. index s ih = Some e \<longrightarrow> P ih e)"

lemma save_torrent_entries:
  assumes "entries_ok P s" "\<And>ih n z fs tgs tgs'. P ih (n, z, fs, tgs) \<Longrightarrow> tgs' \<subseteq> tgs \<Longrightarrow> P ih (n, z, fs, tgs')"
    and "P (t_Infohash t) (Some (t_Name t), t_Size t, map (\<lambda>f. (f_Path f, f_Size f)) (t_Files t), set (t_Tags t))"
  shows "entries_ok P (fst (save_torrent t s))"
proof -
  have "P ih e" if "index_save t (index s) ih = Some e" for ih e
  proof (cases "ih = t_Infohash t")
    case True
    with that assms(3) show ?thesis by (simp add: index_save_def)
  next
    case False
    with that obtain n z fs tgs where "index s ih = Some (n, z, fs, tgs)" "e = (n, z, fs, tgs - set (t_Tags t))"
      by (auto simp: index_save_def)
    with assms(1) have "P ih (n, z, fs, tgs)" by (auto simp: entries_ok_def)
    with assms(2) [of ih n z fs tgs] \<open>e = _\<close> show ?thesis by blast
  qed
  with assms(1) save_torrent_index [of s t] save_torrent_wf [of s t] show ?thesis
    unfolding entries_ok_def by metis
qed

lemma remove_torrent_entries: "entries_ok P s \<Longrightarrow> entries_ok P (fst (remove_torrent t s))"
  using remove_torrent_index [of s t] remove_torrent_wf [of s t]
  by (auto simp: entries_ok_def split: if_splits)

lemma save_peer_entries:
  assumes "entries_ok P s" "P (p_Infohash p) (None, 0, [], {})"
  shows "entries_ok P (fst (save_peer p s))"
  using assms save_peer_index [of s p] save_peer_wf [of s p]
  by (auto simp: entries_ok_def split: if_splits)

lemma remove_peer_entries: "entries_ok P s \<Longrightarrow> entries_ok P (fst (remove_peer p s))"
  by (simp add: entries_ok_def remove_peer_index remove_peer_wf)

end

lemma index_save_dom: "dom (index_save t ix) = insert (t_Infohash t) (dom ix)"
  by (auto simp: index_save_def dom_def split: if_splits)

sublocale torrent_store \<subseteq> known_infohashes wf "\<lambda>s. dom (index s)" save_torrent remove_torrent save_peer remove_peer
proof
  fix s c assume wf: "wf s"
  let ?s = "apply_call save_torrent remove_torrent save_peer remove_peer c s"
  show "wf ?s" using wf by (cases c) (simp_all add: save_torrent_wf remove_torrent_wf save_peer_wf remove_peer_wf)
  have "dom (index ?s) \<subseteq> dom (index s) \<union> call_adds c \<and> dom (index s) - call_removes c \<subseteq> dom (index ?s)"
  proof (cases c)
    case (SaveTorrentCall t)
    with save_torrent_index [OF wf, of t] show ?thesis by (elim disjE) (auto simp: index_save_dom)
  next
    case (RemoveTorrentCall t)
    with remove_torrent_index [OF wf, of t] show ?thesis by (elim disjE) auto
  next
    case (SavePeerCall p)
    with save_peer_index [OF wf, of p] show ?thesis by (elim disjE) auto
  next
    case (RemovePeerCall p)
    with remove_peer_index [OF wf, of p] show ?thesis by simp
  qed
  then show "dom (index ?s) \<subseteq> dom (index s) \<union> call_adds c" "dom (index s) - call_removes c \<subseteq> dom (index ?s)" by auto
qed

lemma stored_index_last_rowid [simp]: "stored_index (db\<lparr>db_last_rowid := i\<rparr>) = stored_index db"
  by (simp add: stored_index_def fun_eq_iff)

lemma in_tx_index:
  "snd (in_tx env msg body db) \<noteq> Ok () \<Longrightarrow> stored_index (fst (in_tx env msg body db)) = stored_index db"
  using in_tx_Err [of env msg body db] by (metis prod.collapse stored_index_last_rowid)

lemma SaveTorrent_index_cases:
  assumes "db_wf db"
  shows "stored_index (fst (SaveTorrent env t db)) =
    (if snd (SaveTorrent env t db) = Ok () then index_save t (stored_index db) else stored_index db)"
proof (cases "snd (SaveTorrent env t db) = Ok ()")
  case True
  then have "SaveTorrent env t db = (fst (SaveTorrent env t db), Ok ())" by (simp add: prod_eq_iff)
  from SaveTorrent_index [OF assms this] True show ?thesis by simp
next
  case False
  then show ?thesis unfolding SaveTorrent_def by (simp add: in_tx_index)
qed

lemma SavePeer_index_cases:
  assumes "db_wf db"
  shows "stored_index (fst (SavePeer env p db)) =
    (if snd (SavePeer env p db) = Ok () then (stored_index db)(p_Infohash p \<mapsto> (None, 0, [], {})) else stored_index db)"
proof (cases "snd (SavePeer env p db) = Ok ()")
  case True
  then have "SavePeer env p db = (fst (SavePeer env p db), Ok ())" by (simp add: prod_eq_iff)
  from SavePeer_index [OF assms this] True show ?thesis by simp
next
  case False
  then show ?thesis unfolding SavePeer_def by (simp add: in_tx_index)
qed

lemma delete_peers_index: "stored_index (delete_peers P db) = stored_index db"
  by (rule stored_index_cong) (simp_all add: delete_peers_def Let_def files_of_def tags_of_def)

interpretation sq: torrent_store db_wf stored_index "SaveTorrent env" "RemoveTorrent env" "SavePeer env" "RemovePeer env" for env
proof
  fix db t p assume wf: "db_wf db"
  show "db_wf (fst (SaveTorrent env t db))" "db_wf (fst (RemoveTorrent env t db))"
    "db_wf (fst (SavePeer env p db))" "db_wf (fst (RemovePeer env p db))"
    using wf by (rule SaveTorrent_wf RemoveTorrent_wf SavePeer_wf RemovePeer_wf)+
  show "stored_index (fst (SaveTorrent env t db)) = index_save t (stored_index db) \<or>
      stored_index (fst (SaveTorrent env t db)) = stored_index db"
    by (simp add: SaveTorrent_index_cases [OF wf])
  show "stored_index (fst (SavePeer env p db)) = (stored_index db)(p_Infohash p \<mapsto> (None, 0, [], {})) \<or>
      stored_index (fst (SavePeer env p db)) = stored_index db"
    by (simp add: SavePeer_index_cases [OF wf])
  show "stored_index (fst (RemoveTorrent env t db)) = (stored_index db)(t_Infohash t := None) \<or>
      stored_index (fst (RemoveTorrent env t db)) = stored_index db"
    using stored_index_delete [OF wf, of "t_Infohash t"]
    by (auto simp: RemoveTorrent_fst exec_sql_def call_sql_def sql_removeTorrent_def split: option.splits)
  show "stored_index (fst (RemovePeer env p db)) = stored_index db"
    by (auto simp: RemovePeer_def exec_sql_def call_sql_def sql_removePeer_def delete_peers_index split: option.splits)
qed

end
