(* ===== verification/Tagging.thy ===== *)
theory Tagging
  imports Torrent "HOL-Library.AList" "HOL-Library.Multiset"
begin

text \<open>
  \<^verbatim>\<open>cmd/dhtsearch/tag.go\<close> and \<^verbatim>\<open>createTagRegexps\<close> of \<^verbatim>\<open>cmd/dhtsearch/main.go\<close>: the regular expressions
  that give torrents their tags. Compiled expressions are the strings they match; \<open>compile\<close> stands for
  the expression syntax of package \<^verbatim>\<open>regexp\<close>, with None for a text it rejects. A Go map is an association
  list, in the order an iteration visits it; \<open>ord\<close> is the order of the iteration over the map of
  tags found. \<open>scripts\<close> are the keys of \<^verbatim>\<open>unicode.Scripts\<close>.
\<close>

section \<open>Expressions\<close>

type_synonym regex = "string \<Rightarrow> bool"

type_synonym compiler = "string \<Rightarrow> regex option"

text \<open>The value None is a nil \<^verbatim>\<open>*regexp.Regexp\<close>, which a failed compilation leaves in the map.\<close>

type_synonym tag_map = "(string \<times> regex option) list"

definition backslash :: string where
  "backslash = [CHR 0x5C]"

definition default_tags :: "(string \<times> string) list" where
  "default_tags =
     [(''flac'', backslash @ ''.flac$''),
      (''episode'', ''(season|episode|s[0-9]{2}e[0-9]{2})''),
      (''1080'', ''1080''),
      (''720'', ''720''),
      (''hd'', ''hd|720|1080|4k''),
      (''rip'', ''(bdrip|dvd[- ]?rip|dvdmux|br[- ]?rip|dvd[-]?r|web[- ]?dl|hdrip)''),
      (''xxx'', ''(xxx|p(orn|ussy)|censor|sex|urbat|a(ss|nal)|o(rgy|gasm)|(fu|di|co)ck|esbian|milf|lust|gay)|rotic|18('' @ backslash @ ''+|yr)|hore|hemale|virgin''),
      (''ebook'', ''epub''),
      (''application'', backslash @ ''.(apk|exe|msi|dmg)$''),
      (''android'', backslash @ ''.apk$''),
      (''apple'', backslash @ ''.dmg$''),
      (''subtitles'', backslash @ ''.s(rt|ub)$''),
      (''archive'', backslash @ ''.(zip|rar|p7|tgz|bz2|iso)$''),
      (''video'', ''('' @ backslash @ ''.(3g2|3gp|amv|asf|avi|drc|f4a|f4b|f4p|f4v|flv|gif|gifv|m2v|m4p|m4v|mkv|mng|mov|mp2|mp4|mpe|mpeg|mpg|mpv|mxf|net|nsv|ogv|qt|rm|rmvb|roq|svi|vob|webm|wmv|yuv)$|divx|x264|x265)''),
      (''audio'', backslash @ ''.(aa|aac|aax|act|aiff|amr|ape|au|awb|dct|dss|dvf|flac|gsm|iklax|ivs|m4a|m4b|mmf|mp3|mpc|msv|ogg|opus|ra|raw|sln|tta|vox|wav|wma|wv)$''),
      (''document'', backslash @ ''.(cbr|cbz|cb7|cbt|cba|epub|djvu|fb2|ibook|azw.|lit|prc|mobi|pdb|pdb|oxps|xps|pdf)$''),
      (''bootleg'', ''(camrip|hdts|[-. ](ts|tc)[-. ]|hdtc)''),
      (''screener'', ''(bd[-]?scr|screener|dvd[-]?scr|r5)''),
      (''font'', ''(font|'' @ backslash @ ''.(ttf|fon|otf)$)'')]"

fun mergeTagRegexps :: "compiler \<Rightarrow> tag_map \<Rightarrow> (string \<times> string) list \<Rightarrow> tag_map \<times> unit outcome" where
  "mergeTagRegexps compile tagREs [] = (tagREs, Ok ())"
| "mergeTagRegexps compile tagREs ((tag, re) # tags) =
     (case compile (''(?i)'' @ re) of
        None \<Rightarrow> (AList.update tag None tagREs, Err (External ''regexp''))
      | Some r \<Rightarrow> mergeTagRegexps compile (AList.update tag (Some r) tagREs) tags)"

text \<open>\<^verbatim>\<open>strings.ToLower\<close> on the ASCII names of the scripts\<close>

definition lower_char :: "char \<Rightarrow> char" where
  "lower_char c = (if 65 \<le> (of_char c :: nat) \<and> (of_char c :: nat) \<le> 90 then char_of (of_char c + 32 :: nat) else c)"

definition ToLower :: "string \<Rightarrow> string" where
  "ToLower = map lower_char"

definition script_regexp :: "string \<Rightarrow> string" where
  "script_regexp cc = ''(?i)'' @ backslash @ ''p{'' @ cc @ ''}{3,}''"

fun mergeCharacterTagREs :: "compiler \<Rightarrow> tag_map \<Rightarrow> string list \<Rightarrow> tag_map \<times> unit outcome" where
  "mergeCharacterTagREs compile tagREs [] = (tagREs, Ok ())"
| "mergeCharacterTagREs compile tagREs (cc # scripts) =
     (if cc = ''Latin'' \<or> cc = ''Common'' then mergeCharacterTagREs compile tagREs scripts
      else
        (case compile (script_regexp cc) of
           None \<Rightarrow> (AList.update (ToLower cc) None tagREs, Err (External ''regexp''))
         | Some r \<Rightarrow> mergeCharacterTagREs compile (AList.update (ToLower cc) (Some r) tagREs) scripts))"

text \<open>\<^verbatim>\<open>regexp.MustCompile\<close> panics where \<^verbatim>\<open>Compile\<close> fails, with a message of its own.\<close>

fun must_compile_tags :: "compiler \<Rightarrow> tag_map \<Rightarrow> (string \<times> string) list \<Rightarrow> tag_map outcome" where
  "must_compile_tags compile tagREs [] = Ok tagREs"
| "must_compile_tags compile tagREs ((tag, re) # tags) =
     (case compile (''(?i)'' @ re) of
        None \<Rightarrow> Panic MustCompile
      | Some r \<Rightarrow> must_compile_tags compile (AList.update tag (Some r) tagREs) tags)"

fun must_compile_scripts :: "compiler \<Rightarrow> tag_map \<Rightarrow> string list \<Rightarrow> tag_map outcome" where
  "must_compile_scripts compile tagREs [] = Ok tagREs"
| "must_compile_scripts compile tagREs (cc # scripts) =
     (if cc = ''Latin'' \<or> cc = ''Common'' then must_compile_scripts compile tagREs scripts
      else
        (case compile (script_regexp cc) of
           None \<Rightarrow> Panic MustCompile
         | Some r \<Rightarrow> must_compile_scripts compile (AList.update (ToLower cc) (Some r) tagREs) scripts))"

definition createTagRegexps :: "compiler \<Rightarrow> (string \<times> string) list \<Rightarrow> string list \<Rightarrow> tag_map outcome" where
  "createTagRegexps compile tags scripts =
     and_then (must_compile_tags compile [] tags) (\<lambda>m. must_compile_scripts compile m scripts)"

section \<open>Tagging\<close>

text \<open>\<^verbatim>\<open>re.MatchString\<close> on a nil expression dereferences it.\<close>

definition MatchString :: "regex option \<Rightarrow> string \<Rightarrow> bool outcome" where
  "MatchString re s = (case re of None \<Rightarrow> Panic NilDereference | Some r \<Rightarrow> Ok (r s))"

fun match_files :: "regex option \<Rightarrow> File list \<Rightarrow> bool \<Rightarrow> bool outcome" where
  "match_files re [] found = Ok found"
| "match_files re (f # fs) found =
     and_then (MatchString re (f_Path f)) (\<lambda>b. match_files re fs (found \<or> b))"

fun tag_loop :: "Torrent \<Rightarrow> tag_map \<Rightarrow> (string \<times> bool) list \<Rightarrow> (string \<times> bool) list outcome" where
  "tag_loop t [] ttags = Ok ttags"
| "tag_loop t ((tag, re) # tagREs) ttags =
     and_then (MatchString re (t_Name t)) (\<lambda>b.
     and_then (match_files re (t_Files t) b) (\<lambda>found.
       tag_loop t tagREs (if found then AList.update tag True ttags else ttags)))"

definition tagTorrent :: "(string list \<Rightarrow> string list) \<Rightarrow> Torrent \<Rightarrow> tag_map \<Rightarrow> string list outcome" where
  "tagTorrent ord t tagREs = and_then (tag_loop t tagREs []) (\<lambda>ttags. Ok (ord (map fst ttags)))"

fun has_loop :: "string list \<Rightarrow> string \<Rightarrow> bool" where
  "has_loop [] tag = False"
| "has_loop (t # ts) tag = (if tag = t then True else has_loop ts tag)"

definition hasTag :: "Torrent \<Rightarrow> string \<Rightarrow> bool" where
  "hasTag t tag = has_loop (t_Tags t) tag"

section \<open>What the maps hold\<close>

definition tag_map_ok :: "tag_map \<Rightarrow> bool" where
  "tag_map_ok m \<longleftrightarrow> distinct (map fst m) \<and> (\<forall>(tag, re) \<in> set m. re \<noteq> None)"

definition matches :: "Torrent \<Rightarrow> regex \<Rightarrow> bool" where
  "matches t r \<longleftrightarrow> r (t_Name t) \<or> (\<exists>f \<in> set (t_Files t). r (f_Path f))"

lemma set_alist_update: "p \<in> set (AList.update k v al) \<Longrightarrow> p = (k, v) \<or> p \<in> set al"
  by (induction al) (auto split: if_splits)

lemma tag_map_ok_update: "tag_map_ok m \<Longrightarrow> tag_map_ok (AList.update tag (Some r) m)"
  unfolding tag_map_ok_def by (auto simp: distinct_update dest!: set_alist_update)

lemma must_compile_tags_ok: "must_compile_tags compile m tags = Ok m' \<Longrightarrow> tag_map_ok m \<Longrightarrow> tag_map_ok m'"
  by (induction compile m tags rule: must_compile_tags.induct) (auto simp: tag_map_ok_update split: option.splits)

lemma must_compile_scripts_ok: "must_compile_scripts compile m scripts = Ok m' \<Longrightarrow> tag_map_ok m \<Longrightarrow> tag_map_ok m'"
  by (induction compile m scripts rule: must_compile_scripts.induct)
    (auto simp: tag_map_ok_update split: option.splits if_splits)

lemma createTagRegexps_ok:
  assumes "createTagRegexps compile tags scripts = Ok m"
  shows "tag_map_ok m"
proof -
  from assms obtain m0 where "must_compile_tags compile [] tags = Ok m0" "must_compile_scripts compile m0 scripts = Ok m"
    by (auto simp: createTagRegexps_def and_then_Ok_iff)
  moreover have "tag_map_ok []" by (simp add: tag_map_ok_def)
  ultimately show ?thesis by (blast intro: must_compile_scripts_ok must_compile_tags_ok)
qed

lemma match_files_Ok: "match_files (Some r) fs found = Ok (found \<or> (\<exists>f \<in> set fs. r (f_Path f)))"
  by (induction fs arbitrary: found) (auto simp: MatchString_def)

lemma tag_loop_Ok:
  "\<forall>(tag, re) \<in> set m. re \<noteq> None \<Longrightarrow> distinct (map fst ttags) \<Longrightarrow>
   \<exists>ttags'. tag_loop t m ttags = Ok ttags' \<and> distinct (map fst ttags') \<and>
     fst ` set ttags' = fst ` set ttags \<union> {tag. \<exists>r. (tag, Some r) \<in> set m \<and> matches t r}"
proof (induction m arbitrary: ttags)
  case (Cons p m)
  obtain tag r where p: "p = (tag, Some r)" using Cons.prems(1) by (cases p) auto
  let ?tt = "if matches t r then AList.update tag True ttags else ttags"
  have step: "tag_loop t (p # m) ttags = tag_loop t m ?tt"
    by (simp add: p MatchString_def match_files_Ok matches_def)
  have "distinct (map fst ?tt)" using Cons.prems(2) by (simp add: distinct_update)
  with Cons.IH [of ?tt] Cons.prems(1) obtain tt' where tt': "tag_loop t m ?tt = Ok tt'" "distinct (map fst tt')"
    "fst ` set tt' = fst ` set ?tt \<union> {tag. \<exists>r. (tag, Some r) \<in> set m \<and> matches t r}"
    by auto
  moreover have "fst ` set ?tt = fst ` set ttags \<union> (if matches t r then {tag} else {})"
    by (auto simp: dom_update)
  ultimately show ?case unfolding step by (auto simp: p)
qed simp

lemma tagTorrent_total:
  assumes "tag_map_ok m"
  shows "\<exists>tags. tagTorrent ord t m = Ok tags"
proof -
  have "\<forall>(tag, re) \<in> set m. re \<noteq> None" using assms by (simp add: tag_map_ok_def)
  from tag_loop_Ok [OF this, of "[]" t] show ?thesis by (auto simp: tagTorrent_def)
qed

section \<open>Properties\<close>

text \<open>C26: with the expressions the program compiles at its start, tagging never fails, and a torrent gets
  exactly the tags whose expression matches its name or the path of one of its files, each once.\<close>

theorem tagTorrent_spec:
  assumes "createTagRegexps compile tags scripts = Ok m" "\<forall>xs. mset (ord xs) = mset xs"
  shows "\<exists>tgs. tagTorrent ord t m = Ok tgs \<and> distinct tgs \<and>
    set tgs = {tag. \<exists>r. map_of m tag = Some (Some r) \<and> (r (t_Name t) \<or> (\<exists>f \<in> set (t_Files t). r (f_Path f)))}"
proof -
  have ok: "tag_map_ok m" using assms(1) by (rule createTagRegexps_ok)
  from tag_loop_Ok [of m "[]" t] ok obtain tt where tt: "tag_loop t m [] = Ok tt" "distinct (map fst tt)"
    "fst ` set tt = {tag. \<exists>r. (tag, Some r) \<in> set m \<and> matches t r}"
    by (auto simp: tag_map_ok_def)
  have "map_of m tag = Some (Some r) \<longleftrightarrow> (tag, Some r) \<in> set m" for tag r
    using ok by (auto simp: tag_map_ok_def dest: map_of_SomeD)
  with tt(3) have "set (map fst tt) = {tag. \<exists>r. map_of m tag = Some (Some r) \<and> matches t r}" by simp
  moreover have "set (ord (map fst tt)) = set (map fst tt)" "distinct (ord (map fst tt))"
    using assms(2) tt(2) mset_eq_setD mset_eq_imp_distinct_iff by metis+
  ultimately show ?thesis using tt(1) by (auto simp: tagTorrent_def matches_def)
qed

lemma mergeTagRegexps_eq:
  "mergeTagRegexps compile m tags = (m', Ok ()) \<longleftrightarrow> must_compile_tags compile m tags = Ok m'"
  by (induction compile m tags rule: must_compile_tags.induct) (auto split: option.splits)

lemma mergeCharacterTagREs_eq:
  "mergeCharacterTagREs compile m scripts = (m', Ok ()) \<longleftrightarrow> must_compile_scripts compile m scripts = Ok m'"
  by (induction compile m scripts rule: must_compile_scripts.induct) (auto split: option.splits)

text \<open>The two merging functions, which report an error, and \<^verbatim>\<open>createTagRegexps\<close>, which panics, build the
  same map from the same expressions, and the former succeed exactly when the latter does.\<close>

theorem merge_builds_same_map:
  "createTagRegexps compile tags scripts = Ok m \<longleftrightarrow>
     (\<exists>m0. mergeTagRegexps compile [] tags = (m0, Ok ()) \<and> mergeCharacterTagREs compile m0 scripts = (m, Ok ()))"
  by (auto simp: createTagRegexps_def and_then_Ok_iff mergeTagRegexps_eq mergeCharacterTagREs_eq)

theorem tagTorrent_spec_witness:
  "\<exists>m tgs. createTagRegexps (\<lambda>re. Some (\<lambda>s. s = ''a.flac'' \<and> re = ''(?i)epub'')) default_tags [''Latin''] = Ok m \<and>
     tagTorrent rev \<lparr>t_ID = 0, t_Infohash = [1], t_Name = ''x'', t_Files = [\<lparr>f_ID = 0, f_Path = ''a.flac'', f_Size = 1,
       f_TorrentID = 0\<rparr>], t_Size = 9, t_Updated = 0, t_Created = 0, t_Tags = []\<rparr> m = Ok tgs \<and> distinct tgs"
proof -
  let ?c = "\<lambda>re. Some (\<lambda>s. s = ''a.flac'' \<and> re = ''(?i)epub'')"
  have "\<exists>m'. must_compile_tags ?c m tags = Ok m'" for m tags
    by (induction tags arbitrary: m) auto
  then obtain m where "must_compile_tags ?c [] default_tags = Ok m" by blast
  then have m: "createTagRegexps ?c default_tags [''Latin''] = Ok m" by (simp add: createTagRegexps_def)
  from tagTorrent_spec [OF m, of rev] m show ?thesis by fastforce
qed

end
