(* ===== verification/Bt_Wire.thy ===== *)
theory Bt_Wire
  imports Torrent
begin

text \<open>
  The wire level of \<^verbatim>\<open>bt/worker.go\<close>: integers in big-endian bytes, length-prefixed messages, the two
  handshakes and the requests for pieces. What the peer sends is a list of bytes, everything that
  arrives until the connection ends or a read times out; reading consumes it from the front. What
  is written is returned. A \<^verbatim>\<open>bytes.Buffer\<close> is the list of its unread bytes.
\<close>

section \<open>Constants\<close>

definition MsgRequest :: int where
  "MsgRequest = 0"

definition MsgData :: int where
  "MsgData = 1"

definition MsgReject :: int where
  "MsgReject = 2"

definition MsgExtended :: byte where
  "MsgExtended = 20"

definition BlockSize :: int where
  "BlockSize = 16384"

definition MaxMetadataSize :: int where
  "MaxMetadataSize = BlockSize * 1000"

definition HandshakeBit :: byte where
  "HandshakeBit = 0"

definition handshakePrefix :: "byte list" where
  "handshakePrefix =
     [19, 66, 105, 116, 84, 111, 114, 114, 101, 110, 116, 32, 112, 114,
      111, 116, 111, 99, 111, 108, 0, 0, 0, 0, 0, 16, 0, 1]"

section \<open>Reading\<close>

text \<open>The loop of \<^verbatim>\<open>bytes2int\<close> on a \<^verbatim>\<open>uint64\<close>.\<close>

fun bytes2int_loop :: "nat \<Rightarrow> nat \<Rightarrow> byte list \<Rightarrow> 64 word \<Rightarrow> 64 word" where
  "bytes2int_loop n i [] val = val"
| "bytes2int_loop n i (b # bs) val =
     bytes2int_loop n (Suc i) bs (val + push_bit ((n - i - 1) * 8) (ucast b))"

definition bytes2int :: "byte list \<Rightarrow> int outcome" where
  "bytes2int data =
     (if 8 < length data then Err DataTooLong else Ok (sint (bytes2int_loop (length data) 0 data 0)))"

text \<open>\<^verbatim>\<open>read\<close>: exactly \<open>n\<close> bytes from the connection to the end of the buffer, or an error.\<close>

definition read_conn :: "byte list \<Rightarrow> int \<Rightarrow> byte list \<Rightarrow> (byte list \<times> byte list) outcome" where
  "read_conn conn n data =
     (if n \<le> int (length conn) then Ok (drop (nat n) conn, data @ take (nat n) conn)
      else Err ReadError)"

text \<open>\<^verbatim>\<open>readMessage\<close>: the length, the rest of the connection and the buffer.\<close>

definition readMessage :: "byte list \<Rightarrow> byte list \<Rightarrow> (int \<times> byte list \<times> byte list) outcome" where
  "readMessage conn data =
     and_then (read_conn conn 4 data) (\<lambda>(conn, data).
     and_then (bytes2int (take 4 data)) (\<lambda>len.
       let data = drop 4 data in
       if len = 0 then Ok (len, conn, data)
       else and_then (read_conn conn len data) (\<lambda>(conn, data). Ok (len, conn, data))))"

text \<open>\<^verbatim>\<open>data.ReadByte()\<close>\<close>

definition ReadByte :: "byte list \<Rightarrow> (byte \<times> byte list) outcome" where
  "ReadByte data = (case data of [] \<Rightarrow> Err EndOfBuffer | b # rest \<Rightarrow> Ok (b, rest))"

text \<open>
  The check of the handshake response, which \<^verbatim>\<open>fetchMetadata\<close> has in line and \<^verbatim>\<open>onHandshake\<close> as a
  function: the protocol name, and the bit for extensions.
\<close>

definition onHandshake :: "byte list \<Rightarrow> unit outcome" where
  "onHandshake data =
     (if length data < 20 then Panic SliceOutOfRange
      else if take 20 handshakePrefix = take 20 data
      then (if length data < 26 then Panic IndexOutOfRange
            else if data ! 25 AND 0x10 \<noteq> 0 then Ok () else Err InvalidHandshake)
      else Err InvalidHandshake)"

section \<open>Writing\<close>

text \<open>\<^verbatim>\<open>sendMessage\<close>: what goes to the connection; the length is cut to an \<^verbatim>\<open>int32\<close>.\<close>

definition sendMessage :: "byte list \<Rightarrow> byte list" where
  "sendMessage data = be32 (word_of_nat (length data)) @ data"

text \<open>\<^verbatim>\<open>copy\<close> into a fixed window: at most its length, the rest stays.\<close>

definition copy_into :: "byte list \<Rightarrow> nat \<Rightarrow> nat \<Rightarrow> byte list \<Rightarrow> byte list" where
  "copy_into dst lo hi src =
     (let n = min (hi - lo) (length src) in take lo dst @ take n src @ drop (lo + n) dst)"

definition sendHandshake :: "infohash \<Rightarrow> infohash \<Rightarrow> byte list" where
  "sendHandshake ih ident =
     copy_into (copy_into (copy_into (replicate 68 0) 0 28 handshakePrefix) 28 48 ih) 48 68 ident"

text \<open>\<^verbatim>\<open>enc\<close> stands for \<^verbatim>\<open>bencode.EncodeDict\<close>.\<close>

type_synonym dict_encoder = "dict \<Rightarrow> byte list outcome"

definition sendExtHandshake :: "dict_encoder \<Rightarrow> byte list outcome" where
  "sendExtHandshake enc =
     and_then (enc [(''m'', GMap [(''ut_metadata'', GInt 1)])]) (\<lambda>m.
       Ok (sendMessage ([MsgExtended, HandshakeBit] @ m)))"

text \<open>
  The messages of \<^verbatim>\<open>requestPieces\<close>: a failed encoding is dropped, and a message that does not fit the
  buffer of 1024 bytes panics.
\<close>

definition request_piece :: "dict_encoder \<Rightarrow> int \<Rightarrow> int \<Rightarrow> byte list outcome" where
  "request_piece enc utMetadata i =
     and_then (case enc [(''msg_type'', GInt MsgRequest), (''piece'', GInt i)] of Err _ \<Rightarrow> Ok [] | r \<Rightarrow> r) (\<lambda>msg.
       if 1024 < length msg + 2 then Panic SliceOutOfRange
       else Ok (sendMessage ([MsgExtended, word_of_int utMetadata] @ msg)))"

function requestPieces :: "dict_encoder \<Rightarrow> int \<Rightarrow> int \<Rightarrow> int \<Rightarrow> byte list list outcome" where
  "requestPieces enc utMetadata totalPieces i =
     (if i < totalPieces then
        and_then (request_piece enc utMetadata i) (\<lambda>m.
        and_then (requestPieces enc utMetadata totalPieces (i + 1)) (\<lambda>ms. Ok (m # ms)))
      else Ok [])"
  by pat_completeness auto
termination
  by (relation "measure (\<lambda>(enc, u, t, i). nat (t - i))") auto

declare requestPieces.simps [simp del]

section \<open>Big-endian values\<close>

definition be_val :: "byte list \<Rightarrow> nat" where
  "be_val bs = foldl (\<lambda>v b. v * 256 + unat b) 0 bs"

lemma be_val_append: "foldl (\<lambda>v b. v * 256 + unat b) v bs = v * 256 ^ length bs + be_val (bs :: byte list)"
proof (induction bs arbitrary: v)
  case (Cons b bs)
  show ?case
    using Cons [of "v * 256 + unat b"] Cons [of "unat b"] by (simp add: be_val_def algebra_simps)
qed (simp add: be_val_def)

lemma be_val_simps [simp]:
  "be_val [] = 0" "be_val (b # bs) = unat b * 256 ^ length bs + be_val bs" "be_val (bs @ [b]) = be_val bs * 256 + unat b"
  using be_val_append [of "unat b" bs] by (simp_all add: be_val_def)

lemma be_val_less: "be_val bs < 256 ^ length bs"
proof (induction bs)
  case (Cons b bs)
  have "unat b < 256" using unsigned_less [of b] by simp
  then have "unat b \<le> 255" by simp
  then have "unat b * 256 ^ length bs \<le> 255 * 256 ^ length bs" by (rule mult_le_mono1)
  moreover have "256 ^ length (b # bs) = 255 * 256 ^ length bs + (256 :: nat) ^ length bs" by simp
  ultimately show ?case using Cons by (simp only: be_val_simps)
qed simp

lemma be_val_dropWhile: "be_val (dropWhile (\<lambda>b. b = 0) bs) = be_val bs"
  by (induction bs) auto

text \<open>The loop adds the value of the bytes.\<close>

lemma bytes2int_loop_val: "i + length bs = n \<Longrightarrow> bytes2int_loop n i bs val = val + word_of_nat (be_val bs)"
proof (induction bs arbitrary: i val)
  case (Cons b bs)
  have "push_bit (length bs * 8) (ucast b :: 64 word) = word_of_nat (unat b * 256 ^ length bs)"
    by (simp add: push_bit_eq_mult of_nat_unat power_mult [of 2 8, simplified] mult.commute [of _ 8])
  moreover have "n - i - 1 = length bs" using Cons.prems by simp
  ultimately show ?case using Cons by (simp add: add.assoc)
qed simp

lemma bytes2int_short:
  assumes "length bs < 8"
  shows "bytes2int bs = Ok (int (be_val bs))"
proof -
  have "be_val bs < 256 ^ 7"
    using be_val_less [of bs] assms power_increasing [of "length bs" 7 "256 :: nat"] by linarith
  then have "sint (word_of_nat (be_val bs) :: 64 word) = int (be_val bs)"
    by (simp add: signed_of_nat signed_take_bit_int_eq_self)
  with assms show ?thesis by (simp add: bytes2int_def bytes2int_loop_val)
qed

text \<open>The bytes of a word, most significant first, have its value.\<close>

lemma be_val_bytes:
  "be_val (map (\<lambda>i. ucast (drop_bit ((k - 1 - i) * 8) w)) [0..<k]) = unat (w :: 'a :: len word) mod 256 ^ k"
proof (induction k arbitrary: w)
  case (Suc k)
  have "map (\<lambda>i. ucast (drop_bit ((k - i) * 8) w) :: byte) [0..<k] =
      map (\<lambda>i. ucast (drop_bit ((k - 1 - i) * 8) (drop_bit 8 w))) [0..<k]"
  proof (rule map_cong [OF refl])
    fix i assume "i \<in> set [0..<k]"
    then have "(k - i) * 8 = (k - 1 - i) * 8 + 8" by (simp add: algebra_simps)
    then show "(ucast (drop_bit ((k - i) * 8) w) :: byte) = ucast (drop_bit ((k - 1 - i) * 8) (drop_bit 8 w))"
      by (simp add: drop_bit_drop_bit)
  qed
  then have "map (\<lambda>i. ucast (drop_bit ((Suc k - 1 - i) * 8) w) :: byte) [0..<Suc k] =
      map (\<lambda>i. ucast (drop_bit ((k - 1 - i) * 8) (drop_bit 8 w))) [0..<k] @ [ucast w]"
    by simp
  then have "be_val (map (\<lambda>i. ucast (drop_bit ((Suc k - 1 - i) * 8) w)) [0..<Suc k]) =
      be_val (map (\<lambda>i. ucast (drop_bit ((k - 1 - i) * 8) (drop_bit 8 w))) [0..<k]) * 256 + unat (ucast w :: byte)"
    by (simp only: be_val_simps)
  also have "\<dots> = (unat w div 256 mod 256 ^ k) * 256 + unat w mod 256"
    unfolding Suc unat_drop_bit_eq by (simp add: drop_bit_eq_div unsigned_ucast_eq take_bit_eq_mod)
  also have "\<dots> = unat w mod 256 ^ Suc k"
    by (simp add: mod_mult2_eq mult.commute add.commute)
  finally show ?case .
qed simp

lemma be32_bytes: "be32 w = map (\<lambda>i. ucast (drop_bit ((4 - 1 - i) * 8) w)) [0..<4]"
  by (simp add: be32_def upt_rec)

lemma be_val_be32: "be_val (be32 w) = unat w"
proof -
  have "unat w < 2 ^ 32" using unsigned_less [of w] by simp
  then show ?thesis unfolding be32_bytes be_val_bytes by simp
qed

section \<open>Framing\<close>

lemma readMessage_frame:
  assumes "length d < 2 ^ 32"
  shows "readMessage (sendMessage d @ rest) [] = Ok (int (length d), rest, d)"
proof -
  let ?w = "word_of_nat (length d) :: 32 word"
  have "unat ?w = length d" using assms by (simp add: unsigned_of_nat take_bit_nat_eq_self)
  then have "bytes2int (be32 ?w) = Ok (int (length d))" by (simp add: bytes2int_short be_val_be32)
  then show ?thesis by (simp add: readMessage_def sendMessage_def read_conn_def)
qed

lemma read_conn_Ok:
  "read_conn conn n data = Ok r \<longleftrightarrow>
     n \<le> int (length conn) \<and> r = (drop (nat n) conn, data @ take (nat n) conn)"
  by (auto simp: read_conn_def)

lemma readMessage_consumes:
  assumes "readMessage conn data = Ok (len, conn', data')"
  shows "length conn' + 4 \<le> length conn"
proof -
  from assms have "4 \<le> length conn" by (auto simp: readMessage_def and_then_Ok_iff read_conn_Ok)
  moreover from assms have "\<exists>k. conn' = drop k (drop 4 conn)"
    by (auto simp: readMessage_def and_then_Ok_iff read_conn_Ok Let_def split: if_splits intro: exI [of _ 0])
  ultimately show ?thesis by auto
qed

lemma bytes2int_4: "length bs = 4 \<Longrightarrow> bytes2int bs = Ok (int (be_val bs)) \<and> be_val bs < 2 ^ 32"
  using bytes2int_short [of bs] be_val_less [of bs] by simp

lemma readMessage_len:
  assumes "readMessage conn [] = Ok (len, conn', data')"
  shows "0 \<le> len \<and> len < 2 ^ 32 \<and> len = int (length data')"
proof -
  have "bytes2int (take 4 conn) = Ok (int (be_val (take 4 conn))) \<and> be_val (take 4 conn) < 2 ^ 32"
    if "4 \<le> length conn" using that by (intro bytes2int_4) simp
  then show ?thesis
    using assms by (auto simp: readMessage_def read_conn_def Let_def and_then_Ok_iff split: if_splits)
qed

text \<open>The handshake message and its check.\<close>

lemma sendHandshake_valid:
  assumes "Infohash_Valid ih" "Infohash_Valid ident"
  shows "sendHandshake ih ident = handshakePrefix @ ih @ ident \<and>
    length (sendHandshake ih ident) = 68 \<and> onHandshake (sendHandshake ih ident) = Ok ()"
proof -
  have len: "length ih = 20" "length ident = 20"
    using assms by (simp_all add: Infohash_Valid_def InfohashLength_def)
  have p: "length handshakePrefix = 28" by (simp add: handshakePrefix_def)
  have eq: "sendHandshake ih ident = handshakePrefix @ ih @ ident"
    using len p by (simp add: sendHandshake_def copy_into_def)
  have "handshakePrefix ! 25 AND 0x10 \<noteq> 0" by (simp add: handshakePrefix_def)
  then show ?thesis unfolding eq using len p by (simp add: onHandshake_def nth_append)
qed

section \<open>Properties\<close>

text \<open>C40: length-prefixed messages survive the wire: reading messages one after the other from the
  concatenation of what \<^verbatim>\<open>sendMessage\<close> writes gives back the payloads, each with its length, and
  leaves exactly what follows; a message of length zero is read as such.\<close>

theorem framing_roundtrip:
  assumes "length d < 2 ^ 32" and "length e < 2 ^ 32"
  shows "readMessage (sendMessage d @ sendMessage e @ rest) [] = Ok (int (length d), sendMessage e @ rest, d) \<and>
    readMessage (sendMessage e @ rest) [] = Ok (int (length e), rest, e)"
  using assms by (simp add: readMessage_frame)

theorem framing_roundtrip_witness:
  "readMessage (sendMessage [20, 0] @ sendMessage [] @ [7]) [] = Ok (2, sendMessage [] @ [7], [20, 0]) \<and>
   readMessage (sendMessage [] @ [7]) [] = Ok (0, [7], [])"
  using framing_roundtrip [of "[20, 0]" "[]" "[7]"] by simp

text \<open>\<^verbatim>\<open>bytes2int\<close> of the worker reads back every 64-bit integer that \<^verbatim>\<open>int2bytes\<close> of the \<^verbatim>\<open>krpc\<close>
  package writes, negative ones included.\<close>

theorem bytes2int_int2bytes: "bytes2int (int2bytes val) = Ok (sint val)"
proof -
  have len: "length (int2bytes val) \<le> 8"
    by (auto simp: int2bytes_eq be_bytes64_def intro: le_trans [OF length_dropWhile_le])
  have "be_bytes64 val = map (\<lambda>i. ucast (drop_bit ((8 - 1 - i) * 8) val)) [0..<8]"
    by (simp add: be_bytes64_def)
  then have "be_val (be_bytes64 val) = unat val mod 256 ^ 8" by (simp only: be_val_bytes)
  moreover have "unat val < 2 ^ 64" using unsigned_less [of val] by simp
  ultimately have v: "be_val (be_bytes64 val) = unat val" by simp
  have "be_val (int2bytes val) = unat val"
  proof (cases "\<exists>b \<in> set (be_bytes64 val). b \<noteq> 0")
    case True
    with v show ?thesis by (simp add: int2bytes_eq be_val_dropWhile)
  next
    case False
    then have "dropWhile (\<lambda>b. b = 0) (be_bytes64 val) = []" by (simp add: dropWhile_eq_Nil_conv)
    then have "be_val (be_bytes64 val) = 0" by (metis be_val_dropWhile be_val_simps(1))
    with v False show ?thesis by (simp add: int2bytes_eq)
  qed
  with len show ?thesis
    by (simp add: bytes2int_def bytes2int_loop_val of_nat_unat)
qed

text \<open>The handshake the worker sends has 68 bytes: the protocol header with the extension bit set,
  the infohash and the worker's own identifier; a peer that answers in the same form passes the
  worker's check.\<close>

theorem handshake_layout:
  assumes "Infohash_Valid ih" "Infohash_Valid ident"
  shows "sendHandshake ih ident = handshakePrefix @ ih @ ident \<and>
    length (sendHandshake ih ident) = 68 \<and> onHandshake (sendHandshake ih ident) = Ok ()"
  using assms by (rule sendHandshake_valid)

theorem handshake_layout_witness:
  "onHandshake (sendHandshake (replicate 20 1) (replicate 20 2)) = Ok ()"
proof -
  have "Infohash_Valid (replicate 20 1)" "Infohash_Valid (replicate 20 2)" by (simp_all add: Infohash_Valid_def)
  from handshake_layout [OF this] show ?thesis by blast
qed

end
