(* ===== verification/Bt_Worker.thy ===== *)
theory Bt_Worker
  imports Bt_Wire "HOL-Library.Signed_Division"
begin

text \<open>
  \<^verbatim>\<open>bt/worker.go\<close> and \<^verbatim>\<open>bt/options.go\<close>: the worker that fetches a torrent's metadata from a peer. The
  bencode package is the pair \<open>dec\<close> and \<open>enc\<close>; dialling a peer is a function from its address to the
  connection it gives. \<^verbatim>\<open>fetchMetadata\<close> is one loop over the messages of the peer, here a step
  function on its local variables and its iteration; every message takes at least four bytes from
  the connection, so the iteration ends when what the peer sends ends.
\<close>

section \<open>State\<close>

record peer_conn =
  pc_in :: "byte list"
  pc_handshake_err :: "go_error option"
  pc_ext_err :: "go_error option"

record fetch_state =
  fs_conn :: "byte list"
  fs_data :: "byte list"
  fs_totalPieces :: int
  fs_pieces :: "byte list list option"
  fs_utMetadata :: int
  fs_metadataSize :: int
  fs_sent :: "byte list list"

text \<open>
  How \<^verbatim>\<open>fetchMetadata\<close> ends before its deferred \<^verbatim>\<open>recover\<close> runs, or that the goroutine of
  \<^verbatim>\<open>requestPieces\<close>, which has no \<^verbatim>\<open>recover\<close>, has panicked and taken the process down.
\<close>

datatype fetch_result = FReturn "byte list outcome" | FDie go_panic

datatype fetch_next = More fetch_state | Stop fetch_result

definition or_stop :: "'a outcome \<Rightarrow> ('a \<Rightarrow> fetch_next) \<Rightarrow> fetch_next" where
  "or_stop r f =
     (case r of
        Ok x \<Rightarrow> f x
      | Err e \<Rightarrow> Stop (FReturn (Err e))
      | Panic p \<Rightarrow> Stop (FReturn (Panic p))
      | Hang \<Rightarrow> Stop (FReturn Hang))"

section \<open>Handling one message\<close>

definition getUTMetaSize :: "dict_decoder \<Rightarrow> byte list \<Rightarrow> (int \<times> int) outcome" where
  "getUTMetaSize dec data =
     and_then (dec data 0) (\<lambda>(dict, _).
     and_then (GetMap dict ''m'') (\<lambda>m.
     and_then (GetInt m ''ut_metadata'') (\<lambda>utMetadata.
     and_then (GetInt dict ''metadata_size'') (\<lambda>metadataSize.
       if MaxMetadataSize < metadataSize then Err MetadataSizeTooLong
       else Ok (utMetadata, metadataSize)))))"

text \<open>Go's division and remainder truncate towards zero.\<close>

definition total_pieces :: "int \<Rightarrow> int" where
  "total_pieces metadataSize =
     (if metadataSize smod BlockSize \<noteq> 0 then metadataSize sdiv BlockSize + 1 else metadataSize sdiv BlockSize)"

definition on_ext_handshake :: "dict_decoder \<Rightarrow> dict_encoder \<Rightarrow> fetch_state \<Rightarrow> byte list \<Rightarrow> fetch_next" where
  "on_ext_handshake dec enc st payload =
     (if fs_pieces st \<noteq> None then Stop (FReturn (Err InvalidExtendedID))
      else
        or_stop (getUTMetaSize dec payload) (\<lambda>(utMetadata, metadataSize).
          let totalPieces = total_pieces metadataSize;
              st' = st\<lparr>fs_utMetadata := utMetadata, fs_metadataSize := metadataSize,
                       fs_totalPieces := totalPieces,
                       fs_pieces := Some (replicate (nat totalPieces) [])\<rparr>
          in if totalPieces < 0 then Stop (FReturn (Panic MakeSliceLength))
             else (case requestPieces enc utMetadata totalPieces 0 of
                     Ok ms \<Rightarrow> More (st'\<lparr>fs_sent := fs_sent st @ ms\<rparr>)
                   | Panic p \<Rightarrow> Stop (FDie p)
                   | _ \<Rightarrow> More st')))"

fun isDone :: "byte list list \<Rightarrow> bool" where
  "isDone [] = True"
| "isDone (piece # pieces) = (if length piece = 0 then False else isDone pieces)"

definition on_metadata :: "dict_decoder \<Rightarrow> fetch_state \<Rightarrow> int \<Rightarrow> byte list \<Rightarrow> fetch_next" where
  "on_metadata dec st len payload =
     (case fs_pieces st of
        None \<Rightarrow> Stop (FReturn (Err NoPiecesFound))
      | Some pieces \<Rightarrow>
          or_stop (dec payload 0) (\<lambda>(dict, index).
          or_stop (GetInt dict ''msg_type'') (\<lambda>mt.
          if mt \<noteq> MsgData then More st
          else
            or_stop (GetInt dict ''piece'') (\<lambda>piece.
            let pieceLen = wrap64 (len - 2 - index) in
            if 1 < fs_totalPieces st \<and> piece \<noteq> fs_totalPieces st - 1 \<and> pieceLen \<noteq> BlockSize
            then Stop (FReturn (Err (IncompletePiece piece)))
            else if piece = fs_totalPieces st - 1 \<and> pieceLen \<noteq> fs_metadataSize st smod BlockSize
            then Stop (FReturn (Err (IncorrectFinalPiece piece)))
            else if \<not> (0 \<le> index \<and> index \<le> int (length payload)) then Stop (FReturn (Panic SliceOutOfRange))
            else if \<not> (0 \<le> piece \<and> piece < int (length pieces)) then Stop (FReturn (Panic IndexOutOfRange))
            else
              (let pieces' = pieces[nat piece := drop (nat index) payload] in
               if isDone pieces' then Stop (FReturn (Ok (concat pieces')))
               else More (st\<lparr>fs_pieces := Some pieces'\<rparr>))))))"

definition fetch_message :: "dict_decoder \<Rightarrow> dict_encoder \<Rightarrow> fetch_state \<Rightarrow> fetch_next" where
  "fetch_message dec enc st =
     or_stop (readMessage (fs_conn st) (fs_data st)) (\<lambda>(len, conn, data).
       if len = 0 then More (st\<lparr>fs_conn := conn, fs_data := data\<rparr>)
       else
         or_stop (ReadByte data) (\<lambda>(msgType, data).
           let st' = st\<lparr>fs_conn := conn, fs_data := []\<rparr> in
           if msgType = MsgExtended then
             or_stop (ReadByte data) (\<lambda>(extendedID, payload).
               if extendedID = 0 then on_ext_handshake dec enc st' payload
               else on_metadata dec st' len payload)
           else More st'))"

lemma or_stop_More: "or_stop r f = More st \<longleftrightarrow> (\<exists>x. r = Ok x \<and> f x = More st)"
  by (cases r) (auto simp: or_stop_def)

lemma on_ext_handshake_conn: "on_ext_handshake dec enc st payload = More st' \<Longrightarrow> fs_conn st' = fs_conn st"
  by (auto simp: on_ext_handshake_def or_stop_More Let_def split: if_splits outcome.splits)

lemma on_metadata_conn: "on_metadata dec st len payload = More st' \<Longrightarrow> fs_conn st' = fs_conn st"
  by (auto simp: on_metadata_def or_stop_More Let_def split: if_splits option.splits)

lemma fetch_message_consumes:
  assumes "fetch_message dec enc st = More st'"
  shows "length (fs_conn st') + 4 \<le> length (fs_conn st)"
proof -
  from assms obtain len conn data where "readMessage (fs_conn st) (fs_data st) = Ok (len, conn, data)"
    and "fs_conn st' = conn"
    by (fastforce simp: fetch_message_def or_stop_More Let_def split: if_splits
        dest: on_ext_handshake_conn on_metadata_conn)
  then show ?thesis by (simp add: readMessage_consumes)
qed

function fetch_loop :: "dict_decoder \<Rightarrow> dict_encoder \<Rightarrow> fetch_state \<Rightarrow> fetch_result" where
  "fetch_loop dec enc st =
     (case fetch_message dec enc st of
        More st' \<Rightarrow> fetch_loop dec enc st'
      | Stop r \<Rightarrow> r)"
  by pat_completeness auto
termination
  by (relation "measure (\<lambda>(dec, enc, st). length (fs_conn st))") (auto dest: fetch_message_consumes)

declare fetch_loop.simps [simp del]

section \<open>Fetching\<close>

definition fetch_init :: "byte list \<Rightarrow> byte list \<Rightarrow> byte list list \<Rightarrow> fetch_state" where
  "fetch_init conn data sent =
     \<lparr>fs_conn = conn, fs_data = data, fs_totalPieces = 0, fs_pieces = None, fs_utMetadata = 0,
      fs_metadataSize = 0, fs_sent = sent\<rparr>"

text \<open>The body of \<^verbatim>\<open>fetchMetadata\<close> from the dial to the loop; \<open>self\<close> is the identifier it generates.\<close>

definition fetch_body ::
    "dict_decoder \<Rightarrow> dict_encoder \<Rightarrow> (string \<Rightarrow> peer_conn outcome) \<Rightarrow> infohash \<Rightarrow> Peer \<Rightarrow> fetch_result" where
  "fetch_body dec enc dial self p =
     (case and_then (dial (UDPAddr_String (p_Addr p))) (\<lambda>c.
           and_then (case pc_handshake_err c of Some e \<Rightarrow> Err e | None \<Rightarrow> Ok ()) (\<lambda>_.
           and_then (read_conn (pc_in c) 68 []) (\<lambda>(conn, data).
           and_then (onHandshake (take 68 data)) (\<lambda>_.
           and_then (sendExtHandshake enc) (\<lambda>ext.
           and_then (case pc_ext_err c of Some e \<Rightarrow> Err e | None \<Rightarrow> Ok ()) (\<lambda>_.
             Ok (fetch_init conn (drop 68 data) [sendHandshake (p_Infohash p) self, ext]))))))) of
        Ok st \<Rightarrow> fetch_loop dec enc st
      | Err e \<Rightarrow> FReturn (Err e)
      | Panic q \<Rightarrow> FReturn (Panic q)
      | Hang \<Rightarrow> FReturn Hang)"

text \<open>
  The deferred \<^verbatim>\<open>recover\<close> turns a panic into a return of the named results, which are both nil then:
  no metadata and no error.
\<close>

definition fetchMetadata ::
    "dict_decoder \<Rightarrow> dict_encoder \<Rightarrow> (string \<Rightarrow> peer_conn outcome) \<Rightarrow> infohash \<Rightarrow> Peer \<Rightarrow> fetch_result" where
  "fetchMetadata dec enc dial self p =
     (case fetch_body dec enc dial self p of FReturn (Panic q) \<Rightarrow> FReturn (Ok []) | r \<Rightarrow> r)"

section \<open>The worker\<close>

text \<open>The callbacks are flags with the calls made of them; a worker without a logger has a nil one.\<close>

record worker =
  w_port :: int
  w_family :: string
  w_OnNewTorrent :: bool
  w_OnBadPeer :: bool
  w_log :: bool
  w_torrents :: "Torrent list"
  w_bad :: "Peer list"

datatype worker_option =
    WSetOnNewTorrent
  | WSetOnBadPeer
  | WSetPort int
  | WSetIPv6 bool
  | WSetLogger

fun apply_worker_option :: "worker_option \<Rightarrow> worker \<Rightarrow> worker" where
  "apply_worker_option WSetOnNewTorrent w = w\<lparr>w_OnNewTorrent := True\<rparr>"
| "apply_worker_option WSetOnBadPeer w = w\<lparr>w_OnBadPeer := True\<rparr>"
| "apply_worker_option (WSetPort p) w = w\<lparr>w_port := p\<rparr>"
| "apply_worker_option (WSetIPv6 b) w = (if b then w\<lparr>w_family := ''tcp6''\<rparr> else w)"
| "apply_worker_option WSetLogger w = w\<lparr>w_log := True\<rparr>"

definition NewWorker :: "worker_option list \<Rightarrow> worker outcome" where
  "NewWorker opts =
     Ok (fold apply_worker_option opts
       \<lparr>w_port = 0, w_family = [], w_OnNewTorrent = False, w_OnBadPeer = False, w_log = False,
        w_torrents = [], w_bad = []\<rparr>)"

text \<open>
  One round of the loop of \<^verbatim>\<open>Run\<close>, for the peer \<open>p\<close> that came over the worker's channel. A panic here
  is not recovered.
\<close>

definition worker_round ::
    "dict_decoder \<Rightarrow> dict_encoder \<Rightarrow> (string \<Rightarrow> peer_conn outcome) \<Rightarrow> infohash \<Rightarrow> worker \<Rightarrow> Peer \<Rightarrow>
     worker outcome" where
  "worker_round dec enc dial self w p =
     (if \<not> w_log w then Panic NilDereference
      else
        (case fetchMetadata dec enc dial self p of
           FDie q \<Rightarrow> Panic q
         | FReturn (Err e) \<Rightarrow> Ok (if w_OnBadPeer w then w\<lparr>w_bad := w_bad w @ [p]\<rparr> else w)
         | FReturn (Ok md) \<Rightarrow>
             (case TorrentFromMetadata dec (p_Infohash p) md of
                Ok t \<Rightarrow> Ok (if w_OnNewTorrent w then w\<lparr>w_torrents := w_torrents w @ [t]\<rparr> else w)
              | Err e \<Rightarrow> Ok w
              | Panic q \<Rightarrow> Panic q
              | Hang \<Rightarrow> Hang)
         | FReturn (Panic q) \<Rightarrow> Panic q
         | FReturn Hang \<Rightarrow> Hang))"

section \<open>What a finished fetch has received\<close>

lemma isDone_iff: "isDone pieces \<longleftrightarrow> (\<forall>p \<in> set pieces. p \<noteq> [])"
  by (induction pieces) auto

lemma or_stop_Stop:
  "or_stop r f = Stop (FReturn (Ok out)) \<longleftrightarrow> (\<exists>x. r = Ok x \<and> f x = Stop (FReturn (Ok out)))"
  by (cases r) (auto simp: or_stop_def)

text \<open>The length of piece \<open>i\<close> of metadata of a given size that the checks let through.\<close>

definition piece_length :: "int \<Rightarrow> nat \<Rightarrow> int" where
  "piece_length msize i = (if int i = total_pieces msize - 1 then msize smod BlockSize else BlockSize)"

text \<open>
  Between two messages the buffer is empty, and of every piece there is either nothing or the
  right number of bytes.
\<close>

definition fetch_inv :: "fetch_state \<Rightarrow> bool" where
  "fetch_inv st \<longleftrightarrow> fs_data st = [] \<and>
     (case fs_pieces st of
        None \<Rightarrow> True
      | Some ps \<Rightarrow> fs_metadataSize st \<le> MaxMetadataSize \<and>
          fs_totalPieces st = total_pieces (fs_metadataSize st) \<and> int (length ps) = fs_totalPieces st \<and>
          (\<forall>i < length ps. ps ! i \<noteq> [] \<longrightarrow> int (length (ps ! i)) = piece_length (fs_metadataSize st) i))"

lemma on_ext_handshake_inv:
  assumes "on_ext_handshake dec enc st payload = More st'" "fs_data st = []"
  shows "fetch_inv st'"
  using assms
  by (auto simp: on_ext_handshake_def or_stop_More Let_def fetch_inv_def getUTMetaSize_def and_then_Ok_iff
      split: if_splits outcome.splits)

text \<open>A piece that passes the checks has the length it should have.\<close>

lemma on_metadata_piece:
  assumes inv: "fetch_inv st" "fs_pieces st = Some ps" and len: "len = int (length payload) + 2"
    and range: "0 \<le> index" "index \<le> int (length payload)" "0 \<le> piece" "piece < int (length ps)"
    and checks: "\<not> (1 < fs_totalPieces st \<and> piece \<noteq> fs_totalPieces st - 1 \<and> wrap64 (len - 2 - index) \<noteq> BlockSize)"
      "\<not> (piece = fs_totalPieces st - 1 \<and> wrap64 (len - 2 - index) \<noteq> fs_metadataSize st smod BlockSize)"
    and small: "len < 2 ^ 32"
  shows "int (length (drop (nat index) payload)) = piece_length (fs_metadataSize st) (nat piece)"
proof -
  have "in_int64 (len - 2 - index)" using len range small by (simp add: in_int64_def)
  then have w: "wrap64 (len - 2 - index) = int (length (drop (nat index) payload))"
    using len range by (simp add: wrap64_id)
  have total: "fs_totalPieces st = total_pieces (fs_metadataSize st)" "int (length ps) = fs_totalPieces st"
    using inv by (simp_all add: fetch_inv_def)
  with range have "1 < fs_totalPieces st \<or> piece = fs_totalPieces st - 1" by linarith
  with checks w total range show ?thesis by (auto simp: piece_length_def)
qed

lemma on_metadata_pieces_inv:
  assumes inv: "fetch_inv st" "fs_pieces st = Some ps"
    and "int (length (drop k payload)) = piece_length (fs_metadataSize st) i" "i < length ps"
  shows "fetch_inv (st\<lparr>fs_pieces := Some (ps[i := drop k payload])\<rparr>)"
  using assms by (auto simp: fetch_inv_def nth_list_update)

lemma on_metadata_inv:
  assumes inv: "fetch_inv st" and len: "len = int (length payload) + 2" "len < 2 ^ 32"
    and more: "on_metadata dec st len payload = More st'"
  shows "fetch_inv st'"
proof (cases "fs_pieces st")
  case None
  with more show ?thesis by (simp add: on_metadata_def)
next
  case (Some ps)
  with more inv show ?thesis
    using on_metadata_pieces_inv [OF inv Some] on_metadata_piece [OF inv Some len(1) _ _ _ _ _ _ len(2)]
    by (fastforce simp: on_metadata_def or_stop_More Let_def split: if_splits)
qed

lemma fetch_message_inv:
  assumes inv: "fetch_inv st" and more: "fetch_message dec enc st = More st'"
  shows "fetch_inv st'"
proof -
  have data: "fs_data st = []" using inv by (simp add: fetch_inv_def)
  from more obtain len conn d where rm: "readMessage (fs_conn st) [] = Ok (len, conn, d)"
    by (auto simp: fetch_message_def or_stop_More data)
  note len = readMessage_len [OF rm]
  have inv': "fetch_inv (st\<lparr>fs_conn := conn, fs_data := []\<rparr>)" using inv by (simp add: fetch_inv_def split: option.splits)
  have md: "fetch_inv st'" if "d = t # x # payload"
    "on_metadata dec (st\<lparr>fs_conn := conn, fs_data := []\<rparr>) len payload = More st'" for t x payload
    using on_metadata_inv [OF inv' _ _ that(2)] len that(1) by simp
  show ?thesis
    using more rm inv' len md
    by (fastforce simp: fetch_message_def or_stop_More data Let_def ReadByte_def
        split: if_splits list.splits dest: on_ext_handshake_inv)
qed

lemma smod_pos:
  assumes "0 < msize smod BlockSize"
  shows "0 < msize \<and> msize smod BlockSize = msize mod BlockSize \<and> msize sdiv BlockSize = msize div BlockSize"
proof -
  have "0 < msize"
  proof (rule ccontr)
    assume "\<not> 0 < msize"
    then have "msize smod BlockSize \<le> 0"
      by (cases "msize = 0") (simp_all add: signed_modulo_int_def signed_divide_int_def BlockSize_def sgn_if)
    with assms show False by simp
  qed
  then show ?thesis by (simp add: signed_modulo_int_def signed_divide_int_def BlockSize_def minus_div_mult_eq_mod)
qed

lemma sum_list_const: "(\<And>x. x \<in> set xs \<Longrightarrow> f x = c) \<Longrightarrow> sum_list (map f xs) = length xs * (c :: nat)"
  by (induction xs) simp_all

text \<open>When every piece is there, the pieces make up the announced size, which is no multiple of a block.\<close>

lemma pieces_complete:
  assumes inv: "fetch_inv st" "fs_pieces st = Some ps" and "isDone ps" "ps \<noteq> []"
  shows "0 < fs_metadataSize st \<and> fs_metadataSize st \<le> MaxMetadataSize \<and>
    fs_metadataSize st mod BlockSize \<noteq> 0 \<and> int (length (concat ps)) = fs_metadataSize st"
proof -
  let ?m = "fs_metadataSize st"
  have max: "?m \<le> MaxMetadataSize" and total: "int (length ps) = total_pieces ?m"
    using inv by (auto simp: fetch_inv_def)
  have pl: "int (length (ps ! i)) = piece_length ?m i" if "i < length ps" for i
    using inv assms(3) that by (auto simp: fetch_inv_def isDone_iff)
  let ?l = "length ps - 1"
  have l: "?l < length ps" "int ?l = total_pieces ?m - 1"
    using assms(4) total [symmetric] by (simp_all add: Suc_le_eq of_nat_diff)
  then have last: "int (length (last ps)) = ?m smod BlockSize"
    using pl [of ?l] assms(4) by (simp add: piece_length_def last_conv_nth)
  moreover have "last ps \<noteq> []" using assms(3,4) by (simp add: isDone_iff)
  ultimately have "0 < ?m smod BlockSize" by (metis length_greater_0_conv of_nat_0_less_iff)
  note sm = smod_pos [OF this]
  have "length (butlast ps ! i) = 16384" if "i < ?l" for i
    using pl [of i] that l by (simp add: piece_length_def nth_butlast BlockSize_def)
  then have "\<forall>p \<in> set (butlast ps). length p = 16384" by (auto simp: in_set_conv_nth)
  then have "length (concat (butlast ps)) = ?l * 16384"
    by (simp add: length_concat sum_list_const)
  moreover have "concat ps = concat (butlast ps) @ last ps"
    using assms(4) by (metis append_butlast_last_id concat.simps concat_append append_Nil2)
  moreover have "int ?l = ?m div BlockSize"
    using l(2) sm \<open>0 < ?m smod BlockSize\<close> by (simp add: total_pieces_def)
  ultimately have "int (length (concat ps)) = ?m div BlockSize * BlockSize + ?m mod BlockSize"
    using last sm by (simp add: BlockSize_def)
  with max sm \<open>0 < ?m smod BlockSize\<close> show ?thesis by (simp add: div_mult_mod_eq)
qed

lemma fetch_message_done:
  assumes inv: "fetch_inv st" and stop: "fetch_message dec enc st = Stop (FReturn (Ok out))"
  shows "\<exists>msize. 0 < msize \<and> msize \<le> MaxMetadataSize \<and> msize mod BlockSize \<noteq> 0 \<and> int (length out) = msize"
proof -
  have data: "fs_data st = []" using inv by (simp add: fetch_inv_def)
  have no_ext: "on_ext_handshake dec enc s payload \<noteq> Stop (FReturn (Ok out))" for s payload
    by (auto simp: on_ext_handshake_def or_stop_Stop Let_def split: outcome.splits)
  from stop obtain len conn t x payload where rm: "readMessage (fs_conn st) [] = Ok (len, conn, t # x # payload)"
    and md: "on_metadata dec (st\<lparr>fs_conn := conn, fs_data := []\<rparr>) len payload = Stop (FReturn (Ok out))"
    using no_ext
    by (auto simp: fetch_message_def or_stop_Stop data Let_def ReadByte_def split: if_splits list.splits)
  let ?st = "st\<lparr>fs_conn := conn, fs_data := []\<rparr>"
  have inv': "fetch_inv ?st" using inv by (simp add: fetch_inv_def split: option.splits)
  have len: "len = int (length payload) + 2" "len < 2 ^ 32" using readMessage_len [OF rm] by auto
  from md obtain ps where ps: "fs_pieces ?st = Some ps" by (auto simp: on_metadata_def split: option.splits)
  from md ps obtain index piece where
    checks: "\<not> (1 < fs_totalPieces ?st \<and> piece \<noteq> fs_totalPieces ?st - 1 \<and> wrap64 (len - 2 - index) \<noteq> BlockSize)"
      "\<not> (piece = fs_totalPieces ?st - 1 \<and> wrap64 (len - 2 - index) \<noteq> fs_metadataSize ?st smod BlockSize)"
    and range: "0 \<le> index" "index \<le> int (length payload)" "0 \<le> piece" "piece < int (length ps)"
    and fin: "isDone (ps[nat piece := drop (nat index) payload])" "out = concat (ps[nat piece := drop (nat index) payload])"
    by (auto simp: on_metadata_def or_stop_Stop Let_def split: if_splits)
  have "fetch_inv (?st\<lparr>fs_pieces := Some (ps[nat piece := drop (nat index) payload])\<rparr>)"
    using on_metadata_piece [OF inv' ps len(1) range checks len(2)] range
    by (intro on_metadata_pieces_inv [OF inv' ps]) auto
  moreover have "ps[nat piece := drop (nat index) payload] \<noteq> []" using range by auto
  ultimately show ?thesis using pieces_complete [OF _ _ fin(1)] fin(2) by fastforce
qed

lemma fetch_loop_done:
  "fetch_inv st \<Longrightarrow> fetch_loop dec enc st = FReturn (Ok out) \<Longrightarrow>
   \<exists>msize. 0 < msize \<and> msize \<le> MaxMetadataSize \<and> msize mod BlockSize \<noteq> 0 \<and> int (length out) = msize"
proof (induction dec enc st rule: fetch_loop.induct)
  case (1 dec enc st)
  show ?case
  proof (cases "fetch_message dec enc st")
    case (More st')
    with 1 show ?thesis using fetch_message_inv [OF 1(2) More] by (simp add: fetch_loop.simps [of dec enc st])
  next
    case (Stop r)
    with 1 fetch_message_done [OF 1(2)] show ?thesis by (simp add: fetch_loop.simps [of dec enc st])
  qed
qed

section \<open>A peer that serves the metadata\<close>

text \<open>The metadata in blocks, as BEP 9 cuts it, and the message that carries one of them.\<close>

definition md_block :: "byte list \<Rightarrow> nat \<Rightarrow> byte list" where
  "md_block md i = take 16384 (drop (i * 16384) md)"

definition piece_frame :: "byte \<Rightarrow> (nat \<Rightarrow> byte list) \<Rightarrow> byte list \<Rightarrow> nat \<Rightarrow> byte list" where
  "piece_frame x hdr md i = sendMessage (MsgExtended # x # hdr i @ md_block md i)"

text \<open>
  What the worker relies on of the decoder: the header of message \<open>i\<close> decodes, whatever follows it, to a
  dictionary that announces piece \<open>i\<close>, and the index returned is where the header ends.
\<close>

definition honest_headers :: "dict_decoder \<Rightarrow> (nat \<Rightarrow> byte list) \<Rightarrow> byte list \<Rightarrow> nat \<Rightarrow> bool" where
  "honest_headers dec hdr md k \<longleftrightarrow>
     (\<forall>i < k. length (hdr i) < 2 ^ 31 \<and>
        (\<exists>d. dec (hdr i @ md_block md i) 0 = Ok (d, int (length (hdr i))) \<and>
             GetInt d ''msg_type'' = Ok MsgData \<and> GetInt d ''piece'' = Ok (int i)))"

definition block_count :: "byte list \<Rightarrow> nat" where
  "block_count md = (length md + 16383) div 16384"

lemma md_block_full: "Suc i < block_count md \<Longrightarrow> length (md_block md i) = 16384"
  by (simp add: md_block_def block_count_def)

lemma block_count_pos: "md \<noteq> [] \<Longrightarrow> 0 < block_count md"
  by (cases md) (simp_all add: block_count_def)

lemma md_block_last:
  assumes "Suc i = block_count md"
  shows "length (md_block md i) = (if length md mod 16384 = 0 then 16384 else length md mod 16384)"
proof -
  have *: "Suc i * 16384 \<le> length md + 16383" "length md < Suc i * 16384 + 1"
    using assms by (simp_all add: block_count_def)
  show ?thesis
  proof (cases "length md = Suc i * 16384")
    case False
    define r where "r = length md - i * 16384"
    from False * have r: "length md = i * 16384 + r" "0 < r" "r < 16384" by (simp_all add: r_def)
    then have "length md mod 16384 = r" by simp
    with r show ?thesis by (simp add: md_block_def)
  qed (simp add: md_block_def)
qed

lemma total_pieces_count: "total_pieces (int (length md)) = int (block_count md)"
proof -
  have "int (length md) sdiv BlockSize = int (length md div 16384)"
    "int (length md) smod BlockSize = int (length md mod 16384)"
    by (simp_all add: signed_modulo_int_def signed_divide_int_def BlockSize_def zdiv_int zmod_int sgn_if
        minus_div_mult_eq_mod)
  moreover have "(length md + 16383) div 16384 =
      (if length md mod 16384 \<noteq> 0 then length md div 16384 + 1 else length md div 16384)"
    using div_add1_eq [of "length md" 16383 16384] by (cases "length md mod 16384 = 0") auto
  ultimately show ?thesis by (simp add: total_pieces_def block_count_def)
qed

lemma smod_length: "int (length md) smod BlockSize = int (length md mod 16384)"
  by (simp add: signed_modulo_int_def signed_divide_int_def BlockSize_def zmod_int sgn_if minus_div_mult_eq_mod)

lemma concat_blocks: "concat (map (md_block md) [0..<k]) = take (k * 16384) md"
  by (induction k) (simp_all add: md_block_def take_add [symmetric] add.commute)

lemma concat_all_blocks: "concat (map (md_block md) [0..<block_count md]) = md"
  unfolding concat_blocks block_count_def by (simp add: take_all_iff)

lemma update_next_piece:
  assumes "j < k"
  shows "(map f [0..<j] @ replicate (k - j) [])[j := f j] = map f [0..<Suc j] @ replicate (k - Suc j) []"
  using assms by (simp add: list_update_append Suc_diff_Suc [symmetric, of j k])

text \<open>One message of such a peer.\<close>

lemma fetch_message_piece:
  assumes h: "honest_headers dec hdr md k" and k: "k = block_count md" and j: "j < k" and x: "x \<noteq> 0"
    and st: "fs_conn st = piece_frame x hdr md j @ rest" "fs_data st = []" "fs_totalPieces st = int k"
      "fs_metadataSize st = int (length md)" "fs_pieces st = Some ps" "length ps = k"
  shows "fetch_message dec enc st =
    (if Suc j = k \<and> length md mod 16384 = 0 then Stop (FReturn (Err (IncorrectFinalPiece (int j))))
     else if isDone (ps[j := md_block md j]) then Stop (FReturn (Ok (concat (ps[j := md_block md j]))))
     else More (st\<lparr>fs_conn := rest, fs_pieces := Some (ps[j := md_block md j])\<rparr>))"
proof -
  let ?d = "MsgExtended # x # hdr j @ md_block md j"
  from h j obtain d where hl: "length (hdr j) < 2 ^ 31"
    and dec: "dec (hdr j @ md_block md j) 0 = Ok (d, int (length (hdr j)))"
      "GetInt d ''msg_type'' = Ok MsgData" "GetInt d ''piece'' = Ok (int j)"
    by (auto simp: honest_headers_def)
  have bl: "length (md_block md j) \<le> 16384" by (simp add: md_block_def)
  with hl have "length ?d < 2 ^ 32" by simp
  then have rm: "readMessage (fs_conn st) (fs_data st) = Ok (int (length ?d), rest, ?d)"
    by (simp only: st piece_frame_def readMessage_frame)
  have w: "wrap64 (int (length ?d) - 2 - int (length (hdr j))) = int (length (md_block md j))"
    using bl by (simp add: wrap64_id in_int64_def)
  have full: "int (length (md_block md j)) = BlockSize" if "Suc j \<noteq> k"
    using md_block_full [of j md] that j k by (simp add: BlockSize_def)
  have last: "int (length (md_block md j)) = int (length md) smod BlockSize \<longleftrightarrow> length md mod 16384 \<noteq> 0"
    if "Suc j = k"
    using md_block_last [of j md] that k by (simp add: smod_length)
  have kj: "int j = int k - 1 \<longleftrightarrow> Suc j = k" by auto
  have pre: "fetch_message dec enc st =
      on_metadata dec (st\<lparr>fs_conn := rest, fs_data := []\<rparr>) (int (length ?d)) (hdr j @ md_block md j)"
    using x by (simp add: fetch_message_def rm or_stop_def ReadByte_def)
  show ?thesis
    unfolding pre on_metadata_def
    using j st w full last by (cases "Suc j = k") (simp_all add: or_stop_def dec Let_def kj)
qed

lemma isDone_replicate: "j < k \<Longrightarrow> \<not> isDone (xs @ replicate (k - j) [])"
  by (simp add: isDone_iff)

lemma md_block_nonempty: "i < block_count md \<Longrightarrow> md_block md i \<noteq> []"
  by (auto simp: md_block_def block_count_def)

lemma fetch_pieces_from:
  assumes h: "honest_headers dec hdr md k" and k: "k = block_count md" and x: "x \<noteq> 0"
  shows "j < k \<Longrightarrow> fs_conn st = concat (map (piece_frame x hdr md) [j..<k]) @ junk \<Longrightarrow> fs_data st = [] \<Longrightarrow>
    fs_totalPieces st = int k \<Longrightarrow> fs_metadataSize st = int (length md) \<Longrightarrow>
    fs_pieces st = Some (map (md_block md) [0..<j] @ replicate (k - j) []) \<Longrightarrow>
    fetch_loop dec enc st =
      FReturn (if length md mod 16384 = 0 then Err (IncorrectFinalPiece (int k - 1)) else Ok md)"
proof (induction "k - j" arbitrary: j st)
  case (Suc n)
  let ?rest = "concat (map (piece_frame x hdr md) [Suc j..<k]) @ junk"
  let ?ps = "map (md_block md) [0..<j] @ replicate (k - j) []"
  let ?qs = "map (md_block md) [0..<Suc j] @ replicate (k - Suc j) []"
  have conn: "fs_conn st = piece_frame x hdr md j @ ?rest"
    using Suc.prems by (simp add: upt_conv_Cons)
  have "length ?ps = k" using Suc.prems(1) by simp
  note step = fetch_message_piece [OF h k Suc.prems(1) x conn Suc.prems(3-6) this, of enc,
      unfolded update_next_piece [OF Suc.prems(1)]]
  show ?case
  proof (cases "Suc j = k")
    case True
    then have "isDone ?qs \<and> concat ?qs = md"
      using md_block_nonempty k by (auto simp: isDone_iff concat_all_blocks simp del: upt_Suc)
    with step True show ?thesis by (auto simp: fetch_loop.simps [of dec enc st] simp del: upt_Suc)
  next
    case False
    then have "Suc j < k" using Suc.prems(1) by simp
    with step have "fetch_message dec enc st = More (st\<lparr>fs_conn := ?rest, fs_pieces := Some ?qs\<rparr>)"
      by (simp add: isDone_replicate del: upt_Suc replicate.simps)
    moreover have "fetch_loop dec enc (st\<lparr>fs_conn := ?rest, fs_pieces := Some ?qs\<rparr>) =
        FReturn (if length md mod 16384 = 0 then Err (IncorrectFinalPiece (int k - 1)) else Ok md)"
      using Suc.hyps(2) Suc.prems \<open>Suc j < k\<close> by (intro Suc.hyps(1) [of "Suc j"]) (simp_all del: upt_Suc)
    ultimately show ?thesis by (simp only: fetch_loop.simps [of dec enc st] fetch_next.case)
  qed
qed simp

lemma requestPieces_Ok:
  assumes "\<forall>d. \<exists>m. enc d = Ok m \<and> length m \<le> 1022"
  shows "\<exists>ms. requestPieces enc u k i = Ok ms"
proof (induction "nat (k - i)" arbitrary: i)
  case (Suc n)
  then have "\<exists>ms. requestPieces enc u k (i + 1) = Ok ms" by simp
  moreover from assms obtain m where "enc [(''msg_type'', GInt MsgRequest), (''piece'', GInt i)] = Ok m"
    "length m \<le> 1022" by blast
  ultimately show ?case using Suc.hyps(2)
    by (auto simp: requestPieces.simps [of enc u k i] request_piece_def)
qed (simp add: requestPieces.simps [of enc u k])

text \<open>The whole conversation with such a peer, from the dial to the last piece.\<close>

definition honest_stream ::
    "byte list \<Rightarrow> byte list \<Rightarrow> byte \<Rightarrow> (nat \<Rightarrow> byte list) \<Rightarrow> byte list \<Rightarrow> byte list \<Rightarrow> byte list" where
  "honest_stream reply hs x hdr md junk =
     reply @ sendMessage (MsgExtended # 0 # hs) @
     concat (map (piece_frame x hdr md) [0..<block_count md]) @ junk"

lemma fetch_message_handshake:
  assumes "fs_conn st = sendMessage (MsgExtended # 0 # hs) @ rest" "fs_data st = []" "fs_pieces st = None"
    and "getUTMetaSize dec hs = Ok (u, int (length md))" "length hs < 2 ^ 31"
    and "\<forall>d. \<exists>m. enc d = Ok m \<and> length m \<le> 1022"
  shows "\<exists>sent. fetch_message dec enc st =
    More (st\<lparr>fs_conn := rest, fs_data := [], fs_utMetadata := u, fs_metadataSize := int (length md),
             fs_totalPieces := int (block_count md),
             fs_pieces := Some (replicate (block_count md) []), fs_sent := sent\<rparr>)"
proof -
  have "length (MsgExtended # 0 # hs) < 2 ^ 32" using assms(5) by simp
  note rm = readMessage_frame [OF this, of rest]
  from requestPieces_Ok [OF assms(6)] obtain ms where
    ms: "requestPieces enc u (int (block_count md)) 0 = Ok ms" by blast
  have "on_ext_handshake dec enc (st\<lparr>fs_conn := rest, fs_data := []\<rparr>) hs =
    More (st\<lparr>fs_conn := rest, fs_data := [], fs_utMetadata := u, fs_metadataSize := int (length md),
             fs_totalPieces := int (block_count md),
             fs_pieces := Some (replicate (block_count md) []), fs_sent := fs_sent st @ ms\<rparr>)"
    using assms(3,4) by (simp add: on_ext_handshake_def or_stop_def total_pieces_count ms)
  then show ?thesis
    using rm assms(1,2) by (auto simp: fetch_message_def or_stop_def ReadByte_def intro!: exI [of _ "fs_sent st @ ms"])
qed

lemma fetch_honest:
  assumes md: "md \<noteq> []"
    and dial: "dial (UDPAddr_String (p_Addr p)) =
      Ok \<lparr>pc_in = honest_stream reply hs x hdr md junk, pc_handshake_err = None, pc_ext_err = None\<rparr>"
    and reply: "length reply = 68" "onHandshake reply = Ok ()"
    and hs: "getUTMetaSize dec hs = Ok (u, int (length md))" "length hs < 2 ^ 31"
    and h: "honest_headers dec hdr md (block_count md)" and x: "x \<noteq> 0"
    and enc: "\<forall>d. \<exists>m. enc d = Ok m \<and> length m \<le> 1022"
  shows "fetch_body dec enc dial self p =
    FReturn (if length md mod 16384 = 0 then Err (IncorrectFinalPiece (int (block_count md) - 1)) else Ok md)"
proof -
  from enc obtain ext where ext: "sendExtHandshake enc = Ok ext"
    unfolding sendExtHandshake_def by (metis and_then.simps(1))
  let ?rest = "concat (map (piece_frame x hdr md) [0..<block_count md]) @ junk"
  let ?st = "fetch_init (sendMessage (MsgExtended # 0 # hs) @ ?rest) [] [sendHandshake (p_Infohash p) self, ext]"
  have body: "fetch_body dec enc dial self p = fetch_loop dec enc ?st"
    by (simp add: fetch_body_def dial read_conn_def honest_stream_def reply ext)
  obtain sent where "fetch_message dec enc ?st =
    More (?st\<lparr>fs_conn := ?rest, fs_data := [], fs_utMetadata := u, fs_metadataSize := int (length md),
              fs_totalPieces := int (block_count md),
              fs_pieces := Some (replicate (block_count md) []), fs_sent := sent\<rparr>)" (is "_ = More ?st'")
    using fetch_message_handshake [OF _ _ _ hs enc, of ?st ?rest] by (auto simp: fetch_init_def)
  moreover have "fetch_loop dec enc ?st' =
    FReturn (if length md mod 16384 = 0 then Err (IncorrectFinalPiece (int (block_count md) - 1)) else Ok md)"
    using block_count_pos [OF md]
    by (intro fetch_pieces_from [OF h refl x, where j = 0 and junk = junk]) (simp_all add: fetch_init_def)
  ultimately show ?thesis unfolding body fetch_loop.simps [of dec enc ?st] by simp
qed

section \<open>Rounds of a worker\<close>

text \<open>\<^verbatim>\<open>Run\<close> for a sequence of peers, each with the identifier drawn for its handshake.\<close>

fun worker_run ::
    "dict_decoder \<Rightarrow> dict_encoder \<Rightarrow> (string \<Rightarrow> peer_conn outcome) \<Rightarrow> worker \<Rightarrow> (infohash \<times> Peer) list \<Rightarrow>
     worker outcome" where
  "worker_run dec enc dial w [] = Ok w"
| "worker_run dec enc dial w ((self, p) # work) =
     and_then (worker_round dec enc dial self w p) (\<lambda>w. worker_run dec enc dial w work)"

lemma fetch_body_Ok:
  assumes "fetch_body dec enc dial self p = FReturn (Ok out)"
  shows "0 < length out \<and> int (length out) \<le> MaxMetadataSize \<and> int (length out) mod BlockSize \<noteq> 0"
proof -
  from assms obtain conn sent where "fetch_loop dec enc (fetch_init conn [] sent) = FReturn (Ok out)"
    by (auto simp: fetch_body_def and_then_Ok_iff read_conn_Ok split: outcome.splits)
  moreover have "fetch_inv (fetch_init conn [] sent)" by (simp add: fetch_inv_def fetch_init_def)
  ultimately show ?thesis using fetch_loop_done by fastforce
qed

lemma fetchMetadata_Ok:
  "fetchMetadata dec enc dial self p = FReturn (Ok out) \<longleftrightarrow>
     fetch_body dec enc dial self p = FReturn (Ok out) \<or>
     out = [] \<and> (\<exists>q. fetch_body dec enc dial self p = FReturn (Panic q))"
  by (auto simp: fetchMetadata_def split: fetch_result.splits outcome.splits)

lemma fetchMetadata_no_Panic: "fetchMetadata dec enc dial self p \<noteq> FReturn (Panic q)"
  by (simp add: fetchMetadata_def split: fetch_result.splits outcome.splits)

text \<open>What one round can change.\<close>

lemma worker_round_cases:
  assumes "worker_round dec enc dial self w p = Ok w'"
  obtains "w' = w"
  | "w' = w\<lparr>w_bad := w_bad w @ [p]\<rparr>"
  | t md where "w' = w\<lparr>w_torrents := w_torrents w @ [t]\<rparr>" "TorrentFromMetadata dec (p_Infohash p) md = Ok t"
      "fetchMetadata dec enc dial self p = FReturn (Ok md)"
  using assms by (fastforce simp: worker_round_def split: if_splits fetch_result.splits outcome.splits)

lemma TorrentFromMetadata_Ok_hash:
  assumes "TorrentFromMetadata dec ih md = Ok t"
  shows "ih = sha1_sum md \<and> t_Infohash t = ih"
proof -
  from assms obtain info idx name where "ih = sha1_sum md" "dec md 0 = Ok (info, idx)" "GetString info ''name'' = Ok name"
    by (auto simp only: TorrentFromMetadata_def InfohashMatchesMetadata_def and_then_Ok_iff case_prod_beta
        fst_conv split: if_splits)
  with assms show ?thesis
    by (cases "GetList info ''files''"; cases "GetInt info ''length''")
      (auto simp: TorrentFromMetadata_def InfohashMatchesMetadata_def and_then_Ok_iff)
qed

text \<open>A torrent that comes from metadata one of the peers sent and that hashes to the infohash asked for.\<close>

definition fetched_from ::
    "dict_decoder \<Rightarrow> dict_encoder \<Rightarrow> (string \<Rightarrow> peer_conn outcome) \<Rightarrow> (infohash \<times> Peer) set \<Rightarrow> Torrent \<Rightarrow> bool" where
  "fetched_from dec enc dial W t \<longleftrightarrow>
     (\<exists>(self, p) \<in> W. \<exists>md. fetchMetadata dec enc dial self p = FReturn (Ok md) \<and>
        t_Infohash t = p_Infohash p \<and> p_Infohash p = sha1_sum md)"

lemma fetched_from_mono: "fetched_from dec enc dial W t \<Longrightarrow> W \<subseteq> V \<Longrightarrow> fetched_from dec enc dial V t"
  by (auto simp: fetched_from_def)

lemma worker_run_torrents:
  "worker_run dec enc dial w work = Ok w' \<Longrightarrow>
   \<exists>ts bs. w_torrents w' = w_torrents w @ ts \<and> w_bad w' = w_bad w @ bs \<and>
     (\<forall>t \<in> set ts. fetched_from dec enc dial (set work) t) \<and> set bs \<subseteq> snd ` set work"
proof (induction dec enc dial w work rule: worker_run.induct)
  case (2 dec enc dial w self p work)
  from 2(2) obtain v where v: "worker_round dec enc dial self w p = Ok v" "worker_run dec enc dial v work = Ok w'"
    by (auto simp: and_then_Ok_iff)
  let ?W = "set ((self, p) # work)"
  from 2(1) [OF v] obtain ts bs where IH: "w_torrents w' = w_torrents v @ ts" "w_bad w' = w_bad v @ bs"
    "\<forall>t \<in> set ts. fetched_from dec enc dial (set work) t" "set bs \<subseteq> snd ` set work"
    by blast
  from IH(3) have ts: "\<forall>t \<in> set ts. fetched_from dec enc dial ?W t"
    by (auto intro: fetched_from_mono)
  from v(1) show ?case
  proof (cases rule: worker_round_cases)
    case 1
    with IH ts show ?thesis by (intro exI [of _ ts] exI [of _ bs]) auto
  next
    case 2
    with IH ts show ?thesis by (intro exI [of _ ts] exI [of _ "p # bs"]) auto
  next
    case (3 t md)
    with TorrentFromMetadata_Ok_hash [OF 3(2)] have "fetched_from dec enc dial ?W t"
      by (auto simp: fetched_from_def)
    with IH ts 3 show ?thesis by (intro exI [of _ "t # ts"] exI [of _ bs]) auto
  qed
qed simp

section \<open>How long a fetch takes\<close>

text \<open>The loop of \<^verbatim>\<open>fetchMetadata\<close> with a bound on its turns.\<close>

fun fetch_turns :: "nat \<Rightarrow> dict_decoder \<Rightarrow> dict_encoder \<Rightarrow> fetch_state \<Rightarrow> fetch_result option" where
  "fetch_turns 0 dec enc st = None"
| "fetch_turns (Suc k) dec enc st =
     (case fetch_message dec enc st of More st' \<Rightarrow> fetch_turns k dec enc st' | Stop r \<Rightarrow> Some r)"

text \<open>C28: a fetch ends whatever the peer sends: every message takes its four bytes of length from the
  connection, so the loop of \<^verbatim>\<open>fetchMetadata\<close> makes at most one turn per four bytes that arrive, and
  one more.\<close>

theorem fetch_terminates:
  assumes "length (fs_conn st) div 4 < k"
  shows "fetch_turns k dec enc st = Some (fetch_loop dec enc st)"
  using assms
proof (induction k arbitrary: st)
  case (Suc k)
  show ?case
  proof (cases "fetch_message dec enc st")
    case (More st')
    from fetch_message_consumes [OF More] Suc.prems have "length (fs_conn st') div 4 < k" by linarith
    with Suc.IH More show ?thesis by (simp add: fetch_loop.simps [of dec enc st])
  qed (simp add: fetch_loop.simps [of dec enc st])
qed simp

section \<open>Properties\<close>





text \<open>C29: what \<^verbatim>\<open>fetchMetadata\<close> returns without an error is either nothing, and then a panic was
  recovered, or a positive number of bytes, at most 1000 blocks and never a multiple of a block.\<close>

theorem fetchMetadata_bounds:
  assumes "fetchMetadata dec enc dial self p = FReturn (Ok out)"
  shows "if out = [] then \<exists>q. fetch_body dec enc dial self p = FReturn (Panic q)
    else 0 < length out \<and> length out \<le> 16384000 \<and> length out mod 16384 \<noteq> 0"
proof -
  have "0 < length out \<and> length out \<le> 16384000 \<and> length out mod 16384 \<noteq> 0"
    if "fetch_body dec enc dial self p = FReturn (Ok out)"
  proof -
    have "int (length out mod 16384) = int (length out) mod BlockSize" by (simp add: BlockSize_def zmod_int)
    with fetch_body_Ok [OF that] show ?thesis by (auto simp: MaxMetadataSize_def BlockSize_def)
  qed
  with assms show ?thesis by (auto simp: fetchMetadata_Ok)
qed

section \<open>A sample conversation\<close>

text \<open>
  A decoder for the concrete applications: one dictionary that serves as handshake, header and
  metadata, ending \<open>n\<close> bytes before the end of the data, and a peer at a fixed address.
\<close>

definition sample_dict :: "int \<Rightarrow> dict" where
  "sample_dict n =
     [(''m'', GMap [(''ut_metadata'', GInt64 3)]), (''metadata_size'', GInt64 n), (''msg_type'', GInt64 1),
      (''piece'', GInt64 0), (''name'', GStr ''a''), (''length'', GInt64 5)]"

definition sample_dec :: "int \<Rightarrow> dict_decoder" where
  "sample_dec n bs i = Ok (sample_dict n, int (length bs) - n)"

definition sample_enc :: dict_encoder where
  "sample_enc d = Ok [100, 101]"

definition sample_reply :: "byte list" where
  "sample_reply = sendHandshake (replicate 20 1) (replicate 20 2)"

definition sample_dial :: "byte list \<Rightarrow> string \<Rightarrow> peer_conn outcome" where
  "sample_dial bs addr = Ok \<lparr>pc_in = bs, pc_handshake_err = None, pc_ext_err = None\<rparr>"

definition sample_peer :: "infohash \<Rightarrow> Peer" where
  "sample_peer ih = mkPeer \<lparr>addr_IP = [1, 2, 3, 4], addr_Port = 80, addr_Zone = []\<rparr> ih"

definition sample_worker :: worker where
  "sample_worker = \<lparr>w_port = 6881, w_family = [], w_OnNewTorrent = True, w_OnBadPeer = True, w_log = True,
     w_torrents = [], w_bad = []\<rparr>"

lemma sample_handshake: "length sample_reply = 68" "onHandshake sample_reply = Ok ()"
proof -
  have "Infohash_Valid (replicate 20 1)" "Infohash_Valid (replicate 20 2)" by (simp_all add: Infohash_Valid_def)
  from sendHandshake_valid [OF this] show "length sample_reply = 68" "onHandshake sample_reply = Ok ()"
    unfolding sample_reply_def by blast+
qed

lemma sample_size: "n \<le> MaxMetadataSize \<Longrightarrow> getUTMetaSize (sample_dec n) hs = Ok (3, n)"
  by (simp add: getUTMetaSize_def sample_dec_def sample_dict_def krpc_get)

lemma sample_headers:
  "0 < n \<Longrightarrow> n \<le> 16384 \<Longrightarrow> honest_headers (sample_dec (int n)) (\<lambda>i. [9]) (replicate n b) (block_count (replicate n b))"
  by (auto simp: honest_headers_def block_count_def md_block_def sample_dec_def sample_dict_def krpc_get
      MsgData_def less_Suc_eq)

lemma sample_encodes: "\<forall>d. \<exists>m. sample_enc d = Ok m \<and> length m \<le> 1022"
  by (simp add: sample_enc_def)

lemmas sample_conversation = sample_handshake sample_encodes

lemma sample_torrent: "\<exists>t. TorrentFromMetadata (sample_dec n) (sha1_sum md) md = Ok t \<and> t_Name t = ''a''"
  by (simp add: TorrentFromMetadata_def InfohashMatchesMetadata_def sample_dec_def sample_dict_def krpc_get)



lemma sample_fetch:
  assumes "0 < n" "n \<le> 16384"
  shows "fetch_body (sample_dec (int n)) sample_enc
      (sample_dial (honest_stream sample_reply [7] 2 (\<lambda>i. [9]) (replicate n 42) junk)) self p =
    FReturn (if n mod 16384 = 0 then Err (IncorrectFinalPiece (int (block_count (replicate n (42 :: byte))) - 1))
             else Ok (replicate n 42))"
proof -
  let ?md = "replicate n (42 :: byte)"
  have "getUTMetaSize (sample_dec (int n)) [7] = Ok (3, int (length ?md))"
    using assms by (simp add: sample_size MaxMetadataSize_def BlockSize_def)
  with sample_headers [OF assms, of 42] sample_conversation assms(1) show ?thesis
    using fetch_honest [where md = ?md and reply = sample_reply and hs = "[7]" and x = 2 and hdr = "\<lambda>i. [9]"
        and junk = junk and dec = "sample_dec (int n)" and enc = sample_enc
        and dial = "sample_dial (honest_stream sample_reply [7] 2 (\<lambda>i. [9]) ?md junk)" and p = p and u = 3
        and self = self]
    by (simp add: sample_dial_def)
qed

text \<open>A peer that announces a negative size makes the allocation of the pieces panic.\<close>

lemma sample_panic:
  "fetch_body (sample_dec (- 16384)) sample_enc (sample_dial (sample_reply @ sendMessage [MsgExtended, 0, 7])) self p =
     FReturn (Panic MakeSliceLength)"
proof -
  have "readMessage (sendMessage [MsgExtended, 0, 7]) [] = Ok (3, [], [MsgExtended, 0, 7])"
    using readMessage_frame [of "[MsgExtended, 0, 7]" "[]"] by simp
  then have "fetch_message (sample_dec (- 16384)) sample_enc (fetch_init (sendMessage [MsgExtended, 0, 7]) [] sent) =
      Stop (FReturn (Panic MakeSliceLength))" for sent
    by (simp add: fetch_message_def fetch_init_def or_stop_def ReadByte_def on_ext_handshake_def sample_size
        MaxMetadataSize_def BlockSize_def total_pieces_def signed_divide_int_def signed_modulo_int_def)
  then have "fetch_loop (sample_dec (- 16384)) sample_enc (fetch_init (sendMessage [MsgExtended, 0, 7]) [] sent) =
      FReturn (Panic MakeSliceLength)" for sent
    by (simp add: fetch_loop.simps [of _ _ "fetch_init _ _ _"])
  then show ?thesis
    by (simp add: fetch_body_def sample_dial_def read_conn_def sample_handshake sendExtHandshake_def sample_enc_def)
qed


theorem fetchMetadata_bounds_witness:
  "fetchMetadata (sample_dec 3) sample_enc
     (sample_dial (honest_stream sample_reply [7] 2 (\<lambda>i. [9]) [42, 42, 42] [])) [] (sample_peer (sha1_sum [])) =
     FReturn (Ok [42, 42, 42]) \<and> 0 < length [42, 42, 42 :: byte] \<and> length [42, 42, 42 :: byte] \<le> 16384000"
proof -
  have "replicate 3 (42 :: byte) = [42, 42, 42]" by (simp add: numeral_3_eq_3)
  then have "fetchMetadata (sample_dec 3) sample_enc
     (sample_dial (honest_stream sample_reply [7] 2 (\<lambda>i. [9]) [42, 42, 42] [])) [] (sample_peer (sha1_sum [])) =
     FReturn (Ok [42, 42, 42])"
    using sample_fetch [of 3 "[]" "[]" "sample_peer (sha1_sum [])"] by (simp add: fetchMetadata_def)
  from this fetchMetadata_bounds [OF this] show ?thesis by simp
qed


theorem fetch_terminates_witness:
  "fetch_turns 3 (sample_dec 1) sample_enc (fetch_init [0, 0, 0, 0, 0, 0, 0, 1] [] []) =
     Some (fetch_loop (sample_dec 1) sample_enc (fetch_init [0, 0, 0, 0, 0, 0, 0, 1] [] []))"
  by (rule fetch_terminates) (simp add: fetch_init_def)

end
