(* ===== verification/Go_Heap.thy ===== *)
theory Go_Heap
  imports Main "HOL-Library.Multiset"
begin

text \<open>
  \<^verbatim>\<open>container/heap\<close> of Go's standard library, over an arbitrary implementation of its interface
  \<^verbatim>\<open>heap.Interface\<close> (\<^verbatim>\<open>Len\<close>, \<^verbatim>\<open>Less\<close>, \<^verbatim>\<open>Swap\<close>, \<^verbatim>\<open>Push\<close>, \<^verbatim>\<open>Pop\<close>). The functions take the
  interface's methods as arguments. The locale \<open>heap_interface\<close> states what the package expects of
  them, over the list of elements they manage, and proves the package correct once; the routing
  table's priority queue interprets it.
\<close>

section \<open>The package\<close>

text \<open>\<^verbatim>\<open>heap.up\<close>: sift the element at \<open>j\<close> towards the root.\<close>

function heap_up :: "('h \<Rightarrow> nat \<Rightarrow> nat \<Rightarrow> bool) \<Rightarrow> ('h \<Rightarrow> nat \<Rightarrow> nat \<Rightarrow> 'h) \<Rightarrow> 'h \<Rightarrow> nat \<Rightarrow> 'h" where
  "heap_up Less Swap h j =
     (if (j - 1) div 2 = j \<or> \<not> Less h j ((j - 1) div 2) then h
      else heap_up Less Swap (Swap h ((j - 1) div 2) j) ((j - 1) div 2))"
  by pat_completeness auto
termination
  by (relation "measure (\<lambda>(Less, Swap, h, j). j)") auto

text \<open>
  \<^verbatim>\<open>heap.down\<close>: sift the element at \<open>i\<close> towards the leaves, among the first \<open>n\<close> positions. It
  returns where the element came to rest; the package's Boolean result is whether that is
  beyond the start. Indices stay far below the point where \<^verbatim>\<open>2*i+1\<close> overflows.
\<close>

function heap_down ::
    "('h \<Rightarrow> nat \<Rightarrow> nat \<Rightarrow> bool) \<Rightarrow> ('h \<Rightarrow> nat \<Rightarrow> nat \<Rightarrow> 'h) \<Rightarrow> 'h \<Rightarrow> nat \<Rightarrow> nat \<Rightarrow> 'h \<times> nat" where
  "heap_down Less Swap h i n =
     (if n \<le> 2 * i + 1 then (h, i)
      else (let j = (if 2 * i + 2 < n \<and> Less h (2 * i + 2) (2 * i + 1) then 2 * i + 2 else 2 * i + 1)
            in if \<not> Less h j i then (h, i) else heap_down Less Swap (Swap h i j) j n))"
  by pat_completeness auto
termination
  by (relation "measure (\<lambda>(Less, Swap, h, i, n). n - i)") auto

declare heap_up.simps [simp del] heap_down.simps [simp del]

definition heap_Push ::
    "('h \<Rightarrow> nat) \<Rightarrow> ('h \<Rightarrow> nat \<Rightarrow> nat \<Rightarrow> bool) \<Rightarrow> ('h \<Rightarrow> nat \<Rightarrow> nat \<Rightarrow> 'h) \<Rightarrow> ('h \<Rightarrow> 'x \<Rightarrow> 'h) \<Rightarrow> 'h \<Rightarrow> 'x \<Rightarrow> 'h"
  where
  "heap_Push Len Less Swap Push h x = (let h' = Push h x in heap_up Less Swap h' (Len h' - 1))"

definition heap_Remove ::
    "('h \<Rightarrow> nat) \<Rightarrow> ('h \<Rightarrow> nat \<Rightarrow> nat \<Rightarrow> bool) \<Rightarrow> ('h \<Rightarrow> nat \<Rightarrow> nat \<Rightarrow> 'h) \<Rightarrow> ('h \<Rightarrow> 'h) \<Rightarrow> 'h \<Rightarrow> nat \<Rightarrow> 'h"
  where
  "heap_Remove Len Less Swap Pop h i =
     (let n = Len h - 1;
          h' = (if n \<noteq> i then
                  (let (h1, k) = heap_down Less Swap (Swap h i n) i n
                   in if i < k then h1 else heap_up Less Swap h1 i)
                else h)
      in Pop h')"

text \<open>\<^verbatim>\<open>heap.Init\<close>: sift down from the last inner position, \<open>m\<close> positions being left.\<close>

fun heap_Init_loop ::
    "('h \<Rightarrow> nat \<Rightarrow> nat \<Rightarrow> bool) \<Rightarrow> ('h \<Rightarrow> nat \<Rightarrow> nat \<Rightarrow> 'h) \<Rightarrow> 'h \<Rightarrow> nat \<Rightarrow> nat \<Rightarrow> 'h" where
  "heap_Init_loop Less Swap h n 0 = h"
| "heap_Init_loop Less Swap h n (Suc m) =
     heap_Init_loop Less Swap (fst (heap_down Less Swap h m n)) n m"

definition heap_Init ::
    "('h \<Rightarrow> nat) \<Rightarrow> ('h \<Rightarrow> nat \<Rightarrow> nat \<Rightarrow> bool) \<Rightarrow> ('h \<Rightarrow> nat \<Rightarrow> nat \<Rightarrow> 'h) \<Rightarrow> 'h \<Rightarrow> 'h" where
  "heap_Init Len Less Swap h = heap_Init_loop Less Swap h (Len h) (Len h div 2)"

section \<open>Heap order on index functions\<close>

text \<open>
  \<open>q k\<close> is the priority at position \<open>k\<close>; only positions below \<open>n\<close> count. \<open>heap_except_up\<close> allows the
  element at \<open>j\<close> to be larger than its parent, \<open>heap_except\<close> allows the element at \<open>i\<close> to be out of
  place in both directions.
\<close>

definition parent :: "nat \<Rightarrow> nat" where
  "parent k = (k - 1) div 2"

definition heap_order :: "(nat \<Rightarrow> int) \<Rightarrow> nat \<Rightarrow> bool" where
  "heap_order q n \<longleftrightarrow> (\<forall>k. 0 < k \<and> k < n \<longrightarrow> q k \<le> q (parent k))"

definition heap_except_up :: "(nat \<Rightarrow> int) \<Rightarrow> nat \<Rightarrow> nat \<Rightarrow> bool" where
  "heap_except_up q n j \<longleftrightarrow>
     (\<forall>k. 0 < k \<and> k < n \<and> k \<noteq> j \<longrightarrow> q k \<le> q (parent k)) \<and>
     (\<forall>k. 0 < k \<and> k < n \<and> parent k = j \<and> 0 < j \<longrightarrow> q k \<le> q (parent j))"

definition heap_except :: "(nat \<Rightarrow> int) \<Rightarrow> nat \<Rightarrow> nat \<Rightarrow> bool" where
  "heap_except q n i \<longleftrightarrow>
     (\<forall>k. 0 < k \<and> k < n \<and> k \<noteq> i \<and> parent k \<noteq> i \<longrightarrow> q k \<le> q (parent k)) \<and>
     (\<forall>k. 0 < k \<and> k < n \<and> parent k = i \<and> 0 < i \<longrightarrow> q k \<le> q (parent i))"

definition heap_except_down :: "(nat \<Rightarrow> int) \<Rightarrow> nat \<Rightarrow> nat \<Rightarrow> bool" where
  "heap_except_down q n i \<longleftrightarrow> heap_except q n i \<and> (0 < i \<longrightarrow> q i \<le> q (parent i))"

definition children_below :: "(nat \<Rightarrow> int) \<Rightarrow> nat \<Rightarrow> nat \<Rightarrow> int \<Rightarrow> bool" where
  "children_below q n i b \<longleftrightarrow> (\<forall>k. 0 < k \<and> k < n \<and> parent k = i \<longrightarrow> q k \<le> b)"

lemma parent_less [simp]: "0 < k \<Longrightarrow> parent k < k"
  by (simp add: parent_def)

lemma parent_eq_iff: "0 < k \<Longrightarrow> parent k = i \<longleftrightarrow> k = 2 * i + 1 \<or> k = 2 * i + 2"
  by (auto simp: parent_def)

lemma parent_children [simp]: "parent (2 * i + 1) = i" "parent (2 * i + 2) = i"
    "parent (Suc (2 * i)) = i" "parent (Suc (Suc (2 * i))) = i"
  by (simp_all add: parent_def)

lemma children_below_iff:
  "children_below q n i b \<longleftrightarrow>
     (2 * i + 1 < n \<longrightarrow> q (2 * i + 1) \<le> b) \<and> (2 * i + 2 < n \<longrightarrow> q (2 * i + 2) \<le> b)"
proof
  assume "children_below q n i b"
  then show "(2 * i + 1 < n \<longrightarrow> q (2 * i + 1) \<le> b) \<and> (2 * i + 2 < n \<longrightarrow> q (2 * i + 2) \<le> b)"
    by (simp add: children_below_def)
next
  assume "(2 * i + 1 < n \<longrightarrow> q (2 * i + 1) \<le> b) \<and> (2 * i + 2 < n \<longrightarrow> q (2 * i + 2) \<le> b)"
  then show "children_below q n i b"
    unfolding children_below_def by (metis parent_eq_iff)
qed

lemma heap_order_root: "heap_order q n \<Longrightarrow> k < n \<Longrightarrow> q k \<le> q 0"
proof (induction k rule: less_induct)
  case (less k)
  show ?case
  proof (cases "k = 0")
    case False
    then have "parent k < k" by simp
    with less have "q (parent k) \<le> q 0" by simp
    moreover have "q k \<le> q (parent k)" using less.prems False by (simp add: heap_order_def)
    ultimately show ?thesis by simp
  qed simp
qed

lemma heap_except_up_stop:
  "heap_except_up q n j \<Longrightarrow> j = 0 \<or> q j \<le> q (parent j) \<Longrightarrow> heap_order q n"
  unfolding heap_except_up_def heap_order_def by (metis order_less_irrefl)

lemma heap_except_up_step:
  assumes ok: "heap_except_up q n j" and j: "0 < j" "j < n" and less: "q (parent j) < q j"
  shows "heap_except_up (q(parent j := q j, j := q (parent j))) n (parent j)"
proof -
  let ?i = "parent j" and ?q = "q(parent j := q j, j := q (parent j))"
  have ij: "?i < j" using j by simp
  have up: "q k \<le> q (parent k)" if "0 < k" "k < n" "k \<noteq> j" for k
    using ok that by (simp add: heap_except_up_def)
  have grand: "q k \<le> q ?i" if "0 < k" "k < n" "parent k = j" for k
    using ok that j by (simp add: heap_except_up_def)
  have "?q k \<le> ?q (parent k)" if k: "0 < k" "k < n" "k \<noteq> ?i" for k
  proof (cases "k = j")
    case True
    with ij less show ?thesis by simp
  next
    case False
    with k up [of k] grand [of k] less ij show ?thesis by auto
  qed
  moreover have "?q k \<le> ?q (parent ?i)" if k: "0 < k" "k < n" "parent k = ?i" "0 < ?i" for k
  proof -
    have pi: "parent ?i < ?i" "parent ?i \<noteq> j" using k(4) ij by (simp, metis less_trans order_less_irrefl parent_less)
    have "q ?i \<le> q (parent ?i)" using up [of ?i] k(4) ij j by simp
    moreover have "k \<noteq> j \<Longrightarrow> q k \<le> q ?i" using up [of k] k by simp
    moreover have "k \<noteq> ?i" using k(1,3) by (metis order_less_irrefl parent_less)
    ultimately show ?thesis using pi by auto
  qed
  ultimately show ?thesis unfolding heap_except_up_def by blast
qed

lemma heap_except_down_stop:
  "heap_except_down q n i \<Longrightarrow> children_below q n i (q i) \<Longrightarrow> heap_order q n"
  unfolding heap_except_down_def heap_except_def children_below_def heap_order_def by metis

lemma heap_except_stop:
  "heap_except q n i \<Longrightarrow> children_below q n i (q i) \<Longrightarrow> heap_except_up q n i"
  unfolding heap_except_up_def heap_except_def children_below_def by metis

lemma heap_except_step:
  assumes ok: "heap_except q n i" and j: "0 < j" "j < n" "parent j = i"
    and max: "children_below q n i (q j)" and less: "q i < q j"
  shows "heap_except_down (q(i := q j, j := q i)) n j"
proof -
  let ?q = "q(i := q j, j := q i)"
  have ij: "i < j" using j by auto
  have rest: "q k \<le> q (parent k)" if "0 < k" "k < n" "k \<noteq> i" "parent k \<noteq> i" for k
    using ok that by (simp add: heap_except_def)
  have child: "q k \<le> q j" if "0 < k" "k < n" "parent k = i" for k
    using max that by (simp add: children_below_def)
  have "?q k \<le> ?q (parent k)" if k: "0 < k" "k < n" "k \<noteq> j" "parent k \<noteq> j" for k
  proof (cases "k = i")
    case True
    with j ok ij k have "q j \<le> q (parent i)" by (simp add: heap_except_def)
    moreover have "parent i \<noteq> i" using True k by (metis order_less_irrefl parent_less)
    ultimately show ?thesis using True k ij by simp
  next
    case False
    with k rest [of k] child [of k] show ?thesis by auto
  qed
  moreover have "?q k \<le> ?q (parent j)" if k: "0 < k" "k < n" "parent k = j" for k
  proof -
    have "j < k" using k by (metis parent_less)
    with k rest [of k] ij j show ?thesis by auto
  qed
  ultimately show ?thesis
    using j ij less unfolding heap_except_down_def heap_except_def by auto
qed

lemma parent_less_bound [simp]: "0 < k \<Longrightarrow> k < n \<Longrightarrow> parent k < n"
  using parent_less [of k] by linarith

text \<open>The order predicates look at positions below \<open>n\<close> only.\<close>

lemma heap_order_cong: "(\<And>k. k < n \<Longrightarrow> q k = r k) \<Longrightarrow> heap_order q n = heap_order r n"
  unfolding heap_order_def by (intro all_cong1 imp_cong refl) auto

lemma heap_except_up_cong:
  "j < n \<Longrightarrow> (\<And>k. k < n \<Longrightarrow> q k = r k) \<Longrightarrow> heap_except_up q n j = heap_except_up r n j"
  unfolding heap_except_up_def by (intro conj_cong all_cong1 imp_cong refl) auto

lemma heap_except_cong:
  "i < n \<Longrightarrow> (\<And>k. k < n \<Longrightarrow> q k = r k) \<Longrightarrow> heap_except q n i = heap_except r n i"
  unfolding heap_except_def by (intro conj_cong all_cong1 imp_cong refl) auto

lemma heap_except_down_cong:
  "i < n \<Longrightarrow> (\<And>k. k < n \<Longrightarrow> q k = r k) \<Longrightarrow> heap_except_down q n i = heap_except_down r n i"
  using heap_except_cong [of i n q r] unfolding heap_except_down_def by auto

lemma heap_order_except_up_append:
  "heap_order q n \<Longrightarrow> heap_except_up q (Suc n) n"
  unfolding heap_order_def heap_except_up_def by (auto simp: less_Suc_eq) (metis less_asym parent_less)

text \<open>Overwriting position \<open>i\<close> of a heap spoils the order around \<open>i\<close> only.\<close>

lemma heap_order_overwrite:
  assumes "heap_order q m" and "n \<le> m"
  shows "heap_except (q(i := b)) n i"
proof -
  have le: "q k \<le> q (parent k)" if "0 < k" "k < n" for k
    using assms that by (simp add: heap_order_def)
  have "q k \<le> q (parent i)" if "0 < k" "k < n" "parent k = i" "0 < i" for k
    using le [of k] le [of i] that by (metis less_trans order_trans parent_less)
  moreover have "parent i \<noteq> i" if "0 < i" using that by (metis order_less_irrefl parent_less)
  moreover have "k \<noteq> i" if "0 < k" "parent k = i" for k using that by (metis order_less_irrefl parent_less)
  ultimately show ?thesis using le by (auto simp: heap_except_def)
qed

section \<open>The interface and its contract\<close>

text \<open>
  \<open>view\<close> is the list of elements in array order, \<open>prio\<close> the priority the comparison uses,
  \<open>invar\<close> what the implementation keeps besides (for the routing table, each element's record of
  its own position).
\<close>

locale heap_interface =
  fixes Len :: "'h \<Rightarrow> nat"
    and Less :: "'h \<Rightarrow> nat \<Rightarrow> nat \<Rightarrow> bool"
    and Swap :: "'h \<Rightarrow> nat \<Rightarrow> nat \<Rightarrow> 'h"
    and Push :: "'h \<Rightarrow> 'x \<Rightarrow> 'h"
    and Pop :: "'h \<Rightarrow> 'h"
    and view :: "'h \<Rightarrow> 'e list"
    and elem :: "'x \<Rightarrow> 'e"
    and prio :: "'e \<Rightarrow> int"
    and invar :: "'h \<Rightarrow> bool"
  assumes Len_view: "Len h = length (view h)"
    and Less_prio: "i < length (view h) \<Longrightarrow> j < length (view h) \<Longrightarrow>
      Less h i j \<longleftrightarrow> prio (view h ! j) < prio (view h ! i)"
    and view_Swap: "i < length (view h) \<Longrightarrow> j < length (view h) \<Longrightarrow>
      view (Swap h i j) = (view h)[i := view h ! j, j := view h ! i]"
    and view_Push: "view (Push h x) = view h @ [elem x]"
    and view_Pop: "view h \<noteq> [] \<Longrightarrow> view (Pop h) = butlast (view h)"
    and invar_Swap: "invar h \<Longrightarrow> i < length (view h) \<Longrightarrow> j < length (view h) \<Longrightarrow> invar (Swap h i j)"
    and invar_Push: "invar h \<Longrightarrow> invar (Push h x)"
    and invar_Pop: "invar h \<Longrightarrow> view h \<noteq> [] \<Longrightarrow> invar (Pop h)"
begin

abbreviation key :: "'h \<Rightarrow> nat \<Rightarrow> int" where
  "key h k \<equiv> prio (view h ! k)"

abbreviation is_heap :: "'h \<Rightarrow> bool" where
  "is_heap h \<equiv> heap_order (key h) (length (view h))"

lemma length_Swap:
  "i < length (view h) \<Longrightarrow> j < length (view h) \<Longrightarrow> length (view (Swap h i j)) = length (view h)"
  by (simp add: view_Swap)

lemma mset_Swap:
  "i < length (view h) \<Longrightarrow> j < length (view h) \<Longrightarrow> mset (view (Swap h i j)) = mset (view h)"
  by (simp add: view_Swap mset_swap)

lemma key_Swap:
  "i < length (view h) \<Longrightarrow> j < length (view h) \<Longrightarrow> k < length (view h) \<Longrightarrow>
   key (Swap h i j) k = ((key h)(i := key h j, j := key h i)) k"
  by (simp add: view_Swap nth_list_update)

lemma nth_Swap_other:
  "i < length (view h) \<Longrightarrow> j < length (view h) \<Longrightarrow> k \<noteq> i \<Longrightarrow> k \<noteq> j \<Longrightarrow>
   view (Swap h i j) ! k = view h ! k"
  by (simp add: view_Swap nth_list_update)

text \<open>Sifting up repairs a heap prefix whose only fault is a large element at \<open>j\<close>.\<close>

lemma up_correct:
  assumes "invar h" "j < n" "n \<le> length (view h)" "heap_except_up (key h) n j"
  shows "invar (heap_up Less Swap h j) \<and> heap_order (key (heap_up Less Swap h j)) n \<and>
    mset (view (heap_up Less Swap h j)) = mset (view h)"
  using assms
proof (induction j arbitrary: h rule: less_induct)
  case (less j)
  let ?i = "parent j"
  show ?case
  proof (cases "?i = j \<or> \<not> Less h j ?i")
    case True
    have "j = 0 \<or> key h j \<le> key h ?i"
    proof (cases "j = 0")
      case False
      then have "?i < j" by simp
      with True less.prems Less_prio [of j h ?i] show ?thesis by simp
    qed simp
    with less.prems heap_except_up_stop True show ?thesis
      by (simp add: heap_up.simps [of Less Swap h j] parent_def)
  next
    case False
    then have "0 < j" by (auto simp: parent_def)
    then have i: "?i < j" "?i < n" "?i < length (view h)" and j: "j < length (view h)"
      using less.prems(2,3) by auto
    let ?h = "Swap h ?i j"
    have big: "key h ?i < key h j" using False i j by (simp add: Less_prio)
    have "heap_except_up ((key h)(?i := key h j, j := key h ?i)) n ?i"
      using less.prems \<open>0 < j\<close> big by (intro heap_except_up_step)
    moreover have "key ?h k = ((key h)(?i := key h j, j := key h ?i)) k" if "k < n" for k
      using that less.prems(3) i j by (intro key_Swap) auto
    ultimately have "heap_except_up (key ?h) n ?i"
      using heap_except_up_cong [OF i(2), of "key ?h"] by blast
    with less.IH [OF i(1), of ?h] less.prems i j
    have "invar (heap_up Less Swap ?h ?i) \<and> heap_order (key (heap_up Less Swap ?h ?i)) n \<and>
      mset (view (heap_up Less Swap ?h ?i)) = mset (view h)"
      by (simp add: invar_Swap mset_Swap length_Swap)
    moreover have "heap_up Less Swap h j = heap_up Less Swap ?h ?i"
      using False by (simp add: heap_up.simps [of Less Swap h j] parent_def)
    ultimately show ?thesis by simp
  qed
qed

text \<open>Positions off the path to the root keep their elements.\<close>

lemma up_frame:
  "j < length (view h) \<Longrightarrow> parent j < k \<Longrightarrow> k \<noteq> j \<Longrightarrow> view (heap_up Less Swap h j) ! k = view h ! k"
proof (induction j arbitrary: h rule: less_induct)
  case (less j)
  let ?i = "parent j"
  show ?case
  proof (cases "?i = j \<or> \<not> Less h j ?i")
    case True
    then show ?thesis by (simp add: heap_up.simps [of Less Swap h j] parent_def)
  next
    case False
    then have i: "?i < j" by (cases "j = 0") (auto simp: parent_def)
    let ?h = "Swap h ?i j"
    have "parent ?i < k" using less.prems(2) by (cases "?i = 0") (auto simp: parent_def)
    with less.IH [OF i, of ?h] less.prems i
    have "view (heap_up Less Swap ?h ?i) ! k = view ?h ! k" by (simp add: length_Swap)
    moreover have "view ?h ! k = view h ! k"
      using less.prems i by (intro nth_Swap_other) auto
    moreover have "heap_up Less Swap h j = heap_up Less Swap ?h ?i"
      using False by (simp add: heap_up.simps [of Less Swap h j] parent_def)
    ultimately show ?thesis by simp
  qed
qed

text \<open>
  Sifting down either leaves the heap alone because both children are smaller, or moves the
  element and leaves a heap prefix; positions from \<open>n\<close> on are not touched.
\<close>

lemma down_correct:
  assumes "invar h" "i < n" "n \<le> length (view h)" "heap_except (key h) n i"
    and "heap_down Less Swap h i n = (h', k)"
  shows "invar h' \<and> mset (view h') = mset (view h) \<and> (\<forall>m. n \<le> m \<longrightarrow> view h' ! m = view h ! m) \<and>
    (if k = i then h' = h \<and> children_below (key h) n i (key h i)
     else i < k \<and> heap_order (key h') n)"
  using assms
proof (induction "n - i" arbitrary: h i rule: less_induct)
  case less
  note eq = heap_down.simps [of Less Swap h i n]
  show ?case
  proof (cases "n \<le> 2 * i + 1")
    case True
    with less.prems show ?thesis by (simp add: eq children_below_iff)
  next
    case False
    define j where "j = (if 2 * i + 2 < n \<and> Less h (2 * i + 2) (2 * i + 1) then 2 * i + 2 else 2 * i + 1)"
    have j: "i < j" "j < n" "0 < j" "parent j = i" using False by (auto simp: j_def)
    have max: "children_below (key h) n i (key h j)"
      using False less.prems(3) by (auto simp: children_below_iff j_def Less_prio)
    have lens: "i < length (view h)" "j < length (view h)" using j less.prems(2,3) by auto
    show ?thesis
    proof (cases "Less h j i")
      case stop: False
      then have "key h j \<le> key h i" using lens by (simp add: Less_prio)
      with max have "children_below (key h) n i (key h i)"
        by (auto simp: children_below_def)
      with less.prems stop False show ?thesis by (simp add: eq Let_def j_def)
    next
      case True
      let ?h = "Swap h i j"
      have big: "key h i < key h j" using True lens by (simp add: Less_prio)
      have rec: "heap_down Less Swap ?h j n = (h', k)"
        using less.prems(5) True False by (simp add: eq Let_def j_def)
      have swap: "key ?h m = ((key h)(i := key h j, j := key h i)) m" if "m < n" for m
        using that lens less.prems(3) by (intro key_Swap) auto
      have "heap_except_down ((key h)(i := key h j, j := key h i)) n j"
        using less.prems(4) j max big by (intro heap_except_step)
      then have down: "heap_except_down (key ?h) n j"
        using heap_except_down_cong [OF j(2), of "key ?h"] swap by blast
      have "n - j < n - i" using j less.prems(2) by simp
      from less.hyps [OF this, of ?h] less.prems lens j rec down
      have IH: "invar h' \<and> mset (view h') = mset (view ?h) \<and> (\<forall>m. n \<le> m \<longrightarrow> view h' ! m = view ?h ! m) \<and>
          (if k = j then h' = ?h \<and> children_below (key ?h) n j (key ?h j) else j < k \<and> heap_order (key h') n)"
        by (simp add: invar_Swap length_Swap heap_except_down_def)
      moreover have "heap_order (key h') n \<and> i < k"
        using IH heap_except_down_stop [OF down] j by (auto split: if_splits)
      moreover have "view ?h ! m = view h ! m" if "n \<le> m" for m
        using that j lens less.prems(2) by (intro nth_Swap_other) auto
      ultimately show ?thesis using lens by (auto simp: mset_Swap)
    qed
  qed
qed

lemma Push_correct:
  assumes "invar h" "is_heap h"
  shows "invar (heap_Push Len Less Swap Push h x) \<and> is_heap (heap_Push Len Less Swap Push h x) \<and>
    mset (view (heap_Push Len Less Swap Push h x)) = add_mset (elem x) (mset (view h))"
proof -
  let ?h = "Push h x" and ?n = "length (view h)"
  have v: "view ?h = view h @ [elem x]" by (rule view_Push)
  have "key ?h k = ((key h)(?n := prio (elem x))) k" if "k < Suc ?n" for k
    using that by (auto simp: v nth_append less_Suc_eq)
  moreover have "heap_order ((key h)(?n := prio (elem x))) ?n"
    using assms(2) heap_order_cong [of ?n "(key h)(?n := prio (elem x))" "key h"] by simp
  ultimately have "heap_except_up (key ?h) (Suc ?n) ?n"
    using heap_order_except_up_append heap_except_up_cong [of ?n "Suc ?n" "key ?h"] by blast
  then have ok: "invar (heap_up Less Swap ?h ?n) \<and> heap_order (key (heap_up Less Swap ?h ?n)) (Suc ?n) \<and>
      mset (view (heap_up Less Swap ?h ?n)) = mset (view ?h)"
    using assms(1) by (intro up_correct) (simp_all add: invar_Push v)
  moreover have "length (view (heap_up Less Swap ?h ?n)) = Suc ?n"
    using ok by (metis size_mset v length_append_singleton)
  moreover have "heap_Push Len Less Swap Push h x = heap_up Less Swap ?h ?n"
    by (simp add: heap_Push_def Let_def Len_view v)
  ultimately show ?thesis by (simp add: v)
qed

text \<open>A push moves elements on the path from the new leaf to the root only.\<close>

lemma Push_frame:
  assumes "parent (length (view h)) < k" "k < length (view h)"
  shows "view (heap_Push Len Less Swap Push h x) ! k = view h ! k"
proof -
  let ?n = "length (view h)"
  have "view (heap_up Less Swap (Push h x) ?n) ! k = view (Push h x) ! k"
    using assms by (intro up_frame) (simp_all add: view_Push)
  then show ?thesis
    using assms by (simp add: heap_Push_def Let_def Len_view view_Push nth_append)
qed

lemma Remove_correct:
  assumes "invar h" "is_heap h" "i < length (view h)"
  shows "invar (heap_Remove Len Less Swap Pop h i) \<and> is_heap (heap_Remove Len Less Swap Pop h i) \<and>
    mset (view (heap_Remove Len Less Swap Pop h i)) = mset (view h) - {#view h ! i#}"
proof -
  define n where "n = length (view h) - 1"
  have n: "length (view h) = Suc n" using assms(3) by (simp add: n_def)
  \<comment> \<open>whatever happens before the pop, it puts the removed element last and a heap before it\<close>
  have pop: ?thesis if r: "heap_Remove Len Less Swap Pop h i = Pop g"
    and g: "invar g" "heap_order (key g) n" "mset (view g) = mset (view h)" "view g ! n = view h ! i" for g
  proof -
    have len: "length (view g) = Suc n" using g(3) n by (metis size_mset)
    then have ne: "view g \<noteq> []" by auto
    then have v1: "view (Pop g) = butlast (view g)" by (rule view_Pop)
    have v2: "view g = butlast (view g) @ [view h ! i]"
      using g(4) len ne by (metis append_butlast_last_id last_conv_nth diff_Suc_1)
    note v = v1 v2
    from v(2) have "mset (view g) = add_mset (view h ! i) (mset (butlast (view g)))"
      by (metis add_mset_add_single mset.simps mset_append)
    then have "mset (view (Pop g)) = mset (view h) - {#view h ! i#}"
      unfolding v(1) by (metis add_mset_remove_trivial g(3))
    moreover have "heap_order (key (Pop g)) n"
      using g(2) len heap_order_cong [of n "key (Pop g)" "key g"] by (simp add: v(1) nth_butlast)
    ultimately show ?thesis using r g(1) len v(1) ne by (simp add: invar_Pop)
  qed
  show ?thesis
  proof (cases "n = i")
    case True
    have "heap_order (key h) n" using assms(2) by (simp add: heap_order_def n)
    with assms True pop [of h] show ?thesis by (simp add: heap_Remove_def Let_def Len_view n)
  next
    case False
    then have i: "i < n" using assms(3) n by simp
    let ?h = "Swap h i n"
    obtain h1 k where down: "heap_down Less Swap ?h i n = (h1, k)" by fastforce
    have len: "length (view ?h) = Suc n" using assms(3) n by (simp add: length_Swap)
    have key: "key ?h m = ((key h)(i := key h n)) m" if "m < n" for m
      using that i n assms(3) key_Swap [of i h n m] by simp
    have "heap_except ((key h)(i := key h n)) n i"
      using assms(2) n by (intro heap_order_overwrite [of _ "Suc n"]) simp_all
    then have ex: "heap_except (key ?h) n i"
      using heap_except_cong [OF i, of "key ?h"] key by blast
    have inv: "invar ?h" using assms n i by (simp add: invar_Swap)
    note dc = down_correct [OF inv i _ ex down]
    have last: "view ?h ! n = view h ! i" using n i assms(3) by (simp add: view_Swap)
    have ms: "mset (view ?h) = mset (view h)" using assms(3) n by (simp add: mset_Swap)
    show ?thesis
    proof (cases "i < k")
      case True
      then have "heap_Remove Len Less Swap Pop h i = Pop h1"
        using False by (simp add: heap_Remove_def Let_def Len_view n down)
      with dc len True last ms pop [of h1] show ?thesis by simp
    next
      case stay: False
      have h1: "k = i" "h1 = ?h" "children_below (key ?h) n i (key ?h i)"
        using dc len stay by (auto split: if_splits)
      then have "heap_except_up (key ?h) n i" using ex heap_except_stop by blast
      then have up: "invar (heap_up Less Swap ?h i) \<and> heap_order (key (heap_up Less Swap ?h i)) n \<and>
          mset (view (heap_up Less Swap ?h i)) = mset (view ?h)"
        using inv i len by (intro up_correct) simp_all
      have "parent i < n" using i by (cases "i = 0") (auto simp: parent_def)
      then have "view (heap_up Less Swap ?h i) ! n = view ?h ! n"
        using i len by (intro up_frame) simp_all
      moreover have "heap_Remove Len Less Swap Pop h i = Pop (heap_up Less Swap ?h i)"
        using False stay h1 by (simp add: heap_Remove_def Let_def Len_view n down)
      ultimately show ?thesis using up last ms pop [of "heap_up Less Swap ?h i"] by simp
    qed
  qed
qed

text \<open>The root holds an element of greatest priority.\<close>

lemma root_greatest:
  "is_heap h \<Longrightarrow> e \<in> set (view h) \<Longrightarrow> prio e \<le> prio (view h ! 0)"
  by (metis heap_order_root in_set_conv_nth)

end

end
