(* ===== verification/Routing_Table.thy ===== *)
theory Routing_Table
  imports Infohash Go_Net Go_Heap
begin

text \<open>
  \<^verbatim>\<open>dht/routing_table.go\<close> and \<^verbatim>\<open>dht/remote_node.go\<close>: the table of known nodes, a priority queue
  (a \<^verbatim>\<open>container/heap\<close> with the closest node at the root) next to a map from address text to node.
  Every method runs under the table's mutex except \<^verbatim>\<open>get\<close>, so each is one atomic step here.

  The pointers of the queue and of the map are to nodes the table shares with nobody who writes
  them while they are in the table, so items and nodes are modelled by value.
\<close>

section \<open>Data\<close>

record remoteNode =
  rn_addr :: UDPAddr
  rn_id :: infohash

definition remoteNode_String :: "remoteNode \<Rightarrow> string" where
  "remoteNode_String r = Infohash_String (rn_id r) @ '' ('' @ UDPAddr_String (rn_addr r) @ '')''"

record rItem =
  item_value :: remoteNode
  item_distance :: nat
  item_index :: int

type_synonym priorityQueue = "rItem list"

record routingTable =
  rt_id :: infohash
  rt_max :: int
  rt_items :: priorityQueue
  rt_addresses :: "string \<rightharpoonup> remoteNode"

section \<open>The priority queue\<close>

definition pq_Len :: "priorityQueue \<Rightarrow> nat" where
  "pq_Len pq = length pq"

definition pq_Less :: "priorityQueue \<Rightarrow> nat \<Rightarrow> nat \<Rightarrow> bool" where
  "pq_Less pq i j \<longleftrightarrow> item_distance (pq ! i) > item_distance (pq ! j)"

definition pq_Swap :: "priorityQueue \<Rightarrow> nat \<Rightarrow> nat \<Rightarrow> priorityQueue" where
  "pq_Swap pq i j =
     (let pq1 = pq[i := pq ! j, j := pq ! i];
          pq2 = pq1[i := (pq1 ! i)\<lparr>item_index := int i\<rparr>]
      in pq2[j := (pq2 ! j)\<lparr>item_index := int j\<rparr>])"

definition pq_Push :: "priorityQueue \<Rightarrow> rItem \<Rightarrow> priorityQueue" where
  "pq_Push pq x = pq @ [x\<lparr>item_index := int (length pq)\<rparr>]"

text \<open>\<^verbatim>\<open>heap.Remove\<close> calls \<^verbatim>\<open>Pop\<close> on a queue that has at least one element.\<close>

definition pq_Pop :: "priorityQueue \<Rightarrow> rItem \<times> priorityQueue" where
  "pq_Pop pq = ((last pq)\<lparr>item_index := -1\<rparr>, butlast pq)"

abbreviation pq_heap_Push :: "priorityQueue \<Rightarrow> rItem \<Rightarrow> priorityQueue" where
  "pq_heap_Push \<equiv> heap_Push pq_Len pq_Less pq_Swap pq_Push"

abbreviation pq_heap_Remove :: "priorityQueue \<Rightarrow> nat \<Rightarrow> priorityQueue" where
  "pq_heap_Remove \<equiv> heap_Remove pq_Len pq_Less pq_Swap (\<lambda>pq. snd (pq_Pop pq))"

lemma length_pq_Swap [simp]: "length (pq_Swap pq i j) = length pq"
  by (simp add: pq_Swap_def Let_def)

lemma length_heap_up [simp]: "length (heap_up pq_Less pq_Swap pq j) = length pq"
proof (induction j arbitrary: pq rule: less_induct)
  case (less j)
  show ?case
    by (subst heap_up.simps) (use less in \<open>auto simp: div_less_iff_less_mult\<close>)
qed

lemma length_heap_down [simp]: "length (fst (heap_down pq_Less pq_Swap pq i n)) = length pq"
proof (induction "n - i" arbitrary: pq i rule: less_induct)
  case less
  show ?case
    by (subst heap_down.simps) (use less in \<open>auto simp: Let_def\<close>)
qed

lemma length_pq_heap_Remove [simp]: "length (pq_heap_Remove pq i) = length pq - 1"
proof -
  obtain h m where d: "heap_down pq_Less pq_Swap (pq_Swap pq i (length pq - 1)) i (length pq - 1) = (h, m)"
    by fastforce
  have "length h = length pq"
    using length_heap_down [of "pq_Swap pq i (length pq - 1)" i "length pq - 1"] unfolding d by simp
  with d show ?thesis by (simp add: heap_Remove_def Let_def pq_Pop_def pq_Len_def)
qed

lemma length_pq_heap_Push [simp]: "length (pq_heap_Push pq x) = Suc (length pq)"
  by (simp add: heap_Push_def Let_def pq_Push_def)

section \<open>The table\<close>

definition node_key :: "remoteNode \<Rightarrow> string" where
  "node_key rn = UDPAddr_String (rn_addr rn)"

text \<open>The loop of \<^verbatim>\<open>add\<close> that removes items once there are too many, from position \<^verbatim>\<open>i\<close> on.\<close>

function add_evict :: "routingTable \<Rightarrow> int \<Rightarrow> routingTable outcome" where
  "add_evict k i =
     (if i < int (length (rt_items k)) then
        (if i < 0 then Panic IndexOutOfRange
         else add_evict
           (k\<lparr>rt_addresses := (rt_addresses k)(node_key (item_value (rt_items k ! nat i)) := None),
              rt_items := pq_heap_Remove (rt_items k) (nat i)\<rparr>) (i + 1))
      else Ok k)"
  by pat_completeness auto
termination
  by (relation "measure (\<lambda>(k, i). nat (int (length (rt_items k)) - i))") auto

declare add_evict.simps [simp del]

definition routingTable_add :: "routingTable \<Rightarrow> remoteNode \<Rightarrow> routingTable outcome" where
  "routingTable_add k rn =
     (if \<not> Infohash_Valid (rn_id rn) \<or> Infohash_Equal (rn_id rn) (rt_id k) then Ok k
      else if rt_addresses k (node_key rn) \<noteq> None then Ok k
      else
        (case Infohash_Distance (rt_id k) (rn_id rn) of
           Ok d \<Rightarrow>
             (let k1 = k\<lparr>rt_addresses := (rt_addresses k)(node_key rn \<mapsto> rn),
                         rt_items := pq_heap_Push (rt_items k)
                           \<lparr>item_value = rn, item_distance = d, item_index = 0\<rparr>\<rparr>
              in if rt_max k1 < int (length (rt_items k1)) then add_evict k1 (rt_max k1 - 1) else Ok k1)
         | Err e \<Rightarrow> Err e
         | Panic p \<Rightarrow> Panic p
         | Hang \<Rightarrow> Hang))"

text \<open>The loop of \<^verbatim>\<open>get\<close>: at most \<^verbatim>\<open>n\<close> nodes from the front of the array.\<close>

fun get_loop :: "int \<Rightarrow> priorityQueue \<Rightarrow> remoteNode list" where
  "get_loop n [] = []"
| "get_loop n (x # xs) = (if 0 < n then item_value x # get_loop (n - 1) xs else [])"

definition routingTable_get :: "routingTable \<Rightarrow> int \<Rightarrow> remoteNode list" where
  "routingTable_get k n =
     get_loop (if n = 0 then int (length (rt_items k)) else n) (rt_items k)"

definition routingTable_flush :: "routingTable \<Rightarrow> routingTable" where
  "routingTable_flush k = k\<lparr>rt_items := [], rt_addresses := Map.empty\<rparr>"

definition routingTable_isEmpty :: "routingTable \<Rightarrow> bool" where
  "routingTable_isEmpty k \<longleftrightarrow> length (rt_items k) = 0"

definition newRoutingTable :: "infohash \<Rightarrow> int \<Rightarrow> routingTable outcome" where
  "newRoutingTable ident mx =
     (let k = routingTable_flush
                \<lparr>rt_id = ident, rt_max = mx, rt_items = [], rt_addresses = Map.empty\<rparr>
      in Ok (k\<lparr>rt_items := heap_Init pq_Len pq_Less pq_Swap (rt_items k)\<rparr>))"

section \<open>The queue implements the heap interface\<close>

definition item_view :: "rItem \<Rightarrow> remoteNode \<times> nat" where
  "item_view it = (item_value it, item_distance it)"

definition pq_indexed :: "priorityQueue \<Rightarrow> bool" where
  "pq_indexed pq \<longleftrightarrow> (\<forall>i < length pq. item_index (pq ! i) = int i)"

interpretation pq: heap_interface pq_Len pq_Less pq_Swap pq_Push "\<lambda>pq. snd (pq_Pop pq)"
  "map item_view" item_view "\<lambda>e. int (snd e)" pq_indexed
proof
  fix pq :: priorityQueue and i j :: nat and x :: rItem
  show "pq_Len pq = length (map item_view pq)" by (simp add: pq_Len_def)
  show "map item_view (pq_Push pq x) = map item_view pq @ [item_view x]"
    by (simp add: pq_Push_def item_view_def)
  show "map item_view (snd (pq_Pop pq)) = butlast (map item_view pq)"
    by (simp add: pq_Pop_def map_butlast)
  show "pq_indexed pq \<Longrightarrow> pq_indexed (pq_Push pq x)"
    by (auto simp: pq_indexed_def pq_Push_def nth_append less_Suc_eq)
  show "pq_indexed pq \<Longrightarrow> pq_indexed (snd (pq_Pop pq))"
    by (auto simp: pq_indexed_def pq_Pop_def nth_butlast)
  assume ij: "i < length (map item_view pq)" "j < length (map item_view pq)"
  then show "pq_Less pq i j \<longleftrightarrow> int (snd (map item_view pq ! j)) < int (snd (map item_view pq ! i))"
    by (simp add: pq_Less_def item_view_def)
  show "map item_view (pq_Swap pq i j) =
      (map item_view pq)[i := map item_view pq ! j, j := map item_view pq ! i]"
    using ij by (intro nth_equalityI) (auto simp: pq_Swap_def Let_def nth_list_update item_view_def)
  show "pq_indexed pq \<Longrightarrow> pq_indexed (pq_Swap pq i j)"
    using ij by (auto simp: pq_indexed_def pq_Swap_def Let_def nth_list_update)
qed

section \<open>The invariant\<close>

definition rt_nodes :: "routingTable \<Rightarrow> remoteNode list" where
  "rt_nodes k = map item_value (rt_items k)"

definition rt_views :: "routingTable \<Rightarrow> (remoteNode \<times> nat) multiset" where
  "rt_views k = mset (map item_view (rt_items k))"

text \<open>Every item is at most as close as its parent in the heap.\<close>

definition closest_first :: "priorityQueue \<Rightarrow> bool" where
  "closest_first pq \<longleftrightarrow>
     (\<forall>i. 0 < i \<and> i < length pq \<longrightarrow> item_distance (pq ! i) \<le> item_distance (pq ! ((i - 1) div 2)))"

definition node_ok :: "infohash \<Rightarrow> remoteNode \<times> nat \<Rightarrow> bool" where
  "node_ok ident e \<longleftrightarrow>
     Infohash_Valid (rn_id (fst e)) \<and> rn_id (fst e) \<noteq> ident \<and>
     Infohash_Distance ident (rn_id (fst e)) = Ok (snd e)"

text \<open>
  What holds of the table between the steps of \<^verbatim>\<open>add\<close>: all of the invariant but the bound. The
  condition on the single nodes is a parameter, because the invariant comes in two strengths: the
  table's own operations keep \<open>node_ok\<close> of every node, while the node's maintenance loop rewrites the
  identifiers of nodes that are still in the table, which keeps only the rest.
\<close>

definition rt_inv_on :: "(remoteNode \<times> nat \<Rightarrow> bool) \<Rightarrow> routingTable \<Rightarrow> bool" where
  "rt_inv_on P k \<longleftrightarrow>
     Infohash_Valid (rt_id k) \<and> 2 \<le> rt_max k \<and>
     pq_indexed (rt_items k) \<and> closest_first (rt_items k) \<and>
     (\<forall>it \<in> set (rt_items k). P (item_view it)) \<and>
     distinct (map node_key (rt_nodes k)) \<and>
     (\<forall>a n. rt_addresses k a = Some n \<longleftrightarrow> n \<in> set (rt_nodes k) \<and> node_key n = a)"

definition rt_wf_on :: "(remoteNode \<times> nat \<Rightarrow> bool) \<Rightarrow> routingTable \<Rightarrow> bool" where
  "rt_wf_on P k \<longleftrightarrow> rt_inv_on P k \<and> int (length (rt_items k)) \<le> rt_max k"

definition rt_wf :: "routingTable \<Rightarrow> bool" where
  "rt_wf k \<longleftrightarrow> rt_wf_on (node_ok (rt_id k)) k"

definition rt_sound :: "routingTable \<Rightarrow> bool" where
  "rt_sound k \<longleftrightarrow> rt_wf_on (\<lambda>e. Infohash_Valid (rn_id (fst e))) k"

lemmas rt_wf_defs = rt_wf_def rt_wf_on_def rt_inv_on_def

lemma rt_wf_sound: "rt_wf k \<Longrightarrow> rt_sound k"
  by (auto simp: rt_wf_defs rt_sound_def node_ok_def)

text \<open>The same conditions over the multiset of nodes with their distances.\<close>

definition views_ok :: "(remoteNode \<times> nat \<Rightarrow> bool) \<Rightarrow> (string \<rightharpoonup> remoteNode) \<Rightarrow> (remoteNode \<times> nat) multiset \<Rightarrow> bool" where
  "views_ok P addrs V \<longleftrightarrow>
     (\<forall>e \<in># V. P e) \<and>
     (\<forall>e. count (image_mset (\<lambda>e. node_key (fst e)) V) e \<le> 1) \<and>
     (\<forall>a n. addrs a = Some n \<longleftrightarrow> n \<in> fst ` set_mset V \<and> node_key n = a)"

lemma fst_item_view [simp]: "fst (item_view it) = item_value it" "snd (item_view it) = item_distance it"
  by (simp_all add: item_view_def)

lemma set_rt_views: "set_mset (rt_views k) = item_view ` set (rt_items k)"
  by (simp add: rt_views_def)

lemma rt_nodes_views: "set (rt_nodes k) = fst ` set_mset (rt_views k)"
  by (simp add: rt_nodes_def set_rt_views image_image)

lemma size_rt_views: "size (rt_views k) = length (rt_items k)"
  by (simp add: rt_views_def)

lemma distinct_count: "distinct xs \<longleftrightarrow> (\<forall>x. count (mset xs) x \<le> 1)"
proof -
  have "(count (mset xs) a = (if a \<in> set xs then 1 else 0)) \<longleftrightarrow> count (mset xs) a \<le> 1" for a
    by (cases "a \<in> set xs") (auto simp: count_greater_zero_iff le_Suc_eq)
  then show ?thesis by (simp add: distinct_count_atmost_1)
qed

lemma closest_first_iff:
  "closest_first pq \<longleftrightarrow> heap_order (\<lambda>i. int (snd (map item_view pq ! i))) (length (map item_view pq))"
proof -
  have "(i - 1) div 2 < length pq" if "0 < i" "i < length pq" for i using that by linarith
  then show ?thesis by (auto simp: closest_first_def heap_order_def parent_def)
qed

lemma rt_inv_iff:
  "rt_inv_on P k \<longleftrightarrow>
     Infohash_Valid (rt_id k) \<and> 2 \<le> rt_max k \<and> pq_indexed (rt_items k) \<and> closest_first (rt_items k) \<and>
     views_ok P (rt_addresses k) (rt_views k)"
proof -
  have "distinct (map node_key (rt_nodes k)) \<longleftrightarrow>
      (\<forall>a. count (image_mset (\<lambda>e. node_key (fst e)) (rt_views k)) a \<le> 1)"
    by (simp add: distinct_count rt_nodes_def rt_views_def comp_def flip: mset_map)
  then show ?thesis
    by (auto simp: rt_inv_on_def views_ok_def set_rt_views rt_nodes_views)
qed

section \<open>Pushing and removing one node\<close>

lemma views_ok_insert:
  assumes "views_ok P addrs V" "P (rn, d)" "addrs (node_key rn) = None"
  shows "views_ok P (addrs(node_key rn \<mapsto> rn)) (add_mset (rn, d) V)"
proof -
  have fresh: "node_key (fst e) \<noteq> node_key rn" if "e \<in># V" for e
    using assms(1,3) that unfolding views_ok_def by (metis image_eqI option.distinct(1))
  then have "node_key rn \<notin># image_mset (\<lambda>e. node_key (fst e)) V" by (metis imageE set_image_mset)
  then have "count (image_mset (\<lambda>e. node_key (fst e)) V) (node_key rn) = 0"
    by (simp add: count_eq_zero_iff)
  with assms fresh show ?thesis by (auto simp: views_ok_def)
qed

lemma views_ok_delete:
  assumes ok: "views_ok P addrs V" and e: "e \<in># V"
  shows "views_ok P (addrs(node_key (fst e) := None)) (V - {#e#})"
proof -
  obtain W where V: "V = add_mset e W" using e by (metis insert_DiffM)
  have "count (image_mset (\<lambda>e. node_key (fst e)) V) (node_key (fst e)) \<le> 1"
    using ok unfolding views_ok_def by blast
  then have none: "node_key (fst e) \<notin># image_mset (\<lambda>e. node_key (fst e)) W"
    by (simp add: V count_eq_zero_iff)
  have other: "node_key (fst w) \<noteq> node_key (fst e)" if "w \<in># W" for w
  proof
    assume "node_key (fst w) = node_key (fst e)"
    then have "node_key (fst e) \<in> (\<lambda>e. node_key (fst e)) ` set_mset W"
      by (intro rev_image_eqI [OF that]) simp
    with none show False by simp
  qed
  have "count (image_mset (\<lambda>e. node_key (fst e)) W) a \<le> 1" for a
  proof -
    have "count (image_mset (\<lambda>e. node_key (fst e)) W) a \<le> count (image_mset (\<lambda>e. node_key (fst e)) V) a"
      by (simp add: V)
    also have "\<dots> \<le> 1" using ok unfolding views_ok_def by blast
    finally show ?thesis .
  qed
  with ok other show ?thesis by (auto simp: views_ok_def V)
qed

lemma rt_inv_push:
  assumes inv: "rt_inv_on P k" and ok: "P (rn, d)" and fresh: "rt_addresses k (node_key rn) = None"
    and k1: "k1 = k\<lparr>rt_addresses := (rt_addresses k)(node_key rn \<mapsto> rn),
                    rt_items := pq_heap_Push (rt_items k)
                      \<lparr>item_value = rn, item_distance = d, item_index = 0\<rparr>\<rparr>"
  shows "rt_inv_on P k1 \<and> rt_views k1 = add_mset (rn, d) (rt_views k)"
proof -
  let ?x = "\<lparr>item_value = rn, item_distance = d, item_index = 0\<rparr>"
  have x: "item_view ?x = (rn, d)" by (simp add: item_view_def)
  from inv have "pq_indexed (rt_items k)" "closest_first (rt_items k)"
    and views: "views_ok P (rt_addresses k) (rt_views k)"
    by (simp_all add: rt_inv_iff)
  with pq.Push_correct [of "rt_items k" ?x]
  have push: "pq_indexed (rt_items k1)" "closest_first (rt_items k1)"
      "rt_views k1 = add_mset (rn, d) (rt_views k)"
    by (simp_all add: closest_first_iff k1 rt_views_def x)
  from views ok fresh have "views_ok P (rt_addresses k1) (rt_views k1)"
    unfolding push(3) by (simp add: k1 views_ok_insert)
  with push inv show ?thesis by (simp add: rt_inv_iff k1)
qed

lemma rt_inv_remove:
  assumes inv: "rt_inv_on P k" and i: "i < length (rt_items k)"
    and k': "k' = k\<lparr>rt_addresses := (rt_addresses k)(node_key (item_value (rt_items k ! i)) := None),
                    rt_items := pq_heap_Remove (rt_items k) i\<rparr>"
  shows "rt_inv_on P k' \<and> rt_views k' = rt_views k - {#item_view (rt_items k ! i)#}"
proof -
  from inv have "pq_indexed (rt_items k)" "closest_first (rt_items k)"
    and views: "views_ok P (rt_addresses k) (rt_views k)"
    by (simp_all add: rt_inv_iff)
  with pq.Remove_correct [of "rt_items k" i] i
  have rm: "pq_indexed (rt_items k')" "closest_first (rt_items k')"
      "rt_views k' = rt_views k - {#item_view (rt_items k ! i)#}"
    by (simp_all add: closest_first_iff k' rt_views_def)
  have "item_view (rt_items k ! i) \<in># rt_views k" using i by (simp add: set_rt_views)
  from views_ok_delete [OF views this] have "views_ok P (rt_addresses k') (rt_views k')"
    unfolding rm(3) by (simp add: k')
  with rm inv show ?thesis by (simp add: rt_inv_iff k')
qed

section \<open>Adding a node\<close>

definition add_ignored :: "routingTable \<Rightarrow> remoteNode \<Rightarrow> bool" where
  "add_ignored k rn \<longleftrightarrow>
     \<not> Infohash_Valid (rn_id rn) \<or> rn_id rn = rt_id k \<or> rt_addresses k (node_key rn) \<noteq> None"

lemma add_ignored_eq: "add_ignored k rn \<Longrightarrow> routingTable_add k rn = Ok k"
  by (auto simp: add_ignored_def routingTable_add_def)

text \<open>The eviction loop of a table one above its capacity removes exactly one item.\<close>

lemma add_evict_one:
  assumes "int (length (rt_items k)) = rt_max k + 1" "1 \<le> rt_max k"
  shows "add_evict k (rt_max k - 1) =
    Ok (k\<lparr>rt_addresses := (rt_addresses k)
              (node_key (item_value (rt_items k ! nat (rt_max k - 1))) := None),
          rt_items := pq_heap_Remove (rt_items k) (nat (rt_max k - 1))\<rparr>)"
proof -
  define k' where "k' = k\<lparr>rt_addresses := (rt_addresses k)
              (node_key (item_value (rt_items k ! nat (rt_max k - 1))) := None),
          rt_items := pq_heap_Remove (rt_items k) (nat (rt_max k - 1))\<rparr>"
  have "add_evict k (rt_max k - 1) = add_evict k' (rt_max k)"
    using assms by (subst add_evict.simps) (simp add: k'_def)
  also have "int (length (rt_items k')) = rt_max k" using assms by (simp add: k'_def)
  then have "add_evict k' (rt_max k) = Ok k'" by (subst add_evict.simps) simp
  finally show ?thesis by (simp add: k'_def)
qed

lemma views_minus_last:
  "rt_items k \<noteq> [] \<Longrightarrow>
   rt_views k - {#item_view (last (rt_items k))#} = mset (map item_view (butlast (rt_items k)))"
proof -
  assume "rt_items k \<noteq> []"
  then have "rt_items k = butlast (rt_items k) @ [last (rt_items k)]" by simp
  then have "rt_views k = mset (map item_view (butlast (rt_items k) @ [last (rt_items k)]))"
    unfolding rt_views_def by (rule arg_cong)
  then show ?thesis by simp
qed

text \<open>
  Adding a new node to a table with room inserts it; adding it to a full table also drops the
  item in the last position of the array.
\<close>

definition accepts :: "(remoteNode \<times> nat \<Rightarrow> bool) \<Rightarrow> infohash \<Rightarrow> bool" where
  "accepts P ident \<longleftrightarrow> (\<forall>rn d. node_ok ident (rn, d) \<longrightarrow> P (rn, d))"

lemma routingTable_add_new:
  assumes wf: "rt_wf_on P k" and P: "accepts P (rt_id k)" and new: "\<not> add_ignored k rn"
  shows "\<exists>k' d. routingTable_add k rn = Ok k' \<and> rt_wf_on P k' \<and> rt_id k' = rt_id k \<and> rt_max k' = rt_max k \<and>
    Infohash_Distance (rt_id k) (rn_id rn) = Ok d \<and>
    rt_views k' = add_mset (rn, d)
      (if int (length (rt_items k)) < rt_max k then rt_views k
       else mset (map item_view (butlast (rt_items k))))"
proof -
  from new have rn: "Infohash_Valid (rn_id rn)" "rn_id rn \<noteq> rt_id k" "rt_addresses k (node_key rn) = None"
    by (auto simp: add_ignored_def)
  from wf have inv: "rt_inv_on P k" and len: "int (length (rt_items k)) \<le> rt_max k" and max: "2 \<le> rt_max k"
    by (auto simp: rt_wf_on_def rt_inv_on_def)
  have "Infohash_Valid (rt_id k)" using inv by (simp add: rt_inv_on_def)
  then obtain d where d: "Infohash_Distance (rt_id k) (rn_id rn) = Ok d"
    using rn by (simp add: Infohash_Distance_eq)
  with P rn have ok: "P (rn, d)" by (simp add: accepts_def node_ok_def)
  define x where "x = \<lparr>item_value = rn, item_distance = d, item_index = 0\<rparr>"
  define k1 where "k1 = k\<lparr>rt_addresses := (rt_addresses k)(node_key rn \<mapsto> rn),
                          rt_items := pq_heap_Push (rt_items k) x\<rparr>"
  have k1: "rt_inv_on P k1" "rt_views k1 = add_mset (rn, d) (rt_views k)"
    using rt_inv_push [of P k rn d k1] inv ok rn by (simp_all add: k1_def x_def)
  have len1: "length (rt_items k1) = Suc (length (rt_items k))"
    using arg_cong [OF k1(2), of size] by (simp add: size_rt_views)
  have add: "routingTable_add k rn =
      (if rt_max k < int (length (rt_items k1)) then add_evict k1 (rt_max k1 - 1) else Ok k1)"
    using rn d by (simp add: routingTable_add_def k1_def x_def Let_def)
  have k1_fields: "rt_id k1 = rt_id k" "rt_max k1 = rt_max k" by (simp_all add: k1_def)
  show ?thesis
  proof (cases "int (length (rt_items k)) < rt_max k")
    case True
    with k1 len1 add d k1_fields show ?thesis by (simp add: rt_wf_on_def)
  next
    case False
    with len have full: "int (length (rt_items k)) = rt_max k" by simp
    define i where "i = nat (rt_max k - 1)"
    have i: "length (rt_items k) = Suc i" "1 \<le> i" using full max by (auto simp: i_def)
    have evict: "add_evict k1 (rt_max k1 - 1) =
        Ok (k1\<lparr>rt_addresses := (rt_addresses k1)(node_key (item_value (rt_items k1 ! i)) := None),
              rt_items := pq_heap_Remove (rt_items k1) i\<rparr>)"
      using add_evict_one [of k1] full len1 max by (simp add: k1_fields i_def)
    define k' where "k' = k1\<lparr>rt_addresses := (rt_addresses k1)(node_key (item_value (rt_items k1 ! i)) := None),
              rt_items := pq_heap_Remove (rt_items k1) i\<rparr>"
    have k': "rt_inv_on P k'" "rt_views k' = rt_views k1 - {#item_view (rt_items k1 ! i)#}"
      using rt_inv_remove [OF k1(1), of i k'] len1 i by (simp_all add: k'_def)
    have "map item_view (rt_items k1) ! i = map item_view (rt_items k) ! i"
      using i pq.Push_frame [of "rt_items k" i x] by (simp add: k1_def parent_def)
    moreover have "i < length (rt_items k1)" using len1 i by simp
    ultimately have "item_view (rt_items k1 ! i) = item_view (last (rt_items k))"
      using i by (metis diff_Suc_1 last_conv_nth length_0_conv lessI nat.distinct(1) nth_map)
    moreover have ne: "rt_items k \<noteq> []" using i by auto
    moreover from ne have "item_view (last (rt_items k)) \<in># rt_views k" by (simp add: set_rt_views)
    ultimately have "rt_views k' = add_mset (rn, d) (mset (map item_view (butlast (rt_items k))))"
      unfolding k'(2) k1(2) by (simp add: diff_union_swap2 views_minus_last)
    moreover have "length (rt_items k') = length (rt_items k)" using len1 by (simp add: k'_def)
    ultimately show ?thesis
      using False full len1 add evict k'(1) d k1_fields by (simp add: rt_wf_on_def k'_def)
  qed
qed

lemma accepts_node_ok [simp]: "accepts (node_ok ident) ident"
  by (simp add: accepts_def)

lemma accepts_valid [simp]: "accepts (\<lambda>e. Infohash_Valid (rn_id (fst e))) ident"
  by (simp add: accepts_def node_ok_def)

lemma newRoutingTable_wf:
  "Infohash_Valid ident \<Longrightarrow> 2 \<le> mx \<Longrightarrow>
   \<exists>k. newRoutingTable ident mx = Ok k \<and> rt_wf k \<and> rt_items k = [] \<and> rt_id k = ident \<and> rt_max k = mx"
  by (simp add: newRoutingTable_def routingTable_flush_def heap_Init_def pq_Len_def rt_wf_defs
      pq_indexed_def closest_first_def rt_nodes_def)

lemma routingTable_flush_wf:
  "rt_wf k \<Longrightarrow> rt_wf (routingTable_flush k) \<and> rt_nodes (routingTable_flush k) = []"
  by (simp add: routingTable_flush_def rt_wf_defs pq_indexed_def closest_first_def rt_nodes_def)

lemma get_loop_take: "get_loop n xs = map item_value (take (nat n) xs)"
  by (induction n xs rule: get_loop.induct) (auto simp: nat_diff_distrib take_Cons')

lemma routingTable_get_eq:
  "routingTable_get k n = (if n = 0 then rt_nodes k else take (nat n) (rt_nodes k))"
  by (simp add: routingTable_get_def get_loop_take rt_nodes_def take_map)

section \<open>The contract the rest of the node relies on\<close>

text \<open>
  What a client may assume of the table: adding a node to a well-formed table always returns a
  well-formed table, keeps the fixed part of it, and holds no node the client did not add.
\<close>

fun add_all :: "('t \<Rightarrow> 'n \<Rightarrow> 't outcome) \<Rightarrow> 't \<Rightarrow> 'n list \<Rightarrow> 't outcome" where
  "add_all add t [] = Ok t"
| "add_all add t (n # ns) =
     (case add t n of Ok t' \<Rightarrow> add_all add t' ns | Err e \<Rightarrow> Err e | Panic p \<Rightarrow> Panic p | Hang \<Rightarrow> Hang)"

locale node_table =
  fixes add :: "'t \<Rightarrow> 'n \<Rightarrow> 't outcome" and clear :: "'t \<Rightarrow> 't"
    and wf :: "'t \<Rightarrow> bool" and nodes :: "'t \<Rightarrow> 'n list" and fixed :: "'t \<Rightarrow> 'f"
    and admissible :: "'f \<Rightarrow> 'n \<Rightarrow> bool"
  assumes add_total: "wf t \<Longrightarrow> \<exists>t'. add t n = Ok t' \<and> wf t' \<and> fixed t' = fixed t \<and>
      set (nodes t') \<subseteq> set (nodes t) \<union> {n. admissible (fixed t) n} \<inter> {n}"
    and clear_empty: "wf t \<Longrightarrow> wf (clear t) \<and> nodes (clear t) = [] \<and> fixed (clear t) = fixed t"
begin

lemma add_all_total:
  "wf t \<Longrightarrow> \<exists>t'. add_all add t ns = Ok t' \<and> wf t' \<and> fixed t' = fixed t \<and>
     set (nodes t') \<subseteq> set (nodes t) \<union> {n \<in> set ns. admissible (fixed t) n}"
proof (induction ns arbitrary: t)
  case (Cons n ns)
  from add_total [OF Cons.prems, of n] obtain t1 where
    t1: "add t n = Ok t1" "wf t1" "fixed t1 = fixed t"
      "set (nodes t1) \<subseteq> set (nodes t) \<union> {n. admissible (fixed t) n} \<inter> {n}" by blast
  from Cons.IH [OF t1(2)] obtain t2 where
    "add_all add t1 ns = Ok t2" "wf t2" "fixed t2 = fixed t1"
    "set (nodes t2) \<subseteq> set (nodes t1) \<union> {n \<in> set ns. admissible (fixed t1) n}" by blast
  with t1 show ?case by auto
qed simp

lemma clear_add_all:
  assumes "wf t"
  shows "\<exists>t'. add_all add (clear t) ns = Ok t' \<and> wf t' \<and> set (nodes t') \<subseteq> set ns"
  using add_all_total [of "clear t" ns] clear_empty [OF assms] by auto

end

abbreviation rt_fixed :: "routingTable \<Rightarrow> infohash \<times> int" where
  "rt_fixed k \<equiv> (rt_id k, rt_max k)"

abbreviation rt_admits :: "infohash \<times> int \<Rightarrow> remoteNode \<Rightarrow> bool" where
  "rt_admits f rn \<equiv> Infohash_Valid (rn_id rn) \<and> rn_id rn \<noteq> fst f"

lemma mset_rt_nodes: "mset (rt_nodes k) = image_mset fst (rt_views k)"
  by (simp add: rt_nodes_def rt_views_def comp_def flip: mset_map)

lemma mset_butlast_rt_nodes:
  "mset (butlast (rt_nodes k)) = image_mset fst (mset (map item_view (butlast (rt_items k))))"
  by (simp add: rt_nodes_def map_butlast comp_def flip: mset_map)

lemma length_rt_nodes [simp]: "length (rt_nodes k) = length (rt_items k)"
  by (simp add: rt_nodes_def)

lemma routingTable_add_nodes_on:
  assumes "rt_wf_on P k" "accepts P (rt_id k)"
  shows "\<exists>k'. routingTable_add k rn = Ok k' \<and> rt_wf_on P k' \<and> rt_fixed k' = rt_fixed k \<and>
    mset (rt_nodes k') =
      (if add_ignored k rn then mset (rt_nodes k)
       else if int (length (rt_nodes k)) < rt_max k then add_mset rn (mset (rt_nodes k))
       else add_mset rn (mset (butlast (rt_nodes k))))"
proof (cases "add_ignored k rn")
  case True
  with assms show ?thesis by (simp add: add_ignored_eq)
next
  case False
  from routingTable_add_new [OF assms False] show ?thesis
    using False by (auto simp: mset_rt_nodes mset_butlast_rt_nodes simp del: mset_map)
qed

lemma routingTable_add_nodes:
  assumes "rt_wf k"
  shows "\<exists>k'. routingTable_add k rn = Ok k' \<and> rt_wf k' \<and> rt_fixed k' = rt_fixed k \<and>
    mset (rt_nodes k') =
      (if add_ignored k rn then mset (rt_nodes k)
       else if int (length (rt_nodes k)) < rt_max k then add_mset rn (mset (rt_nodes k))
       else add_mset rn (mset (butlast (rt_nodes k))))"
  using routingTable_add_nodes_on [of "node_ok (rt_id k)" k rn] assms by (auto simp: rt_wf_def)

lemma routingTable_add_Ok:
  "rt_wf k \<Longrightarrow> \<exists>k'. routingTable_add k rn = Ok k' \<and> rt_wf k' \<and> rt_id k' = rt_id k \<and> rt_max k' = rt_max k"
  using routingTable_add_nodes [of k rn] by auto

lemma node_table_on:
  assumes "\<And>k. W k \<longleftrightarrow> rt_wf_on (P (rt_id k)) k" "\<And>ident. accepts (P ident) ident"
  shows "node_table routingTable_add routingTable_flush W rt_nodes rt_fixed rt_admits"
proof
  fix k :: routingTable and rn :: remoteNode
  assume "W k"
  then have wf: "rt_wf_on (P (rt_id k)) k" by (simp add: assms(1))
  then obtain k' where k': "routingTable_add k rn = Ok k'" "rt_wf_on (P (rt_id k)) k'" "rt_fixed k' = rt_fixed k"
    "mset (rt_nodes k') =
      (if add_ignored k rn then mset (rt_nodes k)
       else if int (length (rt_nodes k)) < rt_max k then add_mset rn (mset (rt_nodes k))
       else add_mset rn (mset (butlast (rt_nodes k))))"
    using routingTable_add_nodes_on [OF wf assms(2), of rn] by blast
  have "set (rt_nodes k') \<subseteq> set (rt_nodes k) \<union> {n. rt_admits (rt_fixed k) n} \<inter> {rn}"
    using arg_cong [OF k'(4), of set_mset]
    by (auto simp: add_ignored_def split: if_splits dest: in_set_butlastD)
  with k' show "\<exists>k'. routingTable_add k rn = Ok k' \<and> W k' \<and> rt_fixed k' = rt_fixed k \<and>
      set (rt_nodes k') \<subseteq> set (rt_nodes k) \<union> {n. rt_admits (rt_fixed k) n} \<inter> {rn}"
    by (auto simp: assms(1))
  show "W (routingTable_flush k) \<and> rt_nodes (routingTable_flush k) = [] \<and>
      rt_fixed (routingTable_flush k) = rt_fixed k"
    using wf by (simp add: assms(1) routingTable_flush_def rt_wf_on_def rt_inv_on_def pq_indexed_def
        closest_first_def rt_nodes_def)
qed

interpretation rt: node_table routingTable_add routingTable_flush rt_wf rt_nodes rt_fixed rt_admits
  by (rule node_table_on [of _ node_ok]) (simp_all add: rt_wf_def)

interpretation rt_weak: node_table routingTable_add routingTable_flush rt_sound rt_nodes rt_fixed rt_admits
  by (rule node_table_on [of _ "\<lambda>_ e. Infohash_Valid (rn_id (fst e))"]) (simp_all add: rt_sound_def)

section \<open>Writing through a shared identifier\<close>

text \<open>
  The table hands out pointers. A caller that overwrites the identifier of a node it got from
  \<^verbatim>\<open>get\<close> changes the node in the array and in the map; the array is not reordered.
\<close>

definition touch_node :: "remoteNode \<Rightarrow> infohash \<Rightarrow> remoteNode \<Rightarrow> remoteNode" where
  "touch_node rn rid m = (if m = rn then m\<lparr>rn_id := rid\<rparr> else m)"

definition rt_touch :: "routingTable \<Rightarrow> remoteNode \<Rightarrow> infohash \<Rightarrow> routingTable" where
  "rt_touch k rn rid =
     k\<lparr>rt_items := map (\<lambda>it. it\<lparr>item_value := touch_node rn rid (item_value it)\<rparr>) (rt_items k),
       rt_addresses := (\<lambda>a. map_option (touch_node rn rid) (rt_addresses k a))\<rparr>"

lemma node_key_touch [simp]: "node_key (touch_node rn rid m) = node_key m"
  by (simp add: touch_node_def node_key_def)

lemma rt_nodes_touch: "rt_nodes (rt_touch k rn rid) = map (touch_node rn rid) (rt_nodes k)"
  by (simp add: rt_nodes_def rt_touch_def)

lemma rt_touch_sound:
  assumes sound: "rt_sound k" and rid: "Infohash_Valid rid"
  shows "rt_sound (rt_touch k rn rid)"
proof -
  let ?k = "rt_touch k rn rid"
  have k: "Infohash_Valid (rt_id k)" "2 \<le> rt_max k" "pq_indexed (rt_items k)" "closest_first (rt_items k)"
    "\<forall>it \<in> set (rt_items k). Infohash_Valid (rn_id (item_value it))"
    "distinct (map node_key (rt_nodes k))" "int (length (rt_items k)) \<le> rt_max k"
    and addr: "rt_addresses k a = Some n \<longleftrightarrow> n \<in> set (rt_nodes k) \<and> node_key n = a" for a n
    using sound unfolding rt_sound_def rt_wf_on_def rt_inv_on_def by auto
  have "rt_addresses ?k a = Some n \<longleftrightarrow> n \<in> set (rt_nodes ?k) \<and> node_key n = a" for a n
  proof -
    have "rt_addresses ?k a = Some n \<longleftrightarrow> (\<exists>m. rt_addresses k a = Some m \<and> n = touch_node rn rid m)"
      by (auto simp: rt_touch_def)
    also have "\<dots> \<longleftrightarrow> n \<in> set (rt_nodes ?k) \<and> node_key n = a" by (auto simp: addr rt_nodes_touch)
    finally show ?thesis .
  qed
  moreover have "pq_indexed (rt_items ?k)" using k(3) by (simp add: pq_indexed_def rt_touch_def)
  moreover have "closest_first (rt_items ?k)"
  proof -
    have "(i - 1) div 2 < length (rt_items k)" if "i < length (rt_items k)" for i using that by linarith
    then show ?thesis using k(4) by (simp add: closest_first_def rt_touch_def)
  qed
  moreover have "map node_key (rt_nodes ?k) = map node_key (rt_nodes k)"
    by (simp add: rt_nodes_touch)
  moreover have "\<forall>it \<in> set (rt_items ?k). Infohash_Valid (rn_id (item_value it))"
    using k(5) rid by (auto simp: rt_touch_def touch_node_def)
  moreover have "rt_id ?k = rt_id k" "rt_max ?k = rt_max k" "length (rt_items ?k) = length (rt_items k)"
    by (simp_all add: rt_touch_def)
  ultimately show ?thesis using k(1,2,6,7) by (simp add: rt_sound_def rt_wf_on_def rt_inv_on_def)
qed

section \<open>Properties\<close>

text \<open>C8: on a well-formed table \<^verbatim>\<open>add\<close> never panics and returns a well-formed table (heap order,
  index fields, distances, capacity, and the address map in step with the array). A node with an
  invalid identifier, the table's own identifier or a known address changes nothing; otherwise the
  node is in the table afterwards, and when the table was full exactly the node in the last
  position of the array has gone.\<close>

theorem add_spec:
  assumes "rt_wf k"
  shows "\<exists>k'. routingTable_add k rn = Ok k' \<and> rt_wf k' \<and> rt_id k' = rt_id k \<and> rt_max k' = rt_max k \<and>
    (if \<not> Infohash_Valid (rn_id rn) \<or> rn_id rn = rt_id k \<or> rt_addresses k (node_key rn) \<noteq> None
     then k' = k
     else if int (length (rt_nodes k)) < rt_max k
     then mset (rt_nodes k') = add_mset rn (mset (rt_nodes k))
     else mset (rt_nodes k') = add_mset rn (mset (butlast (rt_nodes k))))"
proof (cases "add_ignored k rn")
  case True
  with assms show ?thesis using add_ignored_eq [OF True] by (auto simp: add_ignored_def)
next
  case False
  from routingTable_add_nodes [OF assms, of rn] obtain k' where
    "routingTable_add k rn = Ok k'" "rt_wf k'" "rt_fixed k' = rt_fixed k"
    "mset (rt_nodes k') = (if int (length (rt_nodes k)) < rt_max k then add_mset rn (mset (rt_nodes k))
       else add_mset rn (mset (butlast (rt_nodes k))))"
    using False by auto
  with False show ?thesis unfolding add_ignored_def by (intro exI [of _ k']) auto
qed

definition empty_table :: "infohash \<Rightarrow> int \<Rightarrow> routingTable" where
  "empty_table ident mx = \<lparr>rt_id = ident, rt_max = mx, rt_items = [], rt_addresses = Map.empty\<rparr>"

lemma newRoutingTable_eq: "newRoutingTable ident mx = Ok (empty_table ident mx)"
  by (simp add: newRoutingTable_def routingTable_flush_def heap_Init_def pq_Len_def empty_table_def)

lemma empty_table_wf: "Infohash_Valid ident \<Longrightarrow> 2 \<le> mx \<Longrightarrow> rt_wf (empty_table ident mx)"
  using newRoutingTable_wf [of ident mx] by (simp add: newRoutingTable_eq)

definition sample_node :: "nat \<Rightarrow> byte \<Rightarrow> remoteNode" where
  "sample_node p b = \<lparr>rn_addr = \<lparr>addr_IP = [10, 0, 0, 1], addr_Port = p, addr_Zone = []\<rparr>,
     rn_id = replicate 20 b\<rparr>"

theorem add_spec_witness:
  "\<exists>k'. routingTable_add (empty_table (replicate 20 0) 2) (sample_node 6881 7) = Ok k' \<and> rt_wf k' \<and>
     mset (rt_nodes k') = {#sample_node 6881 7#}"
proof -
  have wf: "rt_wf (empty_table (replicate 20 0) 2)"
    by (rule empty_table_wf) (simp_all add: Infohash_Valid_def)
  show ?thesis
    using add_spec [OF wf, of "sample_node 6881 7"]
    by (auto simp: sample_node_def empty_table_def Infohash_Valid_def rt_nodes_def)
qed

text \<open>
  The states of a table the program can be in: a new one (the node makes it with its own
  identifier and capacity 2000), then any sequence of \<^verbatim>\<open>add\<close> and \<^verbatim>\<open>flush\<close>.
\<close>

inductive rt_reachable :: "infohash \<Rightarrow> int \<Rightarrow> routingTable \<Rightarrow> bool" for ident mx where
  reach_new: "newRoutingTable ident mx = Ok k \<Longrightarrow> rt_reachable ident mx k"
| reach_add: "rt_reachable ident mx k \<Longrightarrow> routingTable_add k rn = Ok k' \<Longrightarrow> rt_reachable ident mx k'"
| reach_flush: "rt_reachable ident mx k \<Longrightarrow> rt_reachable ident mx (routingTable_flush k)"

lemma rt_reachable_wf:
  assumes "rt_reachable ident mx k" "Infohash_Valid ident" "2 \<le> mx"
  shows "rt_wf k \<and> rt_id k = ident \<and> rt_max k = mx"
  using assms
proof (induction rule: rt_reachable.induct)
  case (reach_new k)
  then have "k = empty_table ident mx" by (simp add: newRoutingTable_eq)
  with reach_new show ?case by (simp add: empty_table_wf) (simp add: empty_table_def)
next
  case (reach_add k rn k')
  then show ?case using routingTable_add_Ok [of k rn] by auto
next
  case (reach_flush k)
  then show ?case using rt.clear_empty [of k] by auto
qed

lemma rt_wf_addresses:
  assumes "rt_wf k"
  shows "rt_addresses k = map_of (map (\<lambda>n. (node_key n, n)) (rt_nodes k))"
proof
  fix a
  have keys: "distinct (map node_key (rt_nodes k))"
    and addr: "rt_addresses k a = Some n \<longleftrightarrow> n \<in> set (rt_nodes k) \<and> node_key n = a" for n
    using assms unfolding rt_wf_defs by blast+
  have "map_of (map (\<lambda>n. (node_key n, n)) (rt_nodes k)) a = Some n \<longleftrightarrow>
      n \<in> set (rt_nodes k) \<and> node_key n = a" for n
    using keys by (auto simp: map_of_eq_Some_iff comp_def)
  with addr show "rt_addresses k a = map_of (map (\<lambda>n. (node_key n, n)) (rt_nodes k)) a"
    by (intro option_eqI) simp
qed

lemma card_dom_addresses:
  assumes "rt_wf k"
  shows "card (dom (rt_addresses k)) = length (rt_items k)"
proof -
  have "distinct (map node_key (rt_nodes k))" using assms by (simp add: rt_wf_defs)
  then have "card (node_key ` set (rt_nodes k)) = length (rt_items k)"
    using distinct_card [of "map node_key (rt_nodes k)"] by simp
  moreover have "dom (rt_addresses k) = node_key ` set (rt_nodes k)"
    by (simp add: rt_wf_addresses [OF assms] dom_map_of_conv_image_fst image_image)
  ultimately show ?thesis by simp
qed



lemma root_greatest_distance:
  assumes "rt_wf k" "it \<in> set (rt_items k)"
  shows "item_distance it \<le> item_distance (hd (rt_items k))"
proof -
  have "closest_first (rt_items k)" using assms(1) by (simp add: rt_wf_defs)
  from pq.root_greatest [OF this [unfolded closest_first_iff], of "item_view it"] assms(2)
  show ?thesis by (cases "rt_items k") auto
qed

text \<open>The distance field is the real one, so the root is the closest node of the table.\<close>

lemma get_head_closest:
  assumes wf: "rt_wf k" and n: "n \<in> set (rt_nodes k)"
  shows "common_prefix_length (rt_id k) (rn_id n) \<le> common_prefix_length (rt_id k) (rn_id (hd (rt_nodes k)))"
proof -
  have dist: "item_distance it = common_prefix_length (rt_id k) (rn_id (item_value it))"
    if "it \<in> set (rt_items k)" for it
    using wf that by (auto simp: rt_wf_defs node_ok_def Infohash_Distance_eq)
  from n obtain it where it: "it \<in> set (rt_items k)" "n = item_value it" by (auto simp: rt_nodes_def)
  then have ne: "rt_items k \<noteq> []" by auto
  from root_greatest_distance [OF wf it(1)] dist it ne show ?thesis
    by (simp add: rt_nodes_def hd_map)
qed

text \<open>C22: after adding a node to a table, the first node \<^verbatim>\<open>get\<close> returns shares at least as long a
  prefix with the table's identifier as the new node and as every node of the table before: the
  eviction of a full table never loses the closest node.\<close>

theorem add_keeps_closest:
  assumes wf: "rt_wf k" and add: "routingTable_add k rn = Ok k'"
    and rn: "Infohash_Valid (rn_id rn)" "rn_id rn \<noteq> rt_id k"
    and n: "n \<in> set (rt_nodes k) \<or> (n = rn \<and> rt_addresses k (node_key rn) = None)"
  shows "\<exists>best. routingTable_get k' 1 = [best] \<and>
    common_prefix_length (rt_id k) (rn_id n) \<le> common_prefix_length (rt_id k) (rn_id best)"
proof -
  from routingTable_add_nodes [OF wf, of rn] add have
    k': "rt_wf k'" "rt_id k' = rt_id k" and
    nodes: "mset (rt_nodes k') = (if add_ignored k rn then mset (rt_nodes k)
       else if int (length (rt_nodes k)) < rt_max k then add_mset rn (mset (rt_nodes k))
       else add_mset rn (mset (butlast (rt_nodes k))))" by auto
  have set_nodes: "set (rt_nodes k') = (if add_ignored k rn then set (rt_nodes k)
       else if int (length (rt_nodes k)) < rt_max k then insert rn (set (rt_nodes k))
       else insert rn (set (butlast (rt_nodes k))))"
    using arg_cong [OF nodes, of set_mset] by (simp split: if_splits)
  have sub: "m \<in> set (rt_nodes k')" if "m = hd (rt_nodes k) \<and> rt_nodes k \<noteq> [] \<or> m = rn \<and> \<not> add_ignored k rn" for m
  proof (cases "int (length (rt_nodes k)) < rt_max k \<or> add_ignored k rn")
    case True
    have "hd (rt_nodes k) \<in> set (rt_nodes k)" if "rt_nodes k \<noteq> []" using that by simp
    with True that show ?thesis unfolding set_nodes by (auto simp del: hd_in_set)
  next
    case False
    have "2 \<le> rt_max k" using wf by (simp add: rt_wf_defs)
    with False have "2 \<le> length (rt_nodes k)" by simp
    then obtain x y zs where "rt_nodes k = x # y # zs"
      by (metis Suc_le_length_iff numeral_2_eq_2)
    then show ?thesis using False that unfolding set_nodes by auto
  qed
  obtain m where m: "m \<in> set (rt_nodes k')"
    "common_prefix_length (rt_id k) (rn_id n) \<le> common_prefix_length (rt_id k) (rn_id m)"
  proof (cases "n \<in> set (rt_nodes k)")
    case True
    then show ?thesis using that [of "hd (rt_nodes k)"] sub get_head_closest [OF wf True] by fastforce
  next
    case False
    with n rn have "n = rn" "\<not> add_ignored k rn" by (auto simp: add_ignored_def)
    then show ?thesis using that [of rn] sub by simp
  qed
  from m(1) obtain best rest where "rt_nodes k' = best # rest" by (cases "rt_nodes k'") auto
  then show ?thesis using m get_head_closest [OF k'(1) m(1)] k'(2) by (auto simp: routingTable_get_eq)
qed

text \<open>A table of capacity 0 or less panics with an index out of range at the first node it is
  given, after it has put the node in its map.\<close>

theorem add_without_capacity_panics:
  assumes "rt_max k \<le> 0" "Infohash_Valid (rt_id k)" "Infohash_Valid (rn_id rn)" "rn_id rn \<noteq> rt_id k"
    and "rt_addresses k (node_key rn) = None"
  shows "routingTable_add k rn = Panic IndexOutOfRange"
  using assms by (simp add: routingTable_add_def Infohash_Distance_eq Let_def add_evict.simps)

theorem add_without_capacity_panics_witness:
  "routingTable_add (empty_table (replicate 20 0) 0) (sample_node 6881 7) = Panic IndexOutOfRange"
  by (rule add_without_capacity_panics) (simp_all add: empty_table_def sample_node_def Infohash_Valid_def)

theorem add_keeps_closest_witness:
  "\<exists>k' best. routingTable_add (empty_table (replicate 20 0) 2) (sample_node 6881 7) = Ok k' \<and>
     routingTable_get k' 1 = [best] \<and>
     common_prefix_length (replicate 20 0) (replicate 20 7) \<le> common_prefix_length (replicate 20 0) (rn_id best)"
proof -
  have wf: "rt_wf (empty_table (replicate 20 0) 2)"
    by (rule empty_table_wf) (simp_all add: Infohash_Valid_def)
  from routingTable_add_Ok [OF this, of "sample_node 6881 7"] obtain k' where
    k': "routingTable_add (empty_table (replicate 20 0) 2) (sample_node 6881 7) = Ok k'" by blast
  have "\<exists>best. routingTable_get k' 1 = [best] \<and>
      common_prefix_length (rt_id (empty_table (replicate 20 0) 2)) (rn_id (sample_node 6881 7))
      \<le> common_prefix_length (rt_id (empty_table (replicate 20 0) 2)) (rn_id best)"
    by (rule add_keeps_closest [OF wf k']) (simp_all add: empty_table_def sample_node_def Infohash_Valid_def)
  with k' show ?thesis by (simp add: empty_table_def sample_node_def)
qed

text \<open>\<^verbatim>\<open>get(0)\<close> lists every node once, \<^verbatim>\<open>get(n)\<close> for \<^verbatim>\<open>n\<close> above 0 at most \<^verbatim>\<open>n\<close> of them and for
  a negative \<^verbatim>\<open>n\<close> none; after \<^verbatim>\<open>flush\<close> nothing is listed, \<^verbatim>\<open>isEmpty\<close> holds, and the table is
  well-formed and ready for the same nodes again.\<close>

theorem get_flush_spec:
  assumes "rt_wf k"
  shows "routingTable_get k 0 = rt_nodes k \<and> distinct (routingTable_get k 0) \<and>
    routingTable_get k (int (Suc m)) = take (Suc m) (routingTable_get k 0) \<and>
    routingTable_get k (- int (Suc m)) = [] \<and>
    routingTable_isEmpty (routingTable_flush k) \<and> rt_wf (routingTable_flush k) \<and>
    routingTable_get (routingTable_flush k) n = [] \<and>
    (\<exists>k'. add_all routingTable_add (routingTable_flush k) (rt_nodes k) = Ok k' \<and>
       set (rt_nodes k') \<subseteq> set (rt_nodes k))"
proof -
  have "distinct (rt_nodes k)" using assms by (auto simp: rt_wf_defs distinct_map)
  moreover have "nat (int (Suc m)) = Suc m" by simp
  moreover have "rt_items (routingTable_flush k) = []" by (simp add: routingTable_flush_def)
  ultimately show ?thesis
    using rt.clear_add_all [OF assms, of "rt_nodes k"] rt.clear_empty [OF assms]
    by (auto simp: routingTable_get_eq routingTable_isEmpty_def rt_nodes_def)
qed

theorem get_flush_spec_witness:
  "routingTable_isEmpty (routingTable_flush (empty_table (replicate 20 0) 2)) \<and>
   routingTable_get (empty_table (replicate 20 0) 2) (- int (Suc 4)) = []"
proof -
  have "rt_wf (empty_table (replicate 20 0) 2)"
    by (rule empty_table_wf) (simp_all add: Infohash_Valid_def)
  from get_flush_spec [OF this, of 4] show ?thesis by blast
qed

end
