(* ===== verification/Slab.thy ===== *)
theory Slab
  imports Go_Prelude
begin

text \<open>
  \<^verbatim>\<open>dht/slab.go\<close>: a pool of equally sized blocks kept in a buffered channel. Receiving from the
  empty channel and sending to the full one block for ever when nobody else is there to act, which
  is \<^const>\<open>Hang\<close> here: one goroutine, the packet reader, is the only user of the pool.
\<close>

section \<open>Blocks and the pool\<close>

text \<open>A Go slice: the array it sees up to its capacity, and its length.\<close>

record block =
  blk_array :: "byte list"
  blk_len :: nat

record slab =
  slab_cap :: nat
  slab_queue :: "block list"

definition make_block :: "int \<Rightarrow> block outcome" where
  "make_block n =
     (if n < 0 then Panic MakeSliceLength
      else Ok \<lparr>blk_array = replicate (nat n) 0, blk_len = nat n\<rparr>)"

definition slab_send :: "slab \<Rightarrow> block \<Rightarrow> slab outcome" where
  "slab_send s x =
     (if length (slab_queue s) < slab_cap s then Ok (s\<lparr>slab_queue := slab_queue s @ [x]\<rparr>) else Hang)"

fun newSlab_loop :: "int \<Rightarrow> nat \<Rightarrow> slab \<Rightarrow> slab outcome" where
  "newSlab_loop blockSize 0 s = Ok s"
| "newSlab_loop blockSize (Suc left) s =
     and_then (make_block blockSize) (\<lambda>b. and_then (slab_send s b) (newSlab_loop blockSize left))"

definition newSlab :: "int \<Rightarrow> int \<Rightarrow> slab outcome" where
  "newSlab blockSize numBlocks =
     (if numBlocks < 0 then Panic MakeChanSize
      else newSlab_loop blockSize (nat numBlocks) \<lparr>slab_cap = nat numBlocks, slab_queue = []\<rparr>)"

definition slab_alloc :: "slab \<Rightarrow> (block \<times> slab) outcome" where
  "slab_alloc s = (case slab_queue s of [] \<Rightarrow> Hang | x # q \<Rightarrow> Ok (x, s\<lparr>slab_queue := q\<rparr>))"

definition slab_free :: "slab \<Rightarrow> block \<Rightarrow> slab outcome" where
  "slab_free s x = slab_send s (x\<lparr>blk_len := length (blk_array x)\<rparr>)"

section \<open>The contract of a pool\<close>

text \<open>
  A pool with a block left hands one out at full length, and takes back any block it gave. So a
  client that frees what it allocated, whatever it did to the contents and to the length of its
  slice in between, can go round for ever.
\<close>

locale block_pool =
  fixes alloc :: "'s \<Rightarrow> ('b \<times> 's) outcome" and free :: "'s \<Rightarrow> 'b \<Rightarrow> 's outcome"
    and wf :: "'s \<Rightarrow> bool" and avail :: "'s \<Rightarrow> nat" and room :: "'s \<Rightarrow> nat"
    and owned :: "'s \<Rightarrow> 'b \<Rightarrow> bool" and whole :: "'s \<Rightarrow> 'b \<Rightarrow> bool"
  assumes alloc_avail: "wf s \<Longrightarrow> 0 < avail s \<Longrightarrow> \<exists>x s'. alloc s = Ok (x, s') \<and> whole s x \<and> owned s' x \<and>
      wf s' \<and> avail s' = avail s - 1 \<and> room s' = Suc (room s)"
    and free_room: "wf s \<Longrightarrow> 0 < room s \<Longrightarrow> owned s x \<Longrightarrow> \<exists>s'. free s x = Ok s' \<and>
      wf s' \<and> avail s' = Suc (avail s) \<and> room s' = room s - 1"
begin

lemma round:
  assumes "wf s" "0 < avail s" and use: "\<And>x s'. whole s x \<Longrightarrow> owned s' x \<Longrightarrow> owned s' (f x)"
  shows "\<exists>x s1 s2. alloc s = Ok (x, s1) \<and> whole s x \<and> free s1 (f x) = Ok s2 \<and> wf s2 \<and>
    avail s2 = avail s \<and> room s2 = room s"
proof -
  from alloc_avail [OF assms(1,2)] obtain x s1 where
    s1: "alloc s = Ok (x, s1)" "whole s x" "owned s1 x" "wf s1" "avail s1 = avail s - 1" "room s1 = Suc (room s)"
    by blast
  from free_room [OF s1(4), of "f x"] use [OF s1(2,3)] s1(6) obtain s2 where
    "free s1 (f x) = Ok s2" "wf s2" "avail s2 = Suc (avail s1)" "room s2 = room s1 - 1" by auto
  with s1 assms(2) show ?thesis by auto
qed

end

section \<open>The slab is a pool\<close>

definition slab_wf :: "nat \<Rightarrow> slab \<Rightarrow> bool" where
  "slab_wf n s \<longleftrightarrow> length (slab_queue s) \<le> slab_cap s \<and>
     (\<forall>b \<in> set (slab_queue s). length (blk_array b) = n \<and> blk_len b = n)"

interpretation slab: block_pool slab_alloc slab_free "slab_wf n" "\<lambda>s. length (slab_queue s)"
  "\<lambda>s. slab_cap s - length (slab_queue s)" "\<lambda>_ b. length (blk_array b) = n"
  "\<lambda>_ b. length (blk_array b) = n \<and> blk_len b = n" for n
proof
  fix s :: slab and x :: block
  assume wf: "slab_wf n s"
  show "\<exists>x s'. slab_alloc s = Ok (x, s') \<and> (length (blk_array x) = n \<and> blk_len x = n) \<and>
      length (blk_array x) = n \<and> slab_wf n s' \<and> length (slab_queue s') = length (slab_queue s) - 1 \<and>
      slab_cap s' - length (slab_queue s') = Suc (slab_cap s - length (slab_queue s))"
    if "0 < length (slab_queue s)"
    using wf that by (cases "slab_queue s") (auto simp: slab_alloc_def slab_wf_def)
  show "\<exists>s'. slab_free s x = Ok s' \<and> slab_wf n s' \<and> length (slab_queue s') = Suc (length (slab_queue s)) \<and>
      slab_cap s' - length (slab_queue s') = slab_cap s - length (slab_queue s) - 1"
    if "0 < slab_cap s - length (slab_queue s)" "length (blk_array x) = n"
    using wf that by (auto simp: slab_free_def slab_send_def slab_wf_def)
qed

lemma newSlab_loop_Ok:
  assumes "0 \<le> blockSize" "length (slab_queue s) + left \<le> slab_cap s"
  shows "newSlab_loop blockSize left s =
    Ok (s\<lparr>slab_queue := slab_queue s @
       replicate left \<lparr>blk_array = replicate (nat blockSize) 0, blk_len = nat blockSize\<rparr>\<rparr>)"
  using assms(2)
  by (induction left arbitrary: s) (use assms(1) in \<open>auto simp: make_block_def slab_send_def\<close>)

text \<open>For a block size and a count that are not negative \<^verbatim>\<open>newSlab\<close> returns a full channel of
  \<^verbatim>\<open>numBlocks\<close> zeroed blocks. One round of the packet reader on a pool with a block left, taking
  a block, overwriting its contents, shortening the slice and giving it back, never blocks, gets a
  block of the full length, and leaves the same number of blocks of the same size.\<close>

theorem slab_round:
  assumes "0 \<le> blockSize" "0 \<le> numBlocks" "slab_wf n s" "slab_queue s \<noteq> []"
    and "\<And>x. length (blk_array (use x)) = length (blk_array x)"
  shows "(\<exists>s0. newSlab blockSize numBlocks = Ok s0 \<and> slab_wf (nat blockSize) s0 \<and>
       length (slab_queue s0) = nat numBlocks) \<and>
    (\<exists>x s1 s2. slab_alloc s = Ok (x, s1) \<and> blk_len x = n \<and> slab_free s1 (use x) = Ok s2 \<and>
       slab_wf n s2 \<and> length (slab_queue s2) = length (slab_queue s))"
proof
  show "\<exists>s0. newSlab blockSize numBlocks = Ok s0 \<and> slab_wf (nat blockSize) s0 \<and>
       length (slab_queue s0) = nat numBlocks"
    using assms(1,2) by (simp add: newSlab_def newSlab_loop_Ok slab_wf_def)
  show "\<exists>x s1 s2. slab_alloc s = Ok (x, s1) \<and> blk_len x = n \<and> slab_free s1 (use x) = Ok s2 \<and>
       slab_wf n s2 \<and> length (slab_queue s2) = length (slab_queue s)"
    using slab.round [of n s "use"] assms(3-5) by auto
qed

theorem slab_round_witness:
  "\<exists>s0. newSlab 8192 10 = Ok s0 \<and> slab_wf 8192 s0 \<and> length (slab_queue s0) = 10"
proof -
  have "slab_wf 1 \<lparr>slab_cap = 1, slab_queue = [\<lparr>blk_array = [0], blk_len = 1\<rparr>]\<rparr>"
    by (simp add: slab_wf_def)
  from slab_round [OF _ _ this, of 8192 10 "\<lambda>x. x\<lparr>blk_len := 0\<rparr>"] show ?thesis by simp
qed

end
