(* ===== verification/Node.thy ===== *)
theory Node
  imports Routing_Table Slab Torrent Go_Resolve
begin

text \<open>
  \<^verbatim>\<open>dht/node.go\<close>, \<^verbatim>\<open>dht/messages.go\<close>, \<^verbatim>\<open>dht/packet.go\<close> and \<^verbatim>\<open>dht/options.go\<close>: the DHT node. Its state is
  the record \<open>node\<close>; a handler maps a node to the node afterwards and the way the call ended, since
  Go handlers may change the state and still return an error.

  Outside the repository are the bencode package, the ARC cache of the blacklist and the resolver;
  they are the fields of the record \<open>env\<close>, and the cache's state is the type parameter of the node.
  The callbacks are called in goroutines of their own; the node records for which peers.
\<close>

section \<open>State\<close>

record packet =
  pkt_data :: "byte list"
  pkt_raddr :: UDPAddr

record 'c env =
  DecodeDict :: dict_decoder
  Encode :: "dict \<Rightarrow> byte list outcome"
  cache_Get :: "'c \<Rightarrow> string \<Rightarrow> bool \<times> 'c"
  cache_Add :: "'c \<Rightarrow> string \<Rightarrow> 'c"
  cache_New :: "int \<Rightarrow> 'c outcome"
  resolve :: resolver
  ListenPacket :: "string \<Rightarrow> string \<Rightarrow> string outcome"

text \<open>
  \<open>n_local\<close> is the text of \<^verbatim>\<open>conn.LocalAddr()\<close>; the two flags say whether the callbacks are set, and
  \<open>n_announced\<close> and \<open>n_bad\<close> are the calls made of them so far.
\<close>

record 'c node =
  n_id :: infohash
  n_family :: string
  n_address :: string
  n_port :: int
  n_local :: string
  n_rTable :: routingTable
  n_udpTimeout :: int
  n_packetsOut :: "packet list"
  n_blacklist :: "'c option"
  n_OnAnnouncePeer :: bool
  n_OnBadPeer :: bool
  n_announced :: "Peer list"
  n_bad :: "Peer list"

type_synonym 'c handled = "'c node \<times> unit outcome"

text \<open>Going on with the value of a call that leaves the node alone, and dropping a returned error.\<close>

definition with_val :: "'c node \<Rightarrow> 'a outcome \<Rightarrow> ('a \<Rightarrow> 'c handled) \<Rightarrow> 'c handled" where
  "with_val n r f = (case r of Ok x \<Rightarrow> f x | Err e \<Rightarrow> (n, Err e) | Panic p \<Rightarrow> (n, Panic p) | Hang \<Rightarrow> (n, Hang))"

fun ignore_err :: "'c handled \<Rightarrow> 'c handled" where
  "ignore_err (n, Err e) = (n, Ok ())"
| "ignore_err r = r"

text \<open>Going on after a call whose error is kept: only a panic or a wait stops the caller.\<close>

fun and_after :: "'c handled \<Rightarrow> ('c node \<Rightarrow> unit outcome \<Rightarrow> 'c handled) \<Rightarrow> 'c handled" where
  "and_after (n, Ok u) f = f n (Ok u)"
| "and_after (n, Err e) f = f n (Err e)"
| "and_after (n, Panic p) f = (n, Panic p)"
| "and_after (n, Hang) f = (n, Hang)"

section \<open>Sending\<close>

definition packetsOut_cap :: nat where
  "packetsOut_cap = 1024"

text \<open>\<^verbatim>\<open>n.packetsOut <- p\<close>: waits while the channel is full.\<close>

definition send_packet :: "'c node \<Rightarrow> packet \<Rightarrow> 'c handled" where
  "send_packet n p =
     (if length (n_packetsOut n) < packetsOut_cap
      then (n\<lparr>n_packetsOut := n_packetsOut n @ [p]\<rparr>, Ok ()) else (n, Hang))"

definition queueMsg :: "'c env \<Rightarrow> 'c node \<Rightarrow> remoteNode \<Rightarrow> dict \<Rightarrow> 'c handled" where
  "queueMsg env n rn data =
     with_val n (Encode env data) (\<lambda>b. send_packet n \<lparr>pkt_data = b, pkt_raddr = rn_addr rn\<rparr>)"

definition sendQuery ::
    "'c env \<Rightarrow> nat \<times> nat \<Rightarrow> 'c node \<Rightarrow> remoteNode \<Rightarrow> string \<Rightarrow> dict \<Rightarrow> 'c handled" where
  "sendQuery env r n rn qType a =
     (if Infohash_Equal (rn_id rn) (n_id n) then (n, Ok ())
      else
        (let t = NewTransactionID (fst r) (snd r); data = MakeQuery t qType a in
         with_val n (Encode env data) (\<lambda>b. send_packet n \<lparr>pkt_data = b, pkt_raddr = rn_addr rn\<rparr>)))"

text \<open>
  The draws a query needs: clock text and random number of \<^verbatim>\<open>GenInfohash\<close>, and the two numbers of the
  transaction identifier.
\<close>

record draws =
  d_now :: string
  d_random :: int
  d_trans :: "nat \<times> nat"

definition findNode :: "'c env \<Rightarrow> draws \<Rightarrow> 'c node \<Rightarrow> remoteNode \<Rightarrow> infohash \<Rightarrow> 'c handled" where
  "findNode env d n rn ident =
     (let target = GenInfohash (d_now d) (d_random d) in
      ignore_err (sendQuery env (d_trans d) n rn ''find_node''
        [(''id'', GStr (bytes_str ident)), (''target'', GStr (bytes_str target))]))"

text \<open>The second result is the identifier of \<^verbatim>\<open>rn\<close> afterwards, which \<^verbatim>\<open>GenerateNeighbour\<close> overwrites.\<close>

definition ping :: "'c env \<Rightarrow> draws \<Rightarrow> byte list \<Rightarrow> 'c node \<Rightarrow> remoteNode \<Rightarrow> 'c handled" where
  "ping env d spare n rn =
     with_val n (GenerateNeighbour spare (n_id n) (rn_id rn)) (\<lambda>(ident, rid).
       ignore_err (sendQuery env (d_trans d) n (rn\<lparr>rn_id := rid\<rparr>) ''ping''
         [(''id'', GStr (bytes_str ident))]))"

section \<open>The blacklist and the table\<close>

definition blacklist_Get :: "'c env \<Rightarrow> 'c node \<Rightarrow> string \<Rightarrow> (bool \<times> 'c node) outcome" where
  "blacklist_Get env n key =
     (case n_blacklist n of
        None \<Rightarrow> Panic NilDereference
      | Some c \<Rightarrow> (let (black, c') = cache_Get env c key in Ok (black, n\<lparr>n_blacklist := Some c'\<rparr>)))"

definition blacklist_Add :: "'c env \<Rightarrow> 'c node \<Rightarrow> string \<Rightarrow> 'c node outcome" where
  "blacklist_Add env n key =
     (case n_blacklist n of
        None \<Rightarrow> Panic NilDereference
      | Some c \<Rightarrow> Ok (n\<lparr>n_blacklist := Some (cache_Add env c key)\<rparr>))"

definition table_add :: "'c node \<Rightarrow> remoteNode \<Rightarrow> 'c node outcome" where
  "table_add n rn = and_then (routingTable_add (n_rTable n) rn) (\<lambda>t. Ok (n\<lparr>n_rTable := t\<rparr>))"

section \<open>Message handlers\<close>

definition onPingQuery :: "'c env \<Rightarrow> 'c node \<Rightarrow> remoteNode \<Rightarrow> dict \<Rightarrow> 'c handled" where
  "onPingQuery env n rn msg =
     with_val n (GetString msg ''t'') (\<lambda>t.
       ignore_err (queueMsg env n rn (MakeResponse t [(''id'', GStr (bytes_str (n_id n)))])))"

text \<open>\<^verbatim>\<open>msg["t"].(string)\<close>\<close>

definition assert_string :: "goval option \<Rightarrow> string outcome" where
  "assert_string v = (case v of Some (GStr s) \<Rightarrow> Ok s | _ \<Rightarrow> Panic TypeAssertion)"

definition onGetPeersQuery :: "'c env \<Rightarrow> 'c node \<Rightarrow> remoteNode \<Rightarrow> dict \<Rightarrow> 'c handled" where
  "onGetPeersQuery env n rn msg =
     with_val n (GetMap msg ''a'') (\<lambda>a.
     with_val n (GetString a ''info_hash'') (\<lambda>torrent.
     with_val n (InfohashFromString torrent) (\<lambda>th.
     with_val n (slice_go torrent 0 2) (\<lambda>token.
     with_val n (GenerateNeighbour [] (n_id n) th) (\<lambda>(neighbour, _).
     with_val n (assert_string (map_of msg ''t'')) (\<lambda>t.
       ignore_err (queueMsg env n rn (MakeResponse t
         [(''id'', GStr (bytes_str neighbour)), (''token'', GStr token), (''nodes'', GStr [])]))))))))"

text \<open>
  The address a peer announces: its own, unless the message has a port and an \<^verbatim>\<open>implied_port\<close> of 0.
  The text is built as \<^verbatim>\<open>host:port\<close>, without brackets.
\<close>

definition announced_addr :: "'c env \<Rightarrow> 'c node \<Rightarrow> remoteNode \<Rightarrow> dict \<Rightarrow> string \<Rightarrow> UDPAddr outcome" where
  "announced_addr env n rn a host =
     (case GetInt a ''port'' of
        Ok newPort \<Rightarrow>
          (case GetInt a ''implied_port'' of
             Ok iPort \<Rightarrow>
               if iPort = 0
               then ResolveUDPAddr (resolve env) (n_family n) (host @ '':'' @ dec_int newPort)
               else Ok (rn_addr rn)
           | _ \<Rightarrow> Ok (rn_addr rn))
      | _ \<Rightarrow> Ok (rn_addr rn))"

definition onAnnouncePeerQuery :: "'c env \<Rightarrow> 'c node \<Rightarrow> remoteNode \<Rightarrow> dict \<Rightarrow> 'c handled" where
  "onAnnouncePeerQuery env n rn msg =
     with_val n (GetMap msg ''a'') (\<lambda>a.
     with_val n (SplitHostPort (UDPAddr_String (rn_addr rn))) (\<lambda>(host, port).
       if port = ''0'' then (n, Err IgnoringPort0)
       else
         with_val n (GetString a ''info_hash'') (\<lambda>ihStr.
         with_val n (case InfohashFromString ihStr of Err e \<Rightarrow> Err (InvalidTorrent e) | r \<Rightarrow> r) (\<lambda>ih.
         with_val n (announced_addr env n rn a host) (\<lambda>addr.
           (if n_OnAnnouncePeer n
            then (n\<lparr>n_announced := n_announced n @ [mkPeer addr ih]\<rparr>, Ok ())
            else (n, Ok ())))))))"

text \<open>One group of the compact node list at position \<^verbatim>\<open>i\<close>, and the loop over the groups.\<close>

definition nodeLength :: "string \<Rightarrow> nat" where
  "nodeLength family = (if family = ''udp6'' then IPv6NodeAddrLen else IPv4NodeAddrLen)"

lemma nodeLength_pos [simp]: "0 < nodeLength family"
  by (simp add: nodeLength_def IPv6NodeAddrLen_def IPv4NodeAddrLen_def)

definition group_node :: "'c env \<Rightarrow> string \<Rightarrow> string \<Rightarrow> nat \<Rightarrow> remoteNode option outcome" where
  "group_node env family nodeList i =
     and_then (slice_go nodeList (int i) (int (i + InfohashLength))) (\<lambda>ident.
     and_then (slice_go nodeList (int (i + InfohashLength)) (int (i + nodeLength family))) (\<lambda>compact.
     let addrStr = DecodeCompactNodeAddr compact in
     case InfohashFromString ident of
       Ok ih \<Rightarrow>
         (case ResolveUDPAddr (resolve env) family addrStr of
            Ok addr \<Rightarrow> if addr_Port addr = 0 then Ok None else Ok (Some \<lparr>rn_addr = addr, rn_id = ih\<rparr>)
          | Err _ \<Rightarrow> Ok None
          | Panic p \<Rightarrow> Panic p
          | Hang \<Rightarrow> Hang)
     | Err _ \<Rightarrow> Ok None
     | Panic p \<Rightarrow> Panic p
     | Hang \<Rightarrow> Hang))"

function findNode_loop :: "'c env \<Rightarrow> string \<Rightarrow> 'c node \<Rightarrow> string \<Rightarrow> nat \<Rightarrow> 'c node outcome" where
  "findNode_loop env family n nodeList i =
     (if i < length nodeList then
        and_then (group_node env family nodeList i) (\<lambda>g.
        case g of
          None \<Rightarrow> findNode_loop env family n nodeList (i + nodeLength family)
        | Some rn \<Rightarrow> and_then (table_add n rn) (\<lambda>n'.
            findNode_loop env family n' nodeList (i + nodeLength family)))
      else Ok n)"
  by pat_completeness auto
termination
  by (relation "measure (\<lambda>(env, family, n, nodeList, i). length nodeList - i)")
    (auto intro!: diff_less_mono2 simp: less_imp_le)

declare findNode_loop.simps [simp del]

definition processFindNodeResults :: "'c env \<Rightarrow> 'c node \<Rightarrow> remoteNode \<Rightarrow> string \<Rightarrow> 'c node outcome" where
  "processFindNodeResults env n rn nodeList =
     (if length nodeList mod nodeLength (n_family n) \<noteq> 0
      then blacklist_Add env n (UDPAddr_String (rn_addr rn))
      else findNode_loop env (n_family n) n nodeList 0)"

definition onFindNodeResponse :: "'c env \<Rightarrow> 'c node \<Rightarrow> remoteNode \<Rightarrow> dict \<Rightarrow> 'c node outcome" where
  "onFindNodeResponse env n rn msg =
     (case map_of msg ''r'' of
        Some (GMap r) \<Rightarrow>
          and_then (assert_string (map_of r ''nodes'')) (processFindNodeResults env n rn)
      | _ \<Rightarrow> Panic TypeAssertion)"

section \<open>Dispatch\<close>

text \<open>\<^verbatim>\<open>n.rTable.add(rn); return err\<close>\<close>

definition add_and_return :: "remoteNode \<Rightarrow> 'c node \<Rightarrow> unit outcome \<Rightarrow> 'c handled" where
  "add_and_return rn n err = with_val n (table_add n rn) (\<lambda>n'. (n', err))"

definition handleRequest :: "'c env \<Rightarrow> 'c node \<Rightarrow> UDPAddr \<Rightarrow> dict \<Rightarrow> 'c handled" where
  "handleRequest env n addr m =
     with_val n (GetString m ''q'') (\<lambda>q.
     with_val n (GetMap m ''a'') (\<lambda>a.
     with_val n (GetString a ''id'') (\<lambda>ident.
     with_val n (InfohashFromString ident) (\<lambda>ih.
       if Infohash_Equal (n_id n) ih then (n, Ok ())
       else
         (let rn = \<lparr>rn_addr = addr, rn_id = ih\<rparr> in
          if q = ''ping'' then and_after (onPingQuery env n rn m) (add_and_return rn)
          else if q = ''get_peers'' then and_after (onGetPeersQuery env n rn m) (add_and_return rn)
          else if q = ''announce_peer''
          then and_after (onAnnouncePeerQuery env n rn m) (\<lambda>n' _. add_and_return rn n' (Ok ()))
          else (n, Ok ()))))))"

text \<open>The loop over the peers of a \<^verbatim>\<open>get_peers\<close> response: every value is asserted to be a string.\<close>

fun values_loop :: "goval list \<Rightarrow> unit outcome" where
  "values_loop [] = Ok ()"
| "values_loop (v # vs) = and_then (assert_string (Some v)) (\<lambda>_. values_loop vs)"

definition handleResponse :: "'c env \<Rightarrow> 'c node \<Rightarrow> UDPAddr \<Rightarrow> dict \<Rightarrow> 'c handled" where
  "handleResponse env n addr m =
     with_val n (GetMap m ''r'') (\<lambda>r.
     with_val n (GetString r ''id'') (\<lambda>ident.
     with_val n (InfohashFromString ident) (\<lambda>ih.
       let rn = \<lparr>rn_addr = addr, rn_id = ih\<rparr> in
       case GetString r ''nodes'' of
         Ok nodes \<Rightarrow>
           with_val n (onFindNodeResponse env n rn m) (\<lambda>n1.
           with_val n1 (processFindNodeResults env n1 rn nodes) (\<lambda>n2.
             add_and_return rn n2 (Ok ())))
       | _ \<Rightarrow>
           (case GetList r ''values'' of
              Ok values \<Rightarrow> with_val n (values_loop values) (\<lambda>_. add_and_return rn n (Ok ()))
            | _ \<Rightarrow> (n, Ok ())))))"

definition handleError :: "'c env \<Rightarrow> 'c node \<Rightarrow> UDPAddr \<Rightarrow> dict \<Rightarrow> 'c handled" where
  "handleError env n addr m =
     with_val n (GetList m ''e'') (\<lambda>e.
       if length e \<noteq> 2 then (n, Err (ErrorPacketWrongLength (length e)))
       else
         (case e ! 0 of
            GInt64 code \<Rightarrow> with_val n (assert_string (Some (e ! 1))) (\<lambda>_. (n, Ok ()))
          | _ \<Rightarrow> (n, Panic TypeAssertion)))"

definition dispatch :: "'c env \<Rightarrow> 'c node \<Rightarrow> UDPAddr \<Rightarrow> dict \<Rightarrow> string \<Rightarrow> 'c handled" where
  "dispatch env n addr m y =
     (if y = ''q'' then handleRequest env n addr m
      else if y = ''r'' then handleResponse env n addr m
      else if y = ''e'' then handleError env n addr m
      else (n, Err MissingRequestType))"

definition processPacket :: "'c env \<Rightarrow> 'c node \<Rightarrow> packet \<Rightarrow> 'c handled" where
  "processPacket env n p =
     with_val n (DecodeDict env (pkt_data p) 0) (\<lambda>(response, _).
     with_val n (GetString response ''y'') (\<lambda>y.
     with_val n (blacklist_Get env n (UDPAddr_String (pkt_raddr p))) (\<lambda>(black, n1).
       if black then (n1, Err (Blacklisted (UDPAddr_String (pkt_raddr p))))
       else
         and_after (dispatch env n1 (pkt_raddr p) response y) (\<lambda>n2 err.
           case err of
             Err e \<Rightarrow> with_val n2 (blacklist_Add env n2 (UDPAddr_String (pkt_raddr p))) (\<lambda>n3. (n3, Err e))
           | _ \<Rightarrow> (n2, err)))))"

section \<open>The reader, the writer and the neighbour loop\<close>

definition routers :: "string list" where
  "routers =
     [''dht.libtorrent.org:25401'', ''router.bittorrent.com:6881'', ''dht.transmissionbt.com:6881'',
      ''router.utorrent.com:6881'', ''dht.aelitis.com:6881'']"

text \<open>
  One round of the loop of \<^verbatim>\<open>Run\<close>: a datagram is read into a block of the slab, cut to the length of
  the block, processed, and the block is given back. The error \<^verbatim>\<open>processPacket\<close> returns is dropped.
\<close>

definition read_packet ::
    "'c env \<Rightarrow> 'c node \<Rightarrow> slab \<Rightarrow> byte list \<Rightarrow> UDPAddr \<Rightarrow> ('c node \<times> slab) outcome" where
  "read_packet env n s dgram addr =
     and_then (slab_alloc s) (\<lambda>(b, s1).
       let c = min (length dgram) (blk_len b);
           b' = b\<lparr>blk_array := take c dgram @ drop c (blk_array b)\<rparr>;
           (n', r) = processPacket env n \<lparr>pkt_data = take c (blk_array b'), pkt_raddr = addr\<rparr>
       in case r of
            Panic p \<Rightarrow> Panic p
          | Hang \<Rightarrow> Hang
          | _ \<Rightarrow> and_then (slab_free s1 b') (\<lambda>s2. Ok (n', s2)))"

text \<open>
  One round of \<^verbatim>\<open>packetWriter\<close>: whether the limiter refused and whether the write failed is decided
  outside.
\<close>

definition write_packet :: "'c env \<Rightarrow> bool \<Rightarrow> bool \<Rightarrow> 'c node \<Rightarrow> 'c node outcome" where
  "write_packet env limited failed n =
     (case n_packetsOut n of
        [] \<Rightarrow> Hang
      | p # rest \<Rightarrow>
          (let n1 = n\<lparr>n_packetsOut := rest\<rparr> in
           if UDPAddr_String (pkt_raddr p) = n_local n then Ok n1
           else if limited then Ok n1
           else if failed then
             and_then (blacklist_Add env n1 (UDPAddr_String (pkt_raddr p))) (\<lambda>n2.
               Ok (if n_OnBadPeer n2
                   then n2\<lparr>n_bad := n_bad n2 @ [mkPeer (pkt_raddr p) []]\<rparr> else n2))
           else Ok n1))"

text \<open>The body of the loop of \<^verbatim>\<open>bootstrap\<close>.\<close>

definition bootstrap_one :: "'c env \<Rightarrow> draws \<Rightarrow> 'c node \<Rightarrow> string \<Rightarrow> 'c handled" where
  "bootstrap_one env d n s =
     (case ResolveUDPAddr (resolve env) (n_family n) s of
        Ok addr \<Rightarrow> findNode env d n \<lparr>rn_addr = addr, rn_id = []\<rparr> (n_id n)
      | Err _ \<Rightarrow> (n, Ok ())
      | Panic p \<Rightarrow> (n, Panic p)
      | Hang \<Rightarrow> (n, Hang))"

text \<open>
  \<^verbatim>\<open>n.findNode(rn, models.GenerateNeighbour(n.id, rn.id))\<close>: the argument is evaluated first and has
  overwritten \<^verbatim>\<open>rn.id\<close>, also in the table, when \<^verbatim>\<open>findNode\<close> runs.
\<close>

definition query_neighbour :: "'c env \<Rightarrow> draws \<Rightarrow> byte list \<Rightarrow> 'c node \<Rightarrow> remoteNode \<Rightarrow> 'c handled" where
  "query_neighbour env d spare n rn =
     with_val n (GenerateNeighbour spare (n_id n) (rn_id rn)) (\<lambda>(ident, rid).
       findNode env d (n\<lparr>n_rTable := rt_touch (n_rTable n) rn rid\<rparr>) (rn\<lparr>rn_id := rid\<rparr>) ident)"

text \<open>Where the goroutine of \<^verbatim>\<open>makeNeighbours\<close> stands: in \<^verbatim>\<open>bootstrap\<close>, waiting for the ticker, or in the
  loop over the nodes of the table.\<close>

datatype task = Bootstrapping "string list" | Waiting | Querying "remoteNode list"

fun makeNeighbours_step :: "'c env \<Rightarrow> draws \<Rightarrow> byte list \<Rightarrow> task \<Rightarrow> 'c node \<Rightarrow> task \<times> 'c handled" where
  "makeNeighbours_step env d spare (Bootstrapping []) n = (Waiting, n, Ok ())"
| "makeNeighbours_step env d spare (Bootstrapping (s # ss)) n = (Bootstrapping ss, bootstrap_one env d n s)"
| "makeNeighbours_step env d spare Waiting n =
     (if routingTable_isEmpty (n_rTable n) then (Bootstrapping routers, n, Ok ())
      else (Querying (routingTable_get (n_rTable n) 0), n, Ok ()))"
| "makeNeighbours_step env d spare (Querying []) n =
     (Waiting, n\<lparr>n_rTable := routingTable_flush (n_rTable n)\<rparr>, Ok ())"
| "makeNeighbours_step env d spare (Querying (rn # rns)) n = (Querying rns, query_neighbour env d spare n rn)"

section \<open>The running node\<close>

record 'c system =
  sys_node :: "'c node"
  sys_slab :: slab
  sys_task :: task

text \<open>A panic in any goroutine ends the process.\<close>

datatype 'c run_state = Running "'c system" | Crashed go_panic

definition Run_init :: "'c node \<Rightarrow> 'c system outcome" where
  "Run_init n =
     and_then (newSlab 8192 10) (\<lambda>s.
       Ok \<lparr>sys_node = n\<lparr>n_packetsOut := []\<rparr>, sys_slab = s, sys_task = Bootstrapping routers\<rparr>)"

text \<open>
  The three goroutines interleave. Each rule is the part of one of them between two points where
  it may wait: for a datagram, for a queued packet, for the ticker, or for room in \<^verbatim>\<open>packetsOut\<close>.
  A round that cannot go on (\<^const>\<open>Hang\<close>) is taken later, when another goroutine has made room.
\<close>

inductive node_step :: "'c env \<Rightarrow> 'c run_state \<Rightarrow> 'c run_state \<Rightarrow> bool" for env where
  step_read: "read_packet env (sys_node s) (sys_slab s) dgram addr = Ok (n', sl') \<Longrightarrow>
    node_step env (Running s) (Running (s\<lparr>sys_node := n', sys_slab := sl'\<rparr>))"
| step_read_panic: "read_packet env (sys_node s) (sys_slab s) dgram addr = Panic p \<Longrightarrow>
    node_step env (Running s) (Crashed p)"
| step_write: "write_packet env limited failed (sys_node s) = Ok n' \<Longrightarrow>
    node_step env (Running s) (Running (s\<lparr>sys_node := n'\<rparr>))"
| step_write_panic: "write_packet env limited failed (sys_node s) = Panic p \<Longrightarrow>
    node_step env (Running s) (Crashed p)"
| step_neighbours: "makeNeighbours_step env d spare (sys_task s) (sys_node s) = (t', n', Ok ()) \<Longrightarrow>
    node_step env (Running s) (Running (s\<lparr>sys_node := n', sys_task := t'\<rparr>))"
| step_neighbours_panic: "makeNeighbours_step env d spare (sys_task s) (sys_node s) = (t', n', Panic p) \<Longrightarrow>
    node_step env (Running s) (Crashed p)"

inductive_cases node_step_CrashedE [elim!]: "node_step env (Crashed p) st'"

section \<open>Construction\<close>

datatype 'c node_option =
    SetOnAnnouncePeer
  | SetOnBadPeer
  | SetAddress string
  | SetPort int
  | SetIPv6 bool
  | SetUDPTimeout int
  | SetLogger
  | SetBlacklist "'c option"

fun apply_option :: "'c node_option \<Rightarrow> 'c node \<Rightarrow> 'c node" where
  "apply_option SetOnAnnouncePeer n = n\<lparr>n_OnAnnouncePeer := True\<rparr>"
| "apply_option SetOnBadPeer n = n\<lparr>n_OnBadPeer := True\<rparr>"
| "apply_option (SetAddress ip) n = n\<lparr>n_address := ip\<rparr>"
| "apply_option (SetPort p) n = n\<lparr>n_port := p\<rparr>"
| "apply_option (SetIPv6 b) n = (if b then n\<lparr>n_family := ''udp6''\<rparr> else n)"
| "apply_option (SetUDPTimeout s) n = n\<lparr>n_udpTimeout := s\<rparr>"
| "apply_option SetLogger n = n"
| "apply_option (SetBlacklist bl) n = n\<lparr>n_blacklist := bl\<rparr>"

text \<open>The two attempts to listen: IPv6 when asked for, then IPv4 when there is no socket yet.\<close>

definition listen :: "'c env \<Rightarrow> 'c node \<Rightarrow> 'c node outcome" where
  "listen env n =
     (let try4 = (\<lambda>n. and_then (ListenPacket env ''udp4'' (IP_String IPv4zero @ '':'' @ dec_int (n_port n)))
                        (\<lambda>l. Ok (n\<lparr>n_family := ''udp4'', n_local := l\<rparr>)))
      in if n_family n \<noteq> ''udp4'' then
           (case ListenPacket env ''udp6'' (''['' @ IP_String (replicate 16 0) @ '']:'' @ dec_int (n_port n)) of
              Ok l \<Rightarrow> Ok (n\<lparr>n_family := ''udp6'', n_local := l\<rparr>)
            | Err _ \<Rightarrow> try4 n
            | Panic p \<Rightarrow> Panic p
            | Hang \<Rightarrow> Hang)
         else try4 n)"

definition NewNode :: "'c env \<Rightarrow> string \<Rightarrow> int \<Rightarrow> 'c node_option list \<Rightarrow> 'c node outcome" where
  "NewNode env now r opts =
     (let ident = GenInfohash now r in
      and_then (newRoutingTable ident 2000) (\<lambda>t.
        let n0 = \<lparr>n_id = ident, n_family = ''udp4'', n_address = [], n_port = 6881, n_local = [],
                  n_rTable = t, n_udpTimeout = 10, n_packetsOut = [], n_blacklist = None,
                  n_OnAnnouncePeer = False, n_OnBadPeer = False, n_announced = [], n_bad = []\<rparr>;
            n1 = fold apply_option opts n0
        in and_then (case n_blacklist n1 of
                       Some c \<Rightarrow> Ok n1
                     | None \<Rightarrow> and_then (cache_New env 1000) (\<lambda>c. Ok (n1\<lparr>n_blacklist := Some c\<rparr>)))
             (listen env)))"

section \<open>What the environment is trusted with\<close>

text \<open>
  The decoder, the encoder and the resolver report failure as errors: their calls return. A key
  just added to the cache is found in it.
\<close>

definition returns :: "'a outcome \<Rightarrow> bool" where
  "returns r \<longleftrightarrow> \<not> is_panic r \<and> r \<noteq> Hang"

definition env_returns :: "'c env \<Rightarrow> bool" where
  "env_returns env \<longleftrightarrow>
     (\<forall>b i. returns (DecodeDict env b i)) \<and> (\<forall>d. returns (Encode env d)) \<and>
     (\<forall>h. returns (res_hosts (resolve env) h)) \<and> (\<forall>n s. returns (res_services (resolve env) n s))"

definition cache_law :: "'c env \<Rightarrow> bool" where
  "cache_law env \<longleftrightarrow> (\<forall>c k. fst (cache_Get env (cache_Add env c k) k))"

lemma returns_simps [simp]:
  "returns (Ok x)" "returns (Err e)" "\<not> returns (Panic p)" "\<not> returns Hang"
  by (simp_all add: returns_def)

lemma returns_cases: "returns r \<longleftrightarrow> (\<exists>x. r = Ok x) \<or> (\<exists>e. r = Err e)"
  by (cases r) simp_all

lemma returns_not_Panic: "returns r \<Longrightarrow> r \<noteq> Panic p"
  by auto

lemma returns_and_then: "returns r \<Longrightarrow> (\<And>x. r = Ok x \<Longrightarrow> returns (f x)) \<Longrightarrow> returns (and_then r f)"
  by (cases r) auto

lemma returns_Get [simp]:
  "returns (GetString d k)" "returns (GetInt d k)" "returns (GetMap d k)" "returns (GetList d k)"
  by (simp_all add: krpc_get split: option.splits goval.splits)

lemma returns_InfohashFromString [simp]: "returns (InfohashFromString s)"
  using InfohashFromString_cases [of s] by (auto simp: returns_cases)

lemma returns_SplitHostPort [simp]: "returns (SplitHostPort s)"
  by (simp add: SplitHostPort_def split_rest_def split: option.splits)

lemma returns_ResolveUDPAddr:
  assumes "env_returns env"
  shows "returns (ResolveUDPAddr (resolve env) network addr)"
proof -
  have "returns (res_hosts (resolve env) h)" "returns (res_services (resolve env) m s)" for h m s
    using assms by (simp_all add: env_returns_def)
  then show ?thesis
    by (auto simp: ResolveUDPAddr_def LookupPort_def lookupIPAddr_def Let_def
        intro!: returns_and_then split: option.splits prod.splits)
qed

section \<open>The invariant of the node\<close>

definition node_inv :: "'c node \<Rightarrow> bool" where
  "node_inv n \<longleftrightarrow>
     Infohash_Valid (n_id n) \<and> rt_id (n_rTable n) = n_id n \<and> rt_sound (n_rTable n) \<and>
     n_blacklist n \<noteq> None \<and> length (n_packetsOut n) \<le> packetsOut_cap"

named_theorems node_keeps \<comment> \<open>every operation keeps the invariant\<close>

lemma with_val_keeps [node_keeps]:
  "node_inv n \<Longrightarrow> (\<And>x. r = Ok x \<Longrightarrow> node_inv (fst (f x))) \<Longrightarrow> node_inv (fst (with_val n r f))"
  by (cases r) (simp_all add: with_val_def)

lemma fst_ignore_err [simp]: "fst (ignore_err r) = fst r"
  by (cases r rule: ignore_err.cases) simp_all

lemma and_after_keeps [node_keeps]:
  "node_inv (fst r) \<Longrightarrow> (\<And>n u. node_inv n \<Longrightarrow> node_inv (fst (f n u))) \<Longrightarrow> node_inv (fst (and_after r f))"
  by (cases "(r, f)" rule: and_after.cases) simp_all

lemma send_packet_keeps [node_keeps]: "node_inv n \<Longrightarrow> node_inv (fst (send_packet n p))"
  by (simp add: send_packet_def node_inv_def)

lemma queueMsg_keeps [node_keeps]: "node_inv n \<Longrightarrow> node_inv (fst (queueMsg env n rn data))"
  unfolding queueMsg_def by (intro node_keeps)

lemma sendQuery_keeps [node_keeps]: "node_inv n \<Longrightarrow> node_inv (fst (sendQuery env r n rn q a))"
  by (simp add: sendQuery_def Let_def node_keeps)

lemma findNode_keeps [node_keeps]: "node_inv n \<Longrightarrow> node_inv (fst (findNode env d n rn ident))"
  by (simp add: findNode_def node_keeps)

lemma ping_keeps [node_keeps]: "node_inv n \<Longrightarrow> node_inv (fst (ping env d spare n rn))"
  unfolding ping_def by (intro node_keeps) (simp_all add: node_keeps split: prod.splits)

lemma blacklist_Get_Ok:
  assumes "node_inv n"
  shows "\<exists>black c'. blacklist_Get env n key = Ok (black, n\<lparr>n_blacklist := Some c'\<rparr>) \<and>
    (black, c') = cache_Get env (the (n_blacklist n)) key \<and> node_inv (n\<lparr>n_blacklist := Some c'\<rparr>)"
  using assms by (auto simp: blacklist_Get_def node_inv_def split: option.splits prod.splits)

lemma blacklist_Add_Ok:
  assumes "node_inv n"
  shows "\<exists>n'. blacklist_Add env n key = Ok n' \<and> node_inv n' \<and>
    n' = n\<lparr>n_blacklist := Some (cache_Add env (the (n_blacklist n)) key)\<rparr>"
  using assms by (auto simp: blacklist_Add_def node_inv_def)

lemma table_add_Ok:
  assumes "node_inv n"
  shows "\<exists>n' t. table_add n rn = Ok n' \<and> routingTable_add (n_rTable n) rn = Ok t \<and>
    n' = n\<lparr>n_rTable := t\<rparr> \<and> node_inv n'"
proof -
  from assms have "rt_sound (n_rTable n)" by (simp add: node_inv_def)
  from rt_weak.add_total [OF this, of rn] obtain t where
    "routingTable_add (n_rTable n) rn = Ok t" "rt_sound t" "rt_fixed t = rt_fixed (n_rTable n)" by blast
  with assms show ?thesis by (simp add: table_add_def node_inv_def)
qed

lemma add_and_return_eq:
  assumes "node_inv n"
  shows "\<exists>t. routingTable_add (n_rTable n) rn = Ok t \<and>
    add_and_return rn n err = (n\<lparr>n_rTable := t\<rparr>, err) \<and> node_inv (n\<lparr>n_rTable := t\<rparr>)"
  using table_add_Ok [OF assms, of rn] by (auto simp: add_and_return_def with_val_def)

lemma add_and_return_keeps [node_keeps]: "node_inv n \<Longrightarrow> node_inv (fst (add_and_return rn n err))"
  using add_and_return_eq [of n rn err] by auto

lemma onPingQuery_keeps [node_keeps]: "node_inv n \<Longrightarrow> node_inv (fst (onPingQuery env n rn m))"
  unfolding onPingQuery_def by (intro node_keeps) (simp_all add: node_keeps)

lemma onGetPeersQuery_keeps [node_keeps]: "node_inv n \<Longrightarrow> node_inv (fst (onGetPeersQuery env n rn m))"
  unfolding onGetPeersQuery_def by (intro node_keeps) (auto intro!: node_keeps split: prod.splits)

lemma onAnnouncePeerQuery_keeps [node_keeps]:
  "node_inv n \<Longrightarrow> node_inv (fst (onAnnouncePeerQuery env n rn m))"
  unfolding onAnnouncePeerQuery_def
  by (intro node_keeps) (auto intro!: node_keeps simp: node_inv_def [of "_\<lparr>n_announced := _\<rparr>"]
      node_inv_def [THEN iffD1] split: prod.splits)

section \<open>Compact node lists\<close>

lemma group_node_Ok:
  assumes "env_returns env" "i + nodeLength family \<le> length nodeList"
  shows "\<exists>g. group_node env family nodeList i = Ok g"
proof -
  have "InfohashLength \<le> nodeLength family"
    by (simp add: nodeLength_def InfohashLength_def IPv4NodeAddrLen_def IPv6NodeAddrLen_def)
  then obtain a b where slices: "slice_go nodeList (int i) (int (i + InfohashLength)) = Ok a"
    "slice_go nodeList (int (i + InfohashLength)) (int (i + nodeLength family)) = Ok b"
    using assms(2) by (simp add: slice_go_def)
  have "returns (ResolveUDPAddr (resolve env) family (DecodeCompactNodeAddr b))" "returns (InfohashFromString a)"
    using assms(1) by (simp_all add: returns_ResolveUDPAddr)
  then show ?thesis
    unfolding group_node_def slices by (auto simp: returns_cases)
qed

text \<open>The nodes a list names, in order: one per group that resolves to a port other than 0.\<close>

definition listed_from :: "'c env \<Rightarrow> string \<Rightarrow> string \<Rightarrow> nat \<Rightarrow> remoteNode list" where
  "listed_from env family nodeList g =
     List.map_filter (\<lambda>g. case group_node env family nodeList (g * nodeLength family) of
         Ok rn \<Rightarrow> rn | _ \<Rightarrow> None)
       [g..<length nodeList div nodeLength family]"

abbreviation listed_nodes :: "'c env \<Rightarrow> string \<Rightarrow> string \<Rightarrow> remoteNode list" where
  "listed_nodes env family nodeList \<equiv> listed_from env family nodeList 0"

lemma listed_from_step:
  assumes "g < length nodeList div nodeLength family"
    and "group_node env family nodeList (g * nodeLength family) = Ok r"
  shows "listed_from env family nodeList g =
    (case r of None \<Rightarrow> [] | Some rn \<Rightarrow> [rn]) @ listed_from env family nodeList (Suc g)"
  using assms by (simp add: listed_from_def upt_conv_Cons List.map_filter_simps split: option.splits)

text \<open>The loop adds exactly the listed nodes, one after the other.\<close>

lemma findNode_loop_eq:
  assumes env: "env_returns env" and len: "length nodeList mod nodeLength family = 0"
  shows "node_inv n \<Longrightarrow> findNode_loop env family n nodeList (g * nodeLength family) =
    and_then (add_all routingTable_add (n_rTable n) (listed_from env family nodeList g))
      (\<lambda>t. Ok (n\<lparr>n_rTable := t\<rparr>))"
proof (induction "length nodeList div nodeLength family - g" arbitrary: g n)
  case 0
  then have "\<not> g * nodeLength family < length nodeList"
    using len by (metis diff_is_0_eq div_mult_mod_eq add.right_neutral linorder_not_less mult_le_mono1)
  with 0 show ?case by (simp add: findNode_loop.simps listed_from_def List.map_filter_simps)
next
  case (Suc x)
  let ?L = "nodeLength family"
  from Suc.hyps(2) have g: "g < length nodeList div ?L" by simp
  then have "Suc g * ?L \<le> length nodeList div ?L * ?L" by (intro mult_le_mono1) simp
  moreover have "length nodeList div ?L * ?L = length nodeList"
    using len div_mult_mod_eq [of "length nodeList" ?L] by simp
  ultimately have le: "g * ?L + ?L \<le> length nodeList" by simp
  then have lt: "g * ?L < length nodeList" using nodeLength_pos [of family] by linarith
  from group_node_Ok [OF env le] obtain r where r: "group_node env family nodeList (g * ?L) = Ok r" by blast
  have nxt: "g * ?L + ?L = Suc g * ?L" by simp
  have IH: "findNode_loop env family n' nodeList (Suc g * ?L) =
      and_then (add_all routingTable_add (n_rTable n') (listed_from env family nodeList (Suc g)))
        (\<lambda>t. Ok (n'\<lparr>n_rTable := t\<rparr>))" if "node_inv n'" for n'
    using Suc.hyps that by (intro Suc.hyps(1)) simp_all
  show ?case
  proof (cases r)
    case None
    with r lt nxt IH [OF Suc.prems] listed_from_step [OF g r] show ?thesis
      by (simp add: findNode_loop.simps [of _ _ _ _ "g * ?L"] add.commute)
  next
    case (Some rn)
    from table_add_Ok [OF Suc.prems, of rn] obtain t where
      t: "table_add n rn = Ok (n\<lparr>n_rTable := t\<rparr>)" "routingTable_add (n_rTable n) rn = Ok t"
        "node_inv (n\<lparr>n_rTable := t\<rparr>)" by blast
    with r lt nxt Some IH [OF t(3)] listed_from_step [OF g r] show ?thesis
      by (simp add: findNode_loop.simps [of _ _ _ _ "g * ?L"] add.commute)
  qed
qed

lemma processFindNodeResults_Ok:
  assumes "env_returns env" "node_inv n"
  shows "\<exists>n'. processFindNodeResults env n rn nodeList = Ok n' \<and> node_inv n' \<and> n_id n' = n_id n \<and>
    n_family n' = n_family n"
proof (cases "length nodeList mod nodeLength (n_family n) = 0")
  case True
  have "rt_sound (n_rTable n)" using assms(2) by (simp add: node_inv_def)
  from rt_weak.add_all_total [OF this, of "listed_nodes env (n_family n) nodeList"] obtain t where
    "add_all routingTable_add (n_rTable n) (listed_nodes env (n_family n) nodeList) = Ok t"
    "rt_sound t" "rt_fixed t = rt_fixed (n_rTable n)" by blast
  with True assms findNode_loop_eq [OF assms(1) True assms(2), of 0] show ?thesis
    by (simp add: processFindNodeResults_def node_inv_def)
next
  case False
  then show ?thesis
    using blacklist_Add_Ok [OF assms(2), of env "UDPAddr_String (rn_addr rn)"]
    by (auto simp: processFindNodeResults_def)
qed

lemma onFindNodeResponse_eq:
  assumes "map_of msg ''r'' = Some (GMap r)" "map_of r ''nodes'' = Some (GStr nodes)"
  shows "onFindNodeResponse env n rn msg = processFindNodeResults env n rn nodes"
  using assms by (simp add: onFindNodeResponse_def assert_string_def)

section \<open>Dispatch keeps the invariant\<close>

lemma handleRequest_keeps [node_keeps]: "node_inv n \<Longrightarrow> node_inv (fst (handleRequest env n addr m))"
  unfolding handleRequest_def Let_def by (intro node_keeps) (auto intro!: node_keeps)

lemma handleResponse_keeps [node_keeps]:
  assumes "env_returns env" "node_inv n"
  shows "node_inv (fst (handleResponse env n addr m))"
proof -
  have "node_inv (fst (with_val n (onFindNodeResponse env n rn m) (\<lambda>n1.
      with_val n1 (processFindNodeResults env n1 rn nodes) (\<lambda>n2. add_and_return rn n2 (Ok ())))))"
    if "map_of m ''r'' = Some (GMap r)" "map_of r ''nodes'' = Some (GStr nodes)" for r rn nodes
  proof -
    from processFindNodeResults_Ok [OF assms] obtain n1 where
      n1: "processFindNodeResults env n rn nodes = Ok n1" "node_inv n1" by blast
    from processFindNodeResults_Ok [OF assms(1) n1(2)] obtain n2 where
      "processFindNodeResults env n1 rn nodes = Ok n2" "node_inv n2" by blast
    with n1 that show ?thesis by (simp add: onFindNodeResponse_eq with_val_def add_and_return_keeps)
  qed
  with assms(2) show ?thesis
    unfolding handleResponse_def Let_def
    by (intro node_keeps) (auto intro!: node_keeps split: outcome.splits)
qed

lemma handleError_keeps [node_keeps]: "node_inv n \<Longrightarrow> node_inv (fst (handleError env n addr m))"
  unfolding handleError_def by (intro node_keeps) (auto intro!: node_keeps split: goval.splits)

lemma dispatch_keeps [node_keeps]:
  "env_returns env \<Longrightarrow> node_inv n \<Longrightarrow> node_inv (fst (dispatch env n addr m y))"
  by (simp add: dispatch_def node_keeps)

lemma processPacket_keeps [node_keeps]:
  assumes "env_returns env" "node_inv n"
  shows "node_inv (fst (processPacket env n p))"
proof -
  from blacklist_Get_Ok [OF assms(2), of env "UDPAddr_String (pkt_raddr p)"] obtain black n1 where
    n1: "blacklist_Get env n (UDPAddr_String (pkt_raddr p)) = Ok (black, n1)" "node_inv n1" by blast
  have add: "node_inv (fst (with_val n2 (blacklist_Add env n2 key) (\<lambda>n3. (n3, u))))"
    if "node_inv n2" for n2 key u
    using that blacklist_Add_Ok [OF that, of env key] by (auto simp: with_val_def)
  show ?thesis
    unfolding processPacket_def n1(1) using assms n1(2)
    by (intro node_keeps) (auto intro!: node_keeps add simp: with_val_def [of _ "Ok _"] split: outcome.splits)
qed

section \<open>Where a packet can crash the process\<close>

lemma snd_with_val_Panic:
  "snd (with_val n r f) = Panic q \<longleftrightarrow> r = Panic q \<or> (\<exists>x. r = Ok x \<and> snd (f x) = Panic q)"
  by (cases r) (simp_all add: with_val_def)

lemma snd_ignore_err_Panic: "snd (ignore_err r) = Panic q \<longleftrightarrow> snd r = Panic q"
  by (cases r rule: ignore_err.cases) simp_all

lemma and_after_add_Panic:
  assumes "node_inv (fst r)"
  shows "snd (and_after r (add_and_return rn)) = Panic q \<longleftrightarrow> snd r = Panic q"
    and "snd (and_after r (\<lambda>n' _. add_and_return rn n' (Ok ()))) = Panic q \<longleftrightarrow> snd r = Panic q"
  using assms add_and_return_eq [of "fst r" rn "snd r"] add_and_return_eq [of "fst r" rn "Ok ()"]
  by (cases r; cases "snd r"; auto)+

lemma queueMsg_no_Panic: "env_returns env \<Longrightarrow> snd (queueMsg env n rn data) \<noteq> Panic q"
proof -
  assume "env_returns env"
  then have "returns (Encode env data)" by (simp add: env_returns_def)
  then show ?thesis by (auto simp: queueMsg_def snd_with_val_Panic send_packet_def)
qed

lemmas panic_simps = snd_with_val_Panic snd_ignore_err_Panic queueMsg_no_Panic
  returns_not_Panic [OF returns_Get(1)] returns_not_Panic [OF returns_Get(2)]
  returns_not_Panic [OF returns_Get(3)] returns_not_Panic [OF returns_Get(4)]
  returns_not_Panic [OF returns_InfohashFromString] returns_not_Panic [OF returns_SplitHostPort]

lemma assert_string_Panic: "assert_string v = Panic q \<longleftrightarrow> q = TypeAssertion \<and> (\<nexists>s. v = Some (GStr s))"
  by (auto simp: assert_string_def split: option.splits goval.splits)

lemma assert_string_Ok: "assert_string v = Ok s \<longleftrightarrow> v = Some (GStr s)"
  by (auto simp: assert_string_def split: option.splits goval.splits)

lemma onPingQuery_no_Panic: "env_returns env \<Longrightarrow> snd (onPingQuery env n rn m) \<noteq> Panic q"
  by (simp add: onPingQuery_def panic_simps)

lemma onAnnouncePeerQuery_no_Panic:
  assumes "env_returns env"
  shows "snd (onAnnouncePeerQuery env n rn m) \<noteq> Panic q"
proof -
  have "returns (announced_addr env n rn a host)" for a host
    by (simp add: announced_addr_def returns_ResolveUDPAddr [OF assms] split: outcome.splits)
  then have "announced_addr env n rn a host \<noteq> Panic q" for a host by (rule returns_not_Panic)
  moreover have "(case InfohashFromString s of Err e \<Rightarrow> Err (InvalidTorrent e) | r \<Rightarrow> r) \<noteq> Panic q" for s
    using returns_InfohashFromString [of s] by (auto simp: returns_cases)
  ultimately show ?thesis by (auto simp: onAnnouncePeerQuery_def panic_simps split: if_splits)
qed

lemma InfohashFromString_length: "InfohashFromString s = Ok ih \<Longrightarrow> length ih = 20 \<and> 2 \<le> length s"
  using InfohashFromString_valid [of s ih]
  by (auto simp: Infohash_Valid_def InfohashLength_def InfohashFromString_def split: if_splits)

lemma onGetPeersQuery_Panic_iff:
  assumes "env_returns env" "node_inv n"
  shows "snd (onGetPeersQuery env n rn m) = Panic q \<longleftrightarrow>
    q = TypeAssertion \<and> (\<nexists>t. map_of m ''t'' = Some (GStr t)) \<and>
    (\<exists>a torrent th. map_of m ''a'' = Some (GMap a) \<and> map_of a ''info_hash'' = Some (GStr torrent) \<and>
       InfohashFromString torrent = Ok th)"
proof -
  have "length (n_id n) = 20" using assms(2) by (simp add: node_inv_def Infohash_Valid_def InfohashLength_def)
  then have "GenerateNeighbour [] (n_id n) th = Ok (take 10 th @ drop 10 (n_id n), take 10 th @ drop 10 (n_id n)) \<and>
      slice_go torrent 0 2 = Ok (take 2 torrent)" if "InfohashFromString torrent = Ok th" for torrent th
    using InfohashFromString_length [OF that] by (simp add: GenerateNeighbour_20 slice_go_def)
  with assms(1) show ?thesis
    by (auto simp: onGetPeersQuery_def panic_simps assert_string_Panic assert_string_Ok)
qed

text \<open>The three malformed messages an unchecked type assertion does not survive.\<close>

definition crashes :: "infohash \<Rightarrow> dict \<Rightarrow> string \<Rightarrow> bool" where
  "crashes own m y \<longleftrightarrow>
     y = ''q'' \<and> map_of m ''q'' = Some (GStr ''get_peers'') \<and> (\<nexists>t. map_of m ''t'' = Some (GStr t)) \<and>
       (\<exists>a ident ih torrent th. map_of m ''a'' = Some (GMap a) \<and>
          map_of a ''id'' = Some (GStr ident) \<and> InfohashFromString ident = Ok ih \<and> ih \<noteq> own \<and>
          map_of a ''info_hash'' = Some (GStr torrent) \<and> InfohashFromString torrent = Ok th) \<or>
     y = ''r'' \<and> (\<exists>r ident ih values. map_of m ''r'' = Some (GMap r) \<and>
          map_of r ''id'' = Some (GStr ident) \<and> InfohashFromString ident = Ok ih \<and>
          (\<nexists>s. map_of r ''nodes'' = Some (GStr s)) \<and> map_of r ''values'' = Some (GList values) \<and>
          (\<exists>v \<in> set values. \<nexists>s. v = GStr s)) \<or>
     y = ''e'' \<and> (\<exists>a b. map_of m ''e'' = Some (GList [a, b]) \<and> \<not> ((\<exists>i. a = GInt64 i) \<and> (\<exists>s. b = GStr s)))"

lemma handleRequest_Panic_iff:
  assumes "env_returns env" "node_inv n"
  shows "snd (handleRequest env n addr m) = Panic q \<longleftrightarrow> q = TypeAssertion \<and> crashes (n_id n) m ''q''"
proof -
  have r: "snd (and_after (onPingQuery env n rn m) (add_and_return rn)) \<noteq> Panic q"
    "snd (and_after (onAnnouncePeerQuery env n rn m) (\<lambda>n' _. add_and_return rn n' (Ok ()))) \<noteq> Panic q"
    "snd (and_after (onGetPeersQuery env n rn m) (add_and_return rn)) = Panic q \<longleftrightarrow>
      snd (onGetPeersQuery env n rn m) = Panic q" for rn
    using assms
    by (simp_all add: and_after_add_Panic onPingQuery_keeps onAnnouncePeerQuery_keeps onGetPeersQuery_keeps
        onPingQuery_no_Panic onAnnouncePeerQuery_no_Panic)
  have body: "snd (if Infohash_Equal (n_id n) ih then (n, Ok ())
      else (let rn = \<lparr>rn_addr = addr, rn_id = ih\<rparr> in
            if k = ''ping'' then and_after (onPingQuery env n rn m) (add_and_return rn)
            else if k = ''get_peers'' then and_after (onGetPeersQuery env n rn m) (add_and_return rn)
            else if k = ''announce_peer''
            then and_after (onAnnouncePeerQuery env n rn m) (\<lambda>n' _. add_and_return rn n' (Ok ()))
            else (n, Ok ()))) = Panic q \<longleftrightarrow>
      ih \<noteq> n_id n \<and> k = ''get_peers'' \<and> snd (onGetPeersQuery env n \<lparr>rn_addr = addr, rn_id = ih\<rparr> m) = Panic q" for ih k
    using r by (auto simp: Infohash_Equal_iff Let_def)
  have crash: "crashes (n_id n) m ''q'' \<longleftrightarrow>
      map_of m ''q'' = Some (GStr ''get_peers'') \<and> (\<nexists>t. map_of m ''t'' = Some (GStr t)) \<and>
      (\<exists>a. map_of m ''a'' = Some (GMap a) \<and>
         (\<exists>ident ih. map_of a ''id'' = Some (GStr ident) \<and> InfohashFromString ident = Ok ih \<and> ih \<noteq> n_id n) \<and>
         (\<exists>torrent th. map_of a ''info_hash'' = Some (GStr torrent) \<and> InfohashFromString torrent = Ok th))"
    unfolding crashes_def by (simp; blast)
  have "snd (handleRequest env n addr m) = Panic q \<longleftrightarrow>
      (\<exists>k. map_of m ''q'' = Some (GStr k) \<and> (\<exists>a. map_of m ''a'' = Some (GMap a) \<and>
        (\<exists>ident. map_of a ''id'' = Some (GStr ident) \<and> (\<exists>ih. InfohashFromString ident = Ok ih \<and>
          ih \<noteq> n_id n \<and> k = ''get_peers'' \<and>
          snd (onGetPeersQuery env n \<lparr>rn_addr = addr, rn_id = ih\<rparr> m) = Panic q))))"
    unfolding handleRequest_def
    by (simp only: panic_simps body GetString_eq_Ok GetMap_eq_Ok simp_thms)
  then show ?thesis
    unfolding crash onGetPeersQuery_Panic_iff [OF assms] by (auto; blast)
qed

lemma values_loop_iff:
  "values_loop vs = Panic q \<longleftrightarrow> q = TypeAssertion \<and> (\<exists>v \<in> set vs. \<nexists>s. v = GStr s)"
  "values_loop vs = Ok () \<or> values_loop vs = Panic TypeAssertion"
  by (induction vs) (auto simp: and_then_Panic_iff assert_string_Panic assert_string_Ok assert_string_def
      split: option.splits goval.splits)

lemma add_and_return_no_Panic: "node_inv n \<Longrightarrow> snd (add_and_return rn n (Ok ())) \<noteq> Panic q"
  using add_and_return_eq [of n rn "Ok ()"] by auto

lemma handleResponse_Panic_iff:
  assumes "env_returns env" "node_inv n"
  shows "snd (handleResponse env n addr m) = Panic q \<longleftrightarrow> q = TypeAssertion \<and> crashes (n_id n) m ''r''"
proof -
  have nodes: "snd (with_val n (onFindNodeResponse env n rn m) (\<lambda>n1.
      with_val n1 (processFindNodeResults env n1 rn nodes) (\<lambda>n2. add_and_return rn n2 (Ok ())))) \<noteq> Panic q'"
    if "map_of m ''r'' = Some (GMap r)" "map_of r ''nodes'' = Some (GStr nodes)" for r rn nodes q'
  proof -
    from processFindNodeResults_Ok [OF assms] obtain n1 where
      n1: "processFindNodeResults env n rn nodes = Ok n1" "node_inv n1" by blast
    from processFindNodeResults_Ok [OF assms(1) n1(2)] obtain n2 where
      "processFindNodeResults env n1 rn nodes = Ok n2" "node_inv n2" by blast
    with n1 that show ?thesis by (simp add: onFindNodeResponse_eq panic_simps add_and_return_no_Panic)
  qed
  have vals: "snd (with_val n (values_loop vs) (\<lambda>_. add_and_return rn n (Ok ()))) = Panic q' \<longleftrightarrow>
      q' = TypeAssertion \<and> (\<exists>v \<in> set vs. \<nexists>s. v = GStr s)" for rn vs q'
    using assms(2) by (simp add: panic_simps add_and_return_no_Panic values_loop_iff(1))
  have body: "snd (case GetString r ''nodes'' of
         Ok nodes \<Rightarrow> with_val n (onFindNodeResponse env n rn m) (\<lambda>n1.
           with_val n1 (processFindNodeResults env n1 rn nodes) (\<lambda>n2. add_and_return rn n2 (Ok ())))
       | _ \<Rightarrow> (case GetList r ''values'' of
              Ok vs \<Rightarrow> with_val n (values_loop vs) (\<lambda>_. add_and_return rn n (Ok ()))
            | _ \<Rightarrow> (n, Ok ()))) = Panic q' \<longleftrightarrow>
     q' = TypeAssertion \<and> (\<nexists>s. map_of r ''nodes'' = Some (GStr s)) \<and>
       (\<exists>vs. map_of r ''values'' = Some (GList vs) \<and> (\<exists>v \<in> set vs. \<nexists>s. v = GStr s))"
    if r: "map_of m ''r'' = Some (GMap r)" for r rn q'
  proof (cases "\<exists>s. map_of r ''nodes'' = Some (GStr s)")
    case True
    with nodes [OF r] show ?thesis by (auto simp: GetString_def)
  next
    case False
    then have "\<exists>e. GetString r ''nodes'' = Err e"
      by (auto simp: GetString_def split: option.splits goval.splits)
    moreover have "\<exists>e. GetList r ''values'' = Err e" if "\<nexists>vs. map_of r ''values'' = Some (GList vs)"
      using that by (auto simp: GetList_def split: option.splits goval.splits)
    ultimately show ?thesis
      using False vals by (cases "\<exists>vs. map_of r ''values'' = Some (GList vs)") (auto simp: GetList_def; blast)+
  qed
  show ?thesis
    unfolding handleResponse_def Let_def crashes_def snd_with_val_Panic by (auto simp: body panic_simps(4-); blast)
qed

lemma handleError_Panic_iff:
  "snd (handleError env n addr m) = Panic q \<longleftrightarrow> q = TypeAssertion \<and> crashes (n_id n) m ''e''"
proof (cases "\<exists>a b. map_of m ''e'' = Some (GList [a, b])")
  case True
  then obtain a b where "map_of m ''e'' = Some (GList [a, b])" by blast
  then show ?thesis
    by (cases a; cases b) (auto simp: handleError_def GetList_def with_val_def crashes_def assert_string_def)
next
  case False
  have two: "length e = 2 \<Longrightarrow> \<exists>a b. e = [a, b]" for e :: "goval list"
    by (auto simp: numeral_2_eq_2 length_Suc_conv)
  with False have "length e \<noteq> 2" if "map_of m ''e'' = Some (GList e)" for e using that by blast
  with False show ?thesis by (auto simp: handleError_def panic_simps crashes_def)
qed

lemma dispatch_Panic_iff:
  assumes "env_returns env" "node_inv n"
  shows "snd (dispatch env n addr m y) = Panic q \<longleftrightarrow> q = TypeAssertion \<and> crashes (n_id n) m y"
proof -
  have "\<not> crashes own m y" if "y \<notin> {''q'', ''r'', ''e''}" for own
    using that by (simp add: crashes_def)
  then show ?thesis
    by (simp add: dispatch_def handleRequest_Panic_iff [OF assms] handleResponse_Panic_iff [OF assms]
        handleError_Panic_iff)
qed

end
