(* ===== verification/Node_Properties.thy ===== *)
theory Node_Properties
  imports Node
begin

text \<open>
  The properties of the DHT node: what each kind of packet does, which packets crash the process,
  how the blacklist works, and the invariant of the running node under every interleaving of its
  three goroutines.
\<close>

section \<open>A concrete environment\<close>

text \<open>
  A decoder that answers one message, an encoder, a cache that is a list of keys and a resolver
  that knows no names: an environment in which the assumptions of the theorems hold.
\<close>

definition sample_env :: "dict \<Rightarrow> string list env" where
  "sample_env m =
     \<lparr>DecodeDict = sample_decoder m, Encode = (\<lambda>d. Ok [100, 101]),
      cache_Get = (\<lambda>c k. (k \<in> set c, c)), cache_Add = (\<lambda>c k. k # c), cache_New = (\<lambda>_. Ok []),
      resolve = \<lparr>res_hosts = (\<lambda>_. Err (External ''no such host'')),
                 res_services = (\<lambda>_ _. Err (External ''unknown port''))\<rparr>,
      ListenPacket = (\<lambda>_ a. Ok a)\<rparr>"

definition sample_dht_node :: "string \<Rightarrow> string list node" where
  "sample_dht_node family =
     \<lparr>n_id = replicate 20 0, n_family = family, n_address = [], n_port = 6881, n_local = [],
      n_rTable = empty_table (replicate 20 0) 2000, n_udpTimeout = 10, n_packetsOut = [],
      n_blacklist = Some [], n_OnAnnouncePeer = True, n_OnBadPeer = True, n_announced = [], n_bad = []\<rparr>"

lemma sample_env_ok [simp]: "env_returns (sample_env m)" "cache_law (sample_env m)"
  by (simp_all add: env_returns_def cache_law_def sample_env_def sample_decoder_def)

lemma sample_node_inv [simp]: "node_inv (sample_dht_node family)"
  using rt_wf_sound [OF empty_table_wf, of "replicate 20 0" 2000]
  by (simp add: node_inv_def sample_dht_node_def Infohash_Valid_def packetsOut_cap_def empty_table_def)

lemma sample_env_sel [simp]:
  "DecodeDict (sample_env m) b i = Ok (m, int (length b))" "Encode (sample_env m) d = Ok [100, 101]"
  "cache_Get (sample_env m) c k = (k \<in> set c, c)" "cache_Add (sample_env m) c k = k # c"
  "ListenPacket (sample_env m) f s = Ok s" "cache_New (sample_env m) i = Ok []"
  by (simp_all add: sample_env_def sample_decoder_def)

lemma sample_dht_node_sel [simp]:
  "n_id (sample_dht_node f) = replicate 20 0" "n_family (sample_dht_node f) = f"
  "n_blacklist (sample_dht_node f) = Some []" "n_packetsOut (sample_dht_node f) = []"
  "n_OnAnnouncePeer (sample_dht_node f)" "n_announced (sample_dht_node f) = []"
  "n_rTable (sample_dht_node f) = empty_table (replicate 20 0) 2000"
  by (simp_all add: sample_dht_node_def)

section \<open>Crashes\<close>

lemma snd_and_after_Panic:
  "snd (and_after r f) = Panic q \<longleftrightarrow>
     snd r = Panic q \<or> returns (snd r) \<and> snd (f (fst r) (snd r)) = Panic q"
  by (cases "(r, f)" rule: and_after.cases) auto

lemma processPacket_Panic_iff:
  assumes env: "env_returns env" and inv: "node_inv n"
  shows "snd (processPacket env n p) = Panic q \<longleftrightarrow>
       q = TypeAssertion \<and> (\<exists>m idx y. DecodeDict env (pkt_data p) 0 = Ok (m, idx) \<and>
         map_of m ''y'' = Some (GStr y) \<and>
         \<not> fst (cache_Get env (the (n_blacklist n)) (UDPAddr_String (pkt_raddr p))) \<and>
         crashes (n_id n) m y)"
proof -
  let ?key = "UDPAddr_String (pkt_raddr p)"
  from blacklist_Get_Ok [OF inv, of env ?key] obtain black c' where
    get: "blacklist_Get env n ?key = Ok (black, n\<lparr>n_blacklist := Some c'\<rparr>)"
      "(black, c') = cache_Get env (the (n_blacklist n)) ?key" "node_inv (n\<lparr>n_blacklist := Some c'\<rparr>)" by blast
  let ?n1 = "n\<lparr>n_blacklist := Some c'\<rparr>"
  have black: "black = fst (cache_Get env (the (n_blacklist n)) ?key)" using get(2) by (metis fst_conv)
  have tail: "snd (case u of Err e \<Rightarrow> with_val n2 (blacklist_Add env n2 ?key) (\<lambda>n3. (n3, Err e))
      | _ \<Rightarrow> (n2, u)) = Panic q' \<longleftrightarrow> u = Panic q'" if "node_inv n2" for n2 q' and u :: "unit outcome"
    using blacklist_Add_Ok [OF that, of env ?key] by (auto simp: with_val_def split: outcome.splits)
  have "snd (and_after (dispatch env ?n1 (pkt_raddr p) m y) (\<lambda>n2 err.
        case err of Err e \<Rightarrow> with_val n2 (blacklist_Add env n2 ?key) (\<lambda>n3. (n3, Err e)) | _ \<Rightarrow> (n2, err))) = Panic q'
      \<longleftrightarrow> q' = TypeAssertion \<and> crashes (n_id n) m y" for m y q'
    using dispatch_keeps [OF env get(3)] dispatch_Panic_iff [OF env get(3), of "pkt_raddr p" m y q']
    by (auto simp: snd_and_after_Panic tail)
  moreover have "DecodeDict env (pkt_data p) 0 \<noteq> Panic q"
    using env by (intro returns_not_Panic) (simp add: env_returns_def)
  ultimately show "snd (processPacket env n p) = Panic q \<longleftrightarrow>
       q = TypeAssertion \<and> (\<exists>m idx y. DecodeDict env (pkt_data p) 0 = Ok (m, idx) \<and>
         map_of m ''y'' = Some (GStr y) \<and> \<not> fst (cache_Get env (the (n_blacklist n)) ?key) \<and>
         crashes (n_id n) m y)"
    unfolding processPacket_def get(1) black by (auto simp: panic_simps split: if_splits)
qed

text \<open>C3: no packet, whoever sends it, breaks the node's invariant (a sound routing table with the
  node's own identifier, at most 1024 queued packets); and a packet makes the process panic exactly
  when it decodes, its sender is not blacklisted, and it is a \<^verbatim>\<open>get_peers\<close> query without a string
  transaction identifier, a response whose \<^verbatim>\<open>values\<close> hold something other than a string, or a
  two-element error that is not an integer and a string. The panic is a failed type assertion.\<close>

theorem processPacket_crash:
  assumes env: "env_returns env" and inv: "node_inv n"
  shows "node_inv (fst (processPacket env n p)) \<and>
    (snd (processPacket env n p) = Panic q \<longleftrightarrow>
       q = TypeAssertion \<and> (\<exists>m idx y. DecodeDict env (pkt_data p) 0 = Ok (m, idx) \<and>
         map_of m ''y'' = Some (GStr y) \<and>
         \<not> fst (cache_Get env (the (n_blacklist n)) (UDPAddr_String (pkt_raddr p))) \<and>
         crashes (n_id n) m y))"
  using processPacket_keeps [OF assms] processPacket_Panic_iff [OF assms] by blast

theorem processPacket_crash_witness:
  "snd (processPacket (sample_env [(''y'', GStr ''e''), (''e'', GList [GStr [], GStr []])])
     (sample_dht_node ''udp4'') \<lparr>pkt_data = [], pkt_raddr = rn_addr (sample_node 6881 7)\<rparr>) = Panic TypeAssertion"
proof -
  let ?m = "[(''y'', GStr ''e''), (''e'', GList [GStr [], GStr []])]"
  have "crashes (replicate 20 0) ?m ''e''" by (simp add: crashes_def)
  then show ?thesis
    using processPacket_crash [OF sample_env_ok(1) sample_node_inv, of ?m "''udp4''"
        "\<lparr>pkt_data = [], pkt_raddr = rn_addr (sample_node 6881 7)\<rparr>" TypeAssertion]
    by simp
qed

section \<open>The blacklist\<close>

lemma processPacket_not_black:
  assumes "node_inv n" "DecodeDict env (pkt_data p) 0 = Ok (m, idx)" "map_of m ''y'' = Some (GStr y)"
    and "cache_Get env (the (n_blacklist n)) (UDPAddr_String (pkt_raddr p)) = (False, c)"
  shows "processPacket env n p =
    and_after (dispatch env (n\<lparr>n_blacklist := Some c\<rparr>) (pkt_raddr p) m y) (\<lambda>n2 err.
      case err of
        Err e \<Rightarrow> with_val n2 (blacklist_Add env n2 (UDPAddr_String (pkt_raddr p))) (\<lambda>n3. (n3, Err e))
      | _ \<Rightarrow> (n2, err))"
proof -
  have "blacklist_Get env n (UDPAddr_String (pkt_raddr p)) = Ok (False, n\<lparr>n_blacklist := Some c\<rparr>)"
    using assms(1,4) by (auto simp: blacklist_Get_def node_inv_def)
  with assms(2,3) show ?thesis by (simp add: processPacket_def with_val_def GetString_def)
qed

text \<open>C32: when a decoded message from a sender that is not blacklisted ends in an error, the next
  message from that address is refused as blacklisted, and refusing it changes nothing of the node
  but the cache's own bookkeeping.\<close>

theorem error_blacklists_sender:
  assumes env: "env_returns env" "cache_law env" and inv: "node_inv n"
    and dec: "DecodeDict env (pkt_data p) 0 = Ok (m, idx)" "map_of m ''y'' = Some (GStr y)"
    and get: "cache_Get env (the (n_blacklist n)) (UDPAddr_String (pkt_raddr p)) = (False, c)"
    and err: "processPacket env n p = (n', Err e)"
    and p2: "UDPAddr_String (pkt_raddr p2) = UDPAddr_String (pkt_raddr p)"
      "DecodeDict env (pkt_data p2) 0 = Ok (m2, idx2)" "map_of m2 ''y'' = Some (GStr y2)"
  shows "\<exists>c2. processPacket env n' p2 =
    (n'\<lparr>n_blacklist := Some c2\<rparr>, Err (Blacklisted (UDPAddr_String (pkt_raddr p))))"
proof -
  let ?key = "UDPAddr_String (pkt_raddr p)" and ?n1 = "n\<lparr>n_blacklist := Some c\<rparr>"
  obtain n2 u where d: "dispatch env ?n1 (pkt_raddr p) m y = (n2, u)" by fastforce
  have "node_inv ?n1" using inv by (simp add: node_inv_def)
  from dispatch_keeps [OF env(1) this, of "pkt_raddr p" m y] have n2: "node_inv n2" by (simp add: d)
  from err have "u = Err e" "blacklist_Add env n2 ?key = Ok n'"
    using blacklist_Add_Ok [OF n2, of env ?key] unfolding processPacket_not_black [OF inv dec get] d
    by (cases u; auto simp: with_val_def)+
  then have "n_blacklist n' = Some (cache_Add env (the (n_blacklist n2)) ?key)"
    using blacklist_Add_Ok [OF n2, of env ?key] by auto
  moreover obtain c2 where "cache_Get env (cache_Add env (the (n_blacklist n2)) ?key) ?key = (True, c2)"
    using env(2) unfolding cache_law_def by (metis prod.collapse)
  ultimately have "blacklist_Get env n' ?key = Ok (True, n'\<lparr>n_blacklist := Some c2\<rparr>)"
    by (simp add: blacklist_Get_def)
  with p2 show ?thesis by (intro exI [of _ c2]) (simp add: processPacket_def with_val_def GetString_def)
qed

theorem error_blacklists_sender_witness:
  "\<exists>n' c2. processPacket (sample_env [(''y'', GStr ''x'')]) (sample_dht_node ''udp4'')
      \<lparr>pkt_data = [], pkt_raddr = rn_addr (sample_node 6881 7)\<rparr> = (n', Err MissingRequestType) \<and>
    processPacket (sample_env [(''y'', GStr ''x'')]) n'
      \<lparr>pkt_data = [1], pkt_raddr = rn_addr (sample_node 6881 7)\<rparr> =
    (n'\<lparr>n_blacklist := Some c2\<rparr>, Err (Blacklisted (UDPAddr_String (rn_addr (sample_node 6881 7)))))"
proof -
  let ?m = "[(''y'', GStr ''x'')]" and ?a = "rn_addr (sample_node 6881 7)"
  let ?env = "sample_env ?m" and ?n = "sample_dht_node ''udp4''"
  have first: "processPacket ?env ?n \<lparr>pkt_data = [], pkt_raddr = ?a\<rparr> =
      (?n\<lparr>n_blacklist := Some [UDPAddr_String ?a]\<rparr>, Err MissingRequestType)"
    by (simp add: processPacket_def with_val_def krpc_get blacklist_Get_def blacklist_Add_def dispatch_def)
  have "\<exists>c2. processPacket ?env (?n\<lparr>n_blacklist := Some [UDPAddr_String ?a]\<rparr>) \<lparr>pkt_data = [1], pkt_raddr = ?a\<rparr> =
      (?n\<lparr>n_blacklist := Some [UDPAddr_String ?a]\<rparr>\<lparr>n_blacklist := Some c2\<rparr>,
       Err (Blacklisted (UDPAddr_String (pkt_raddr \<lparr>pkt_data = [], pkt_raddr = ?a\<rparr>))))"
    by (rule error_blacklists_sender [OF _ _ _ _ _ _ first, of ?m 0 "''x''" "[]" _ ?m 1 "''x''"])
      simp_all
  with first show ?thesis by (metis packet.select_convs(2))
qed

section \<open>Queries\<close>

text \<open>A query of kind \<open>q\<close> with arguments \<open>a\<close> from a sender with identifier \<open>ih\<close>.\<close>

definition is_query :: "dict \<Rightarrow> string \<Rightarrow> dict \<Rightarrow> infohash \<Rightarrow> bool" where
  "is_query m q a ih \<longleftrightarrow>
     map_of m ''y'' = Some (GStr ''q'') \<and> map_of m ''q'' = Some (GStr q) \<and> map_of m ''a'' = Some (GMap a) \<and>
     (\<exists>ident. map_of a ''id'' = Some (GStr ident) \<and> InfohashFromString ident = Ok ih)"

text \<open>That the packet \<open>p\<close> brings the message \<open>m\<close> from an address that is not blacklisted.\<close>

definition arrives :: "'c env \<Rightarrow> 'c node \<Rightarrow> packet \<Rightarrow> dict \<Rightarrow> bool" where
  "arrives env n p m \<longleftrightarrow> (\<exists>idx. DecodeDict env (pkt_data p) 0 = Ok (m, idx)) \<and>
     \<not> fst (cache_Get env (the (n_blacklist n)) (UDPAddr_String (pkt_raddr p)))"

lemma handleRequest_query:
  assumes "is_query m q a ih" "ih \<noteq> n_id n" "rn = \<lparr>rn_addr = addr, rn_id = ih\<rparr>"
  shows "handleRequest env n addr m =
    (if q = ''ping'' then and_after (onPingQuery env n rn m) (add_and_return rn)
     else if q = ''get_peers'' then and_after (onGetPeersQuery env n rn m) (add_and_return rn)
     else if q = ''announce_peer''
     then and_after (onAnnouncePeerQuery env n rn m) (\<lambda>n' _. add_and_return rn n' (Ok ()))
     else (n, Ok ()))"
  using assms by (auto simp: is_query_def handleRequest_def with_val_def GetString_def GetMap_def Let_def)

lemma processPacket_query:
  assumes "node_inv n" "arrives env n p m" "is_query m q a ih"
    and "\<And>c. handleRequest env (n\<lparr>n_blacklist := Some c\<rparr>) (pkt_raddr p) m = (f c, Ok ())"
  shows "\<exists>c. processPacket env n p = (f c, Ok ())"
proof -
  from assms(2) obtain idx where "DecodeDict env (pkt_data p) 0 = Ok (m, idx)"
    and b: "\<not> fst (cache_Get env (the (n_blacklist n)) (UDPAddr_String (pkt_raddr p)))"
    by (auto simp: arrives_def)
  moreover obtain c where "cache_Get env (the (n_blacklist n)) (UDPAddr_String (pkt_raddr p)) = (False, c)"
    using b by (metis (full_types) prod.collapse)
  moreover have "map_of m ''y'' = Some (GStr ''q'')" using assms(3) by (simp add: is_query_def)
  ultimately show ?thesis
    using assms(1,4) by (intro exI [of _ c]) (simp add: processPacket_not_black dispatch_def)
qed

lemma queueMsg_room:
  assumes "Encode env data = Ok b" "length (n_packetsOut n) < packetsOut_cap"
  shows "queueMsg env n rn data =
    (n\<lparr>n_packetsOut := n_packetsOut n @ [\<lparr>pkt_data = b, pkt_raddr = rn_addr rn\<rparr>]\<rparr>, Ok ())"
  using assms by (simp add: queueMsg_def with_val_def send_packet_def)

text \<open>A query that is answered: the reply is queued, then the sender goes into the table.\<close>

lemma answered_query:
  assumes inv: "node_inv n" and arr: "arrives env n p m" and q: "is_query m q a ih" and own: "ih \<noteq> n_id n"
    and rn: "rn = \<lparr>rn_addr = pkt_raddr p, rn_id = ih\<rparr>"
    and handle: "\<And>c. handleRequest env (n\<lparr>n_blacklist := Some c\<rparr>) (pkt_raddr p) m =
      and_after (n\<lparr>n_blacklist := Some c, n_packetsOut := n_packetsOut n @ [reply]\<rparr>, Ok ()) (add_and_return rn)"
    and room: "length (n_packetsOut n) < packetsOut_cap"
  shows "\<exists>n'. processPacket env n p = (n', Ok ()) \<and> n_packetsOut n' = n_packetsOut n @ [reply] \<and>
    routingTable_add (n_rTable n) rn = Ok (n_rTable n') \<and> n_announced n' = n_announced n"
proof -
  from table_add_Ok [OF inv, of rn] obtain t where t: "routingTable_add (n_rTable n) rn = Ok t" by blast
  have "handleRequest env (n\<lparr>n_blacklist := Some c\<rparr>) (pkt_raddr p) m =
      (n\<lparr>n_blacklist := Some c, n_packetsOut := n_packetsOut n @ [reply], n_rTable := t\<rparr>, Ok ())" for c
    unfolding handle by (simp add: add_and_return_def table_add_def with_val_def t)
  from processPacket_query [OF inv arr q this] t show ?thesis by auto
qed

text \<open>C37: a \<^verbatim>\<open>ping\<close> query with a transaction identifier is answered with exactly one packet to its
  sender, the encoding of a response with the same transaction identifier and the node's own
  identifier, and the sender is offered to the routing table.\<close>

theorem ping_answered:
  assumes "node_inv n" "arrives env n p m" "is_query m ''ping'' a ih" "ih \<noteq> n_id n"
    and "map_of m ''t'' = Some (GStr t)" "length (n_packetsOut n) < packetsOut_cap"
    and "Encode env [(''t'', GStr t), (''y'', GStr ''r''), (''r'', GMap [(''id'', GStr (bytes_str (n_id n)))])] = Ok b"
  shows "\<exists>n'. processPacket env n p = (n', Ok ()) \<and>
    n_packetsOut n' = n_packetsOut n @ [\<lparr>pkt_data = b, pkt_raddr = pkt_raddr p\<rparr>] \<and>
    routingTable_add (n_rTable n) \<lparr>rn_addr = pkt_raddr p, rn_id = ih\<rparr> = Ok (n_rTable n') \<and>
    n_announced n' = n_announced n"
proof (rule answered_query [OF assms(1-4) refl])
  fix c
  let ?n = "n\<lparr>n_blacklist := Some c\<rparr>" and ?rn = "\<lparr>rn_addr = pkt_raddr p, rn_id = ih\<rparr>"
  have "onPingQuery env ?n ?rn m =
      (n\<lparr>n_blacklist := Some c, n_packetsOut := n_packetsOut n @ [\<lparr>pkt_data = b, pkt_raddr = pkt_raddr p\<rparr>]\<rparr>, Ok ())"
    using assms(5-7) by (simp add: onPingQuery_def with_val_def GetString_def queueMsg_room MakeResponse_def)
  with assms(3,4) show "handleRequest env ?n (pkt_raddr p) m = and_after
      (n\<lparr>n_blacklist := Some c, n_packetsOut := n_packetsOut n @ [\<lparr>pkt_data = b, pkt_raddr = pkt_raddr p\<rparr>]\<rparr>, Ok ())
      (add_and_return ?rn)"
    by (simp add: handleRequest_query [of m "''ping''" a ih])
qed (rule assms(6))

definition sample_query :: "string \<Rightarrow> dict \<Rightarrow> dict" where
  "sample_query q a =
     [(''y'', GStr ''q''), (''q'', GStr q), (''t'', GStr ''aa''),
      (''a'', GMap ((''id'', GStr (bytes_str (replicate 20 7))) # a))]"

lemma sample_query_is: "is_query (sample_query q a) q ((''id'', GStr (bytes_str (replicate 20 7))) # a) (replicate 20 7)"
  by (simp add: is_query_def sample_query_def)

lemma sample_arrives [simp]: "arrives (sample_env m) (sample_dht_node f) p m"
  by (simp add: arrives_def)

theorem ping_answered_witness:
  "\<exists>n'. processPacket (sample_env (sample_query ''ping'' [])) (sample_dht_node ''udp4'')
      \<lparr>pkt_data = [], pkt_raddr = rn_addr (sample_node 6881 7)\<rparr> = (n', Ok ()) \<and>
    n_packetsOut n' = [\<lparr>pkt_data = [100, 101], pkt_raddr = rn_addr (sample_node 6881 7)\<rparr>]"
proof -
  have "replicate 20 7 \<noteq> n_id (sample_dht_node ''udp4'')" by simp
  from ping_answered [OF sample_node_inv sample_arrives sample_query_is this, where t = "''aa''"
      and b = "[100, 101]" and p = "\<lparr>pkt_data = [], pkt_raddr = rn_addr (sample_node 6881 7)\<rparr>" and a1 = "[]"]
  show ?thesis by (auto simp: packetsOut_cap_def sample_query_def)
qed

text \<open>A \<^verbatim>\<open>get_peers\<close> query is answered with one response to its sender: the same transaction
  identifier, the first two characters of \<^verbatim>\<open>info_hash\<close> as token, an empty node list, and an
  identifier made of the first half of the infohash and the second half of the node's own, so the
  node presents itself as a neighbour of every torrent it is asked for.\<close>

theorem get_peers_answered:
  assumes "node_inv n" "arrives env n p m" "is_query m ''get_peers'' a ih" "ih \<noteq> n_id n"
    and "map_of m ''t'' = Some (GStr t)" "length (n_packetsOut n) < packetsOut_cap"
    and "map_of a ''info_hash'' = Some (GStr torrent)" "InfohashFromString torrent = Ok th"
    and "Encode env [(''t'', GStr t), (''y'', GStr ''r''),
        (''r'', GMap [(''id'', GStr (bytes_str (take 10 th @ drop 10 (n_id n)))),
                     (''token'', GStr (take 2 torrent)), (''nodes'', GStr [])])] = Ok b"
  shows "\<exists>n'. processPacket env n p = (n', Ok ()) \<and>
    n_packetsOut n' = n_packetsOut n @ [\<lparr>pkt_data = b, pkt_raddr = pkt_raddr p\<rparr>] \<and>
    routingTable_add (n_rTable n) \<lparr>rn_addr = pkt_raddr p, rn_id = ih\<rparr> = Ok (n_rTable n') \<and>
    n_announced n' = n_announced n"
proof (rule answered_query [OF assms(1-4) refl])
  fix c
  let ?n = "n\<lparr>n_blacklist := Some c\<rparr>" and ?rn = "\<lparr>rn_addr = pkt_raddr p, rn_id = ih\<rparr>"
  have "length (n_id n) = 20" using assms(1) by (simp add: node_inv_def Infohash_Valid_def InfohashLength_def)
  then have "GenerateNeighbour [] (n_id n) th = Ok (take 10 th @ drop 10 (n_id n), take 10 th @ drop 10 (n_id n))"
    "slice_go torrent 0 2 = Ok (take 2 torrent)"
    using InfohashFromString_length [OF assms(8)] by (simp_all add: GenerateNeighbour_20 slice_go_def)
  moreover have "map_of m ''a'' = Some (GMap a)" using assms(3) by (simp add: is_query_def)
  ultimately have "onGetPeersQuery env ?n ?rn m =
      (n\<lparr>n_blacklist := Some c, n_packetsOut := n_packetsOut n @ [\<lparr>pkt_data = b, pkt_raddr = pkt_raddr p\<rparr>]\<rparr>, Ok ())"
    using assms(5-9) by (simp add: onGetPeersQuery_def with_val_def GetString_def GetMap_def assert_string_def
        queueMsg_room MakeResponse_def)
  with assms(3,4) show "handleRequest env ?n (pkt_raddr p) m = and_after
      (n\<lparr>n_blacklist := Some c, n_packetsOut := n_packetsOut n @ [\<lparr>pkt_data = b, pkt_raddr = pkt_raddr p\<rparr>]\<rparr>, Ok ())
      (add_and_return ?rn)"
    by (simp add: handleRequest_query [of m "''get_peers''" a ih])
qed (rule assms(6))

theorem get_peers_answered_witness:
  "\<exists>n'. processPacket (sample_env (sample_query ''get_peers'' [(''info_hash'', GStr (bytes_str (replicate 20 9)))]))
      (sample_dht_node ''udp4'') \<lparr>pkt_data = [], pkt_raddr = rn_addr (sample_node 6881 7)\<rparr> = (n', Ok ()) \<and>
    n_packetsOut n' = [\<lparr>pkt_data = [100, 101], pkt_raddr = rn_addr (sample_node 6881 7)\<rparr>]"
proof -
  have "replicate 20 7 \<noteq> n_id (sample_dht_node ''udp4'')" by simp
  from get_peers_answered [OF sample_node_inv sample_arrives sample_query_is this, where t = "''aa''"
      and b = "[100, 101]" and p = "\<lparr>pkt_data = [], pkt_raddr = rn_addr (sample_node 6881 7)\<rparr>"
      and a1 = "[(''info_hash'', GStr (bytes_str (replicate 20 9)))]" and torrent = "bytes_str (replicate 20 9)"]
  show ?thesis by (auto simp: packetsOut_cap_def sample_query_def)
qed

section \<open>Announcements\<close>

lemma dec_str_zero: "dec_str n = ''0'' \<longleftrightarrow> n = 0"
proof -
  have "dec_str 0 = ''0''" by code_simp
  then show ?thesis by (metis dec_value_dec_str)
qed

lemma announced_addr_blacklist [simp]:
  "announced_addr env (n\<lparr>n_blacklist := c\<rparr>) rn a host = announced_addr env n rn a host"
  by (simp add: announced_addr_def cong: outcome.case_cong if_cong)

text \<open>
  What an \<^verbatim>\<open>announce_peer\<close> query leads to: the sender is always offered to the table, no error is
  reported, and the callback gets the announced address when that can be worked out.
\<close>

lemma announce_handled:
  assumes inv: "node_inv n" and arr: "arrives env n p m" and q: "is_query m ''announce_peer'' a ih"
    and own: "ih \<noteq> n_id n" and addr: "wf_addr (pkt_raddr p)" "addr_Port (pkt_raddr p) \<noteq> 0"
    and hash: "map_of a ''info_hash'' = Some (GStr torrent)" "InfohashFromString torrent = Ok th"
    and callback: "n_OnAnnouncePeer n"
    and res: "announced_addr env n \<lparr>rn_addr = pkt_raddr p, rn_id = ih\<rparr> a (IP_String (addr_IP (pkt_raddr p))) = r"
      "returns r"
  shows "\<exists>n'. processPacket env n p = (n', Ok ()) \<and> n_packetsOut n' = n_packetsOut n \<and>
    routingTable_add (n_rTable n) \<lparr>rn_addr = pkt_raddr p, rn_id = ih\<rparr> = Ok (n_rTable n') \<and>
    n_announced n' = n_announced n @ (case r of Ok addr \<Rightarrow> [mkPeer addr th] | _ \<Rightarrow> [])"
proof -
  let ?rn = "\<lparr>rn_addr = pkt_raddr p, rn_id = ih\<rparr>"
  let ?calls = "n_announced n @ (case r of Ok addr \<Rightarrow> [mkPeer addr th] | _ \<Rightarrow> [])"
  from table_add_Ok [OF inv, of ?rn] obtain t where t: "routingTable_add (n_rTable n) ?rn = Ok t" by blast
  have a: "map_of m ''a'' = Some (GMap a)" using q by (simp add: is_query_def)
  have "dec_str (addr_Port (pkt_raddr p)) \<noteq> ''0''" using addr(2) by (simp add: dec_str_zero)
  then have "handleRequest env (n\<lparr>n_blacklist := Some c\<rparr>) (pkt_raddr p) m =
      (n\<lparr>n_blacklist := Some c, n_announced := ?calls, n_rTable := t\<rparr>, Ok ())" for c
    using q own a addr(1) hash callback res t
    by (cases r) (simp_all add: handleRequest_query [of m "''announce_peer''" a ih] onAnnouncePeerQuery_def
        with_val_def GetMap_def GetString_def SplitHostPort_UDPAddr_String add_and_return_def table_add_def)
  from processPacket_query [OF inv arr q this] t show ?thesis by auto
qed

text \<open>The announcement of an IPv4 peer.\<close>

lemma announce_effect:
  assumes "node_inv n" "arrives env n p m" "is_query m ''announce_peer'' a ih" "ih \<noteq> n_id n"
    and "wf_addr (pkt_raddr p)" "addr_Port (pkt_raddr p) \<noteq> 0" "IP_To4 (addr_IP (pkt_raddr p)) = Some quad"
    and "map_of a ''info_hash'' = Some (GStr torrent)" "InfohashFromString torrent = Ok th"
    and "n_OnAnnouncePeer n" "n_family n = ''udp4''"
    and "map_of a ''port'' = Some (GInt64 pt)" "0 \<le> pt" "pt \<le> 65535"
  shows "\<exists>n'. processPacket env n p = (n', Ok ()) \<and> n_packetsOut n' = n_packetsOut n \<and>
    routingTable_add (n_rTable n) \<lparr>rn_addr = pkt_raddr p, rn_id = ih\<rparr> = Ok (n_rTable n') \<and>
    n_announced n' = n_announced n @
      [mkPeer (if map_of a ''implied_port'' = Some (GInt64 0)
               then \<lparr>addr_IP = v4_in_v6_prefix @ quad, addr_Port = nat pt, addr_Zone = []\<rparr>
               else pkt_raddr p) th]"
proof -
  let ?addr = "if map_of a ''implied_port'' = Some (GInt64 0)
      then \<lparr>addr_IP = v4_in_v6_prefix @ quad, addr_Port = nat pt, addr_Zone = []\<rparr> else pkt_raddr p"
  have "dec_int pt = dec_str (nat pt)" using assms(13) by (simp add: dec_int_def)
  moreover have "IP_String (addr_IP (pkt_raddr p)) = dotted quad" "length quad = 4"
    using IP_String_ipv4 [OF assms(7)] by simp_all
  ultimately have "announced_addr env n \<lparr>rn_addr = pkt_raddr p, rn_id = ih\<rparr> a (IP_String (addr_IP (pkt_raddr p))) =
      Ok ?addr"
    using assms(11-14)
    by (simp add: announced_addr_def GetInt_def ResolveUDPAddr_dotted [simplified] split: option.splits goval.splits)
  from announce_handled [OF assms(1-6,8-10) this] show ?thesis by simp
qed

text \<open>C33: a node on IPv4 that gets an \<^verbatim>\<open>announce_peer\<close> query reports one peer to its callback, under
  the announced infohash: at the sender's IP address with the port of the message when the message
  has a \<^verbatim>\<open>port\<close> and an \<^verbatim>\<open>implied_port\<close> of 0, and at the address the packet came from when
  \<^verbatim>\<open>implied_port\<close> is another number or missing. It sends nothing and puts the sender into the
  table.\<close>

theorem announce_reported:
  assumes "node_inv n" "arrives env n p m" "is_query m ''announce_peer'' a ih" "ih \<noteq> n_id n"
    and "wf_addr (pkt_raddr p)" "addr_Port (pkt_raddr p) \<noteq> 0" "IP_To4 (addr_IP (pkt_raddr p)) = Some quad"
    and "map_of a ''info_hash'' = Some (GStr torrent)" "InfohashFromString torrent = Ok th"
    and "n_OnAnnouncePeer n" "n_family n = ''udp4''"
    and "map_of a ''port'' = Some (GInt64 pt)" "0 \<le> pt" "pt \<le> 65535"
  shows "\<exists>n'. processPacket env n p = (n', Ok ()) \<and> n_packetsOut n' = n_packetsOut n \<and>
    routingTable_add (n_rTable n) \<lparr>rn_addr = pkt_raddr p, rn_id = ih\<rparr> = Ok (n_rTable n') \<and>
    n_announced n' = n_announced n @
      [mkPeer (if map_of a ''implied_port'' = Some (GInt64 0)
               then \<lparr>addr_IP = v4_in_v6_prefix @ quad, addr_Port = nat pt, addr_Zone = []\<rparr>
               else pkt_raddr p) th]"
  using assms by (rule announce_effect)

theorem announce_reported_witness:
  "\<exists>n'. processPacket (sample_env (sample_query ''announce_peer''
         [(''info_hash'', GStr (bytes_str (replicate 20 9))), (''port'', GInt64 8080), (''implied_port'', GInt64 0)]))
      (sample_dht_node ''udp4'') \<lparr>pkt_data = [], pkt_raddr = rn_addr (sample_node 6881 7)\<rparr> = (n', Ok ()) \<and>
    n_announced n' = [mkPeer \<lparr>addr_IP = v4_in_v6_prefix @ [10, 0, 0, 1], addr_Port = 8080, addr_Zone = []\<rparr> (replicate 20 9)]"
proof -
  have "replicate 20 7 \<noteq> n_id (sample_dht_node ''udp4'')" by simp
  from announce_reported [OF sample_node_inv sample_arrives sample_query_is this, where quad = "[10, 0, 0, 1]"
      and p = "\<lparr>pkt_data = [], pkt_raddr = rn_addr (sample_node 6881 7)\<rparr>" and pt = 8080
      and a1 = "[(''info_hash'', GStr (bytes_str (replicate 20 9))), (''port'', GInt64 8080), (''implied_port'', GInt64 0)]"
      and torrent = "bytes_str (replicate 20 9)" and th = "replicate 20 9"]
  show ?thesis by (auto simp: sample_node_def wf_addr_def IP_To4_def)
qed

text \<open>C34: an announcement with a port and an \<^verbatim>\<open>implied_port\<close> of 0 that comes from an IPv6 address is
  lost: the address text is joined without brackets, resolving it fails with too many colons, and
  the callback is not called, although the query counts as handled and its sender is kept.\<close>

theorem ipv6_announce_lost:
  assumes "node_inv n" "arrives env n p m" "is_query m ''announce_peer'' a ih" "ih \<noteq> n_id n"
    and "wf_addr (pkt_raddr p)" "addr_Port (pkt_raddr p) \<noteq> 0" "is_ipv6 (addr_IP (pkt_raddr p))"
    and "map_of a ''info_hash'' = Some (GStr torrent)" "InfohashFromString torrent = Ok th"
    and "n_OnAnnouncePeer n" "n_family n = ''udp6''"
    and "map_of a ''port'' = Some (GInt64 pt)" "map_of a ''implied_port'' = Some (GInt64 0)"
  shows "\<exists>n'. processPacket env n p = (n', Ok ()) \<and> n_announced n' = n_announced n \<and>
    routingTable_add (n_rTable n) \<lparr>rn_addr = pkt_raddr p, rn_id = ih\<rparr> = Ok (n_rTable n')"
proof -
  let ?host = "IP_String (addr_IP (pkt_raddr p))"
  have colon: "CHR '':'' \<in> set ?host" using assms(7) by (rule IP_String_ipv6)
  have "no_brackets ?host" using assms(5) by (intro IP_String_no_brackets) (simp add: wf_addr_def)
  then have "hd ?host \<noteq> CHR ''[''" using colon by (cases ?host) (auto simp: no_brackets_def)
  moreover have "CHR '':'' \<notin> set (dec_int pt)" by (simp add: dec_int_def dec_str_chars)
  ultimately have "SplitHostPort (?host @ '':'' @ dec_int pt) = Err AddrTooManyColons"
    using colon by (intro SplitHostPort_two_colons)
  then have "announced_addr env n \<lparr>rn_addr = pkt_raddr p, rn_id = ih\<rparr> a ?host = Err AddrTooManyColons"
    using assms(11-13) by (simp add: announced_addr_def GetInt_def ResolveUDPAddr_def)
  from announce_handled [OF assms(1-6,8-10) this] show ?thesis by auto
qed

definition sample_addr6 :: UDPAddr where
  "sample_addr6 = \<lparr>addr_IP = 32 # replicate 14 0 @ [1], addr_Port = 6881, addr_Zone = []\<rparr>"

lemma sample_addr6_ok: "is_ipv6 (addr_IP sample_addr6)" "wf_addr sample_addr6" "addr_Port sample_addr6 \<noteq> 0"
  by code_simp (simp_all add: sample_addr6_def wf_addr_def)

theorem ipv6_announce_lost_witness:
  "\<exists>n'. processPacket (sample_env (sample_query ''announce_peer''
         [(''info_hash'', GStr (bytes_str (replicate 20 9))), (''port'', GInt64 8080), (''implied_port'', GInt64 0)]))
      (sample_dht_node ''udp6'') \<lparr>pkt_data = [], pkt_raddr = sample_addr6\<rparr> = (n', Ok ()) \<and> n_announced n' = []"
proof -
  have "replicate 20 7 \<noteq> n_id (sample_dht_node ''udp6'')" by simp
  from ipv6_announce_lost [OF sample_node_inv sample_arrives sample_query_is this,
      where p = "\<lparr>pkt_data = [], pkt_raddr = sample_addr6\<rparr>" and pt = 8080
      and a1 = "[(''info_hash'', GStr (bytes_str (replicate 20 9))), (''port'', GInt64 8080), (''implied_port'', GInt64 0)]"
      and torrent = "bytes_str (replicate 20 9)" and th = "replicate 20 9"]
  show ?thesis by (auto simp: sample_addr6_ok)
qed

section \<open>Responses with nodes\<close>

text \<open>The node a 26-byte group stands for, when its port is not 0.\<close>

definition group_v4 :: "string \<Rightarrow> remoteNode option" where
  "group_v4 g =
     (let b = str_bytes g; port = unat (port_of (b ! 24) (b ! 25)) in
      if port = 0 then None
      else Some \<lparr>rn_addr = \<lparr>addr_IP = v4_in_v6_prefix @ take 4 (drop 20 b), addr_Port = port, addr_Zone = []\<rparr>,
                 rn_id = take 20 b\<rparr>)"

lemma group_node_v4:
  assumes "i + 26 \<le> length nodeList"
  shows "group_node env ''udp4'' nodeList i = Ok (group_v4 (take 26 (drop i nodeList)))"
proof -
  let ?g = "take 26 (drop i nodeList)" and ?c = "take 6 (drop (i + 20) nodeList)"
  let ?b = "str_bytes ?g"
  have g: "length ?g = 26" using assms by simp
  have ident: "slice_go nodeList (int i) (int (i + InfohashLength)) = Ok (take 20 ?g)"
    using assms by (simp add: slice_go_def InfohashLength_def)
  have compact: "slice_go nodeList (int (i + InfohashLength)) (int (i + nodeLength ''udp4'')) = Ok ?c"
    using assms by (simp add: slice_go_def InfohashLength_def nodeLength_def IPv4NodeAddrLen_def nat_add_distrib)
  have c: "?c = drop 20 ?g" by (simp add: drop_take add.commute)
  have cb: "str_bytes ?c = drop 20 ?b" by (simp add: c str_bytes_def drop_map)
  have "length ?c = 6" using assms by simp
  then have addr: "DecodeCompactNodeAddr ?c =
      dotted (take 4 (drop 20 ?b)) @ '':'' @ dec_str (unat (port_of (?b ! 24) (?b ! 25)))"
    using g unfolding DecodeCompactNodeAddr_6 [OF \<open>length ?c = 6\<close>] cb by simp
  have "unat (port_of (?b ! 24) (?b ! 25)) < 65536"
    using unsigned_less [of "port_of (?b ! 24) (?b ! 25)"] by simp
  then have "ResolveUDPAddr (resolve env) ''udp4'' (DecodeCompactNodeAddr ?c) =
      Ok \<lparr>addr_IP = v4_in_v6_prefix @ take 4 (drop 20 ?b), addr_Port = unat (port_of (?b ! 24) (?b ! 25)), addr_Zone = []\<rparr>"
    unfolding addr using g by (intro ResolveUDPAddr_dotted) simp_all
  moreover have "InfohashFromString (take 20 ?g) = Ok (take 20 ?b)"
    using g by (simp add: str_bytes_def take_map)
  ultimately show ?thesis
    unfolding group_node_def ident compact by (simp add: group_v4_def Let_def)
qed

lemma add_all_append:
  "add_all add t (xs @ ys) = and_then (add_all add t xs) (\<lambda>t'. add_all add t' ys)"
  by (induction xs arbitrary: t) (auto split: outcome.splits)

text \<open>The 26-byte groups of a list and the nodes they name.\<close>

definition nodes_v4 :: "string \<Rightarrow> remoteNode list" where
  "nodes_v4 nodeList =
     List.map_filter (\<lambda>g. group_v4 (take 26 (drop (26 * g) nodeList))) [0..<length nodeList div 26]"

lemma listed_nodes_v4: "listed_nodes env ''udp4'' nodeList = nodes_v4 nodeList"
proof -
  have "(case group_node env ''udp4'' nodeList (g * 26) of Ok rn \<Rightarrow> rn | _ \<Rightarrow> None) =
      group_v4 (take 26 (drop (26 * g) nodeList))" if "g < length nodeList div 26" for g
  proof -
    have "(g + 1) * 26 \<le> length nodeList div 26 * 26" using that by (intro mult_le_mono1) simp
    then have "(g + 1) * 26 \<le> length nodeList" using div_times_less_eq_dividend by (rule order_trans)
    then have "g * 26 + 26 \<le> length nodeList" by simp
    from group_node_v4 [OF this, of env] show ?thesis by (simp add: mult.commute)
  qed
  then show ?thesis
    unfolding listed_from_def nodes_v4_def
    by (intro map_filter_cong) (simp_all add: nodeLength_def IPv4NodeAddrLen_def)
qed

lemma processFindNodeResults_v4:
  assumes "env_returns env" "node_inv n" "n_family n = ''udp4''"
  shows "processFindNodeResults env n rn nodeList =
    (if length nodeList mod 26 = 0
     then and_then (add_all routingTable_add (n_rTable n) (nodes_v4 nodeList)) (\<lambda>t. Ok (n\<lparr>n_rTable := t\<rparr>))
     else Ok (n\<lparr>n_blacklist := Some (cache_Add env (the (n_blacklist n)) (UDPAddr_String (rn_addr rn)))\<rparr>))"
proof -
  have "nodeLength ''udp4'' = 26" by (simp add: nodeLength_def IPv4NodeAddrLen_def)
  then show ?thesis
    using assms findNode_loop_eq [OF assms(1) _ assms(2), of nodeList "''udp4''" 0]
      blacklist_Add_Ok [OF assms(2), of env "UDPAddr_String (rn_addr rn)"]
    by (auto simp: processFindNodeResults_def listed_nodes_v4)
qed

lemma processPacket_response:
  assumes "node_inv n" "arrives env n p m" "map_of m ''y'' = Some (GStr ''r'')"
    and "\<And>c. handleResponse env (n\<lparr>n_blacklist := Some c\<rparr>) (pkt_raddr p) m = (f c, Ok ())"
  shows "\<exists>c. processPacket env n p = (f c, Ok ())"
proof -
  from assms(2) obtain idx where "DecodeDict env (pkt_data p) 0 = Ok (m, idx)"
    and b: "\<not> fst (cache_Get env (the (n_blacklist n)) (UDPAddr_String (pkt_raddr p)))"
    by (auto simp: arrives_def)
  moreover obtain c where "cache_Get env (the (n_blacklist n)) (UDPAddr_String (pkt_raddr p)) = (False, c)"
    using b by (metis (full_types) prod.collapse)
  ultimately show ?thesis
    using assms(1,3,4) by (intro exI [of _ c]) (simp add: processPacket_not_black dispatch_def)
qed

text \<open>C20: a response with a \<^verbatim>\<open>nodes\<close> string to a node on IPv4: when the length is a multiple of 26 the
  table is offered every group with a port other than 0, in order (twice over, as two handlers
  process the same list), then the sender; otherwise the sender is blacklisted, no listed node is
  used, but the sender itself still goes into the table. Nothing is sent, and no error is returned.\<close>

theorem nodes_response:
  assumes env: "env_returns env" "cache_law env" and inv: "node_inv n" and fam: "n_family n = ''udp4''"
    and arr: "arrives env n p m" "map_of m ''y'' = Some (GStr ''r'')" "map_of m ''r'' = Some (GMap r)"
    and r: "map_of r ''id'' = Some (GStr ident)" "InfohashFromString ident = Ok ih"
      "map_of r ''nodes'' = Some (GStr nodeList)"
  shows "\<exists>n'. processPacket env n p = (n', Ok ()) \<and> n_packetsOut n' = n_packetsOut n \<and>
    (if length nodeList mod 26 = 0
     then add_all routingTable_add (n_rTable n)
            (nodes_v4 nodeList @ nodes_v4 nodeList @ [\<lparr>rn_addr = pkt_raddr p, rn_id = ih\<rparr>]) = Ok (n_rTable n')
     else routingTable_add (n_rTable n) \<lparr>rn_addr = pkt_raddr p, rn_id = ih\<rparr> = Ok (n_rTable n') \<and>
          fst (cache_Get env (the (n_blacklist n')) (UDPAddr_String (pkt_raddr p))))"
proof -
  let ?rn = "\<lparr>rn_addr = pkt_raddr p, rn_id = ih\<rparr>" and ?L = "nodes_v4 nodeList"
  have resp: "handleResponse env n1 (pkt_raddr p) m =
      with_val n1 (processFindNodeResults env n1 ?rn nodeList) (\<lambda>n2.
      with_val n2 (processFindNodeResults env n2 ?rn nodeList) (\<lambda>n3. add_and_return ?rn n3 (Ok ())))" for n1
    using arr r by (simp add: handleResponse_def with_val_def GetMap_def GetString_def onFindNodeResponse_eq Let_def)
  have sound: "rt_sound (n_rTable n)" using inv by (simp add: node_inv_def)
  have inv': "node_inv (n\<lparr>n_blacklist := Some c, n_rTable := t\<rparr>)"
    if "rt_sound t" "rt_fixed t = rt_fixed (n_rTable n)" for c t
    using inv that by (simp add: node_inv_def)
  show ?thesis
  proof (cases "length nodeList mod 26 = 0")
    case True
    from rt_weak.add_all_total [OF sound, of ?L] obtain t1 where
      t1: "add_all routingTable_add (n_rTable n) ?L = Ok t1" "rt_sound t1" "rt_fixed t1 = rt_fixed (n_rTable n)" by blast
    from rt_weak.add_all_total [OF t1(2), of ?L] t1(3) obtain t2 where
      t2: "add_all routingTable_add t1 ?L = Ok t2" "rt_sound t2" "rt_fixed t2 = rt_fixed (n_rTable n)" by auto
    from rt_weak.add_total [OF t2(2), of ?rn] obtain t3 where t3: "routingTable_add t2 ?rn = Ok t3" by blast
    have "handleResponse env (n\<lparr>n_blacklist := Some c\<rparr>) (pkt_raddr p) m =
        (n\<lparr>n_blacklist := Some c, n_rTable := t3\<rparr>, Ok ())" for c
      using fam t1 t2 t3 inv' [OF t1(2,3), of c] inv' [OF sound, of c] True
      unfolding resp
      by (simp add: processFindNodeResults_v4 [OF env(1)] with_val_def add_and_return_def table_add_def)
    from processPacket_response [OF inv arr(1,2) this] t1 t2 t3 True show ?thesis
      by (auto simp: add_all_append)
  next
    case False
    from rt_weak.add_total [OF sound, of ?rn] obtain t where t: "routingTable_add (n_rTable n) ?rn = Ok t" by blast
    let ?add = "\<lambda>c. cache_Add env c (UDPAddr_String (pkt_raddr p))"
    have "handleResponse env (n\<lparr>n_blacklist := Some c\<rparr>) (pkt_raddr p) m =
        (n\<lparr>n_blacklist := Some (?add (?add c)), n_rTable := t\<rparr>, Ok ())" for c
      using fam t inv' [OF sound, of c] inv' [OF sound, of "?add c"] False
      unfolding resp
      by (simp add: processFindNodeResults_v4 [OF env(1)] with_val_def add_and_return_def table_add_def)
    from processPacket_response [OF inv arr(1,2) this] t False env(2) show ?thesis
      by (auto simp: cache_law_def)
  qed
qed

theorem nodes_response_witness:
  "\<exists>n'. processPacket (sample_env [(''y'', GStr ''r''),
        (''r'', GMap [(''id'', GStr (bytes_str (replicate 20 7))), (''nodes'', GStr ''short'')])])
      (sample_dht_node ''udp4'') \<lparr>pkt_data = [], pkt_raddr = rn_addr (sample_node 6881 7)\<rparr> = (n', Ok ()) \<and>
    routingTable_add (empty_table (replicate 20 0) 2000) (sample_node 6881 7) = Ok (n_rTable n')"
proof -
  let ?r = "[(''id'', GStr (bytes_str (replicate 20 7))), (''nodes'', GStr ''short'')]"
  let ?m = "[(''y'', GStr ''r''), (''r'', GMap ?r)]"
  have "\<lparr>rn_addr = rn_addr (sample_node 6881 7), rn_id = replicate 20 7\<rparr> = sample_node 6881 7"
    by (simp add: sample_node_def)
  then show ?thesis
    using nodes_response [of "sample_env ?m" "sample_dht_node ''udp4''"
        "\<lparr>pkt_data = [], pkt_raddr = rn_addr (sample_node 6881 7)\<rparr>" ?m ?r "bytes_str (replicate 20 7)"
        "replicate 20 7" "''short''"]
    by auto
qed

section \<open>The running node\<close>

definition run_inv :: "'c system \<Rightarrow> bool" where
  "run_inv s \<longleftrightarrow> node_inv (sys_node s) \<and> slab_wf 8192 (sys_slab s) \<and>
     length (slab_queue (sys_slab s)) = 10 \<and> slab_cap (sys_slab s) = 10 \<and>
     (\<forall>rns. sys_task s = Querying rns \<longrightarrow> (\<forall>rn \<in> set rns. Infohash_Valid (rn_id rn)))"

lemma Run_init_inv:
  assumes "node_inv n"
  shows "\<exists>s0. Run_init n = Ok s0 \<and> run_inv s0"
  using assms by (simp add: Run_init_def newSlab_def newSlab_loop_Ok run_inv_def slab_wf_def node_inv_def)

text \<open>A round of the reader on a full slab comes down to \<^verbatim>\<open>processPacket\<close> on the first 8192 bytes.\<close>

lemma read_packet_eq:
  assumes "slab_wf 8192 sl" "length (slab_queue sl) = 10" "slab_cap sl = 10"
    and pp: "processPacket env n \<lparr>pkt_data = take 8192 dgram, pkt_raddr = addr\<rparr> = (n', r)"
  shows "\<exists>sl'. slab_wf 8192 sl' \<and> length (slab_queue sl') = 10 \<and> slab_cap sl' = 10 \<and>
    read_packet env n sl dgram addr =
      (case r of Panic p \<Rightarrow> Panic p | Hang \<Rightarrow> Hang | _ \<Rightarrow> Ok (n', sl'))"
proof -
  define c where "c = min (length dgram) 8192"
  define f where "f b = b\<lparr>blk_array := take c dgram @ drop c (blk_array b)\<rparr>" for b :: block
  from slab.round [OF assms(1), of f] assms(2) obtain b sl1 sl2 where
    b: "slab_alloc sl = Ok (b, sl1)" "length (blk_array b) = 8192" "blk_len b = 8192"
      "slab_free sl1 (f b) = Ok sl2" "slab_wf 8192 sl2" "length (slab_queue sl2) = length (slab_queue sl)"
      "slab_cap sl2 - length (slab_queue sl2) = slab_cap sl - length (slab_queue sl)"
    by (auto simp: f_def c_def)
  have "slab_cap sl2 = 10" using b(5-7) assms(2,3) by (simp add: slab_wf_def)
  moreover have "take c (blk_array (f b)) = take 8192 dgram"
    by (simp add: f_def c_def min_def)
  ultimately show ?thesis
    using b assms(2) pp
    by (intro exI [of _ sl2]) (simp add: read_packet_def Let_def f_def c_def split: outcome.splits)
qed

lemma read_packet_steps:
  assumes env: "env_returns env" and inv: "run_inv s"
  shows "read_packet env (sys_node s) (sys_slab s) dgram addr = Ok (n', sl') \<Longrightarrow>
      run_inv (s\<lparr>sys_node := n', sys_slab := sl'\<rparr>)"
    and "read_packet env (sys_node s) (sys_slab s) dgram addr = Panic q \<Longrightarrow>
      snd (processPacket env (sys_node s) \<lparr>pkt_data = take 8192 dgram, pkt_raddr = addr\<rparr>) = Panic q"
proof -
  obtain n1 r where pp: "processPacket env (sys_node s) \<lparr>pkt_data = take 8192 dgram, pkt_raddr = addr\<rparr> = (n1, r)"
    by fastforce
  have n1: "node_inv n1"
    using processPacket_keeps [OF env, of "sys_node s" "\<lparr>pkt_data = take 8192 dgram, pkt_raddr = addr\<rparr>"] inv pp
    by (simp add: run_inv_def)
  from read_packet_eq [OF _ _ _ pp, of "sys_slab s"] inv obtain sl2 where
    sl2: "slab_wf 8192 sl2" "length (slab_queue sl2) = 10" "slab_cap sl2 = 10"
      "read_packet env (sys_node s) (sys_slab s) dgram addr =
        (case r of Panic p \<Rightarrow> Panic p | Hang \<Rightarrow> Hang | _ \<Rightarrow> Ok (n1, sl2))"
    by (auto simp: run_inv_def)
  show "run_inv (s\<lparr>sys_node := n', sys_slab := sl'\<rparr>)"
    if "read_packet env (sys_node s) (sys_slab s) dgram addr = Ok (n', sl')"
    using that sl2 n1 inv by (auto simp: run_inv_def split: outcome.splits)
  show "snd (processPacket env (sys_node s) \<lparr>pkt_data = take 8192 dgram, pkt_raddr = addr\<rparr>) = Panic q"
    if "read_packet env (sys_node s) (sys_slab s) dgram addr = Panic q"
    using that sl2(4) by (simp add: pp split: outcome.splits)
qed

lemma write_packet_inv:
  assumes "node_inv n"
  shows "write_packet env limited failed n = Ok n' \<Longrightarrow> node_inv n'"
    and "write_packet env limited failed n \<noteq> Panic q"
proof -
  have inv: "node_inv (n\<lparr>n_packetsOut := rest\<rparr>)" if "n_packetsOut n = p # rest" for p rest
    using assms that by (simp add: node_inv_def)
  have bad: "node_inv (m\<lparr>n_bad := b\<rparr>)" if "node_inv m" for b and m :: "'a node" using that by (simp add: node_inv_def)
  show "node_inv n'" if "write_packet env limited failed n = Ok n'"
    using that inv bad blacklist_Add_Ok
    by (fastforce simp: write_packet_def Let_def and_then_Ok_iff split: list.splits if_splits)
  show "write_packet env limited failed n \<noteq> Panic q"
  proof (cases "n_packetsOut n")
    case (Cons p rest)
    with blacklist_Add_Ok [OF inv [OF Cons], of env "UDPAddr_String (pkt_raddr p)"] show ?thesis
      by (auto simp: write_packet_def Let_def)
  qed (simp add: write_packet_def)
qed

lemma sendQuery_no_Panic:
  assumes "env_returns env"
  shows "snd (sendQuery env r n rn q a) \<noteq> Panic p"
proof -
  have "returns (Encode env d)" for d using assms by (simp add: env_returns_def)
  then show ?thesis
    using returns_not_Panic by (auto simp: sendQuery_def Let_def snd_with_val_Panic send_packet_def)
qed

lemma findNode_no_Panic: "env_returns env \<Longrightarrow> snd (findNode env d n rn ident) \<noteq> Panic p"
  by (simp add: findNode_def snd_ignore_err_Panic sendQuery_no_Panic)

lemma bootstrap_one_steps:
  assumes "env_returns env" "node_inv n"
  shows "node_inv (fst (bootstrap_one env d n s)) \<and> snd (bootstrap_one env d n s) \<noteq> Panic p"
  using assms returns_ResolveUDPAddr [OF assms(1), of "n_family n" s]
  by (auto simp: bootstrap_one_def findNode_keeps findNode_no_Panic returns_cases)

text \<open>Asking a neighbour overwrites its identifier in the table with the neighbour of ours.\<close>

lemma query_neighbour_eq:
  assumes "node_inv n" "Infohash_Valid (rn_id rn)"
  shows "query_neighbour env d spare n rn =
    findNode env d (n\<lparr>n_rTable := rt_touch (n_rTable n) rn (take 10 (rn_id rn) @ drop 10 (n_id n))\<rparr>)
      (rn\<lparr>rn_id := take 10 (rn_id rn) @ drop 10 (n_id n)\<rparr>) (take 10 (rn_id rn) @ drop 10 (n_id n))"
  using assms GenerateNeighbour_20 [of "n_id n" "rn_id rn" spare]
  by (simp add: query_neighbour_def node_inv_def Infohash_Valid_def InfohashLength_def with_val_def)

lemma query_neighbour_steps:
  assumes "env_returns env" "node_inv n" "Infohash_Valid (rn_id rn)"
  shows "node_inv (fst (query_neighbour env d spare n rn)) \<and> snd (query_neighbour env d spare n rn) \<noteq> Panic p"
proof -
  let ?s = "take 10 (rn_id rn) @ drop 10 (n_id n)"
  have "Infohash_Valid ?s" using assms(2,3) by (simp add: node_inv_def Infohash_Valid_def InfohashLength_def)
  then have "rt_sound (rt_touch (n_rTable n) rn ?s)" using assms(2) by (simp add: node_inv_def rt_touch_sound)
  then have "node_inv (n\<lparr>n_rTable := rt_touch (n_rTable n) rn ?s\<rparr>)"
    using assms(2) by (simp add: node_inv_def) (simp add: rt_touch_def)
  then show ?thesis
    using assms by (simp add: query_neighbour_eq findNode_keeps findNode_no_Panic)
qed

lemma table_ids_valid: "rt_sound k \<Longrightarrow> rn \<in> set (rt_nodes k) \<Longrightarrow> Infohash_Valid (rn_id rn)"
  by (auto simp: rt_sound_def rt_wf_on_def rt_inv_on_def rt_nodes_def)

lemma flush_node_inv: "node_inv n \<Longrightarrow> node_inv (n\<lparr>n_rTable := routingTable_flush (n_rTable n)\<rparr>)"
  using rt_weak.clear_empty [of "n_rTable n"] by (simp add: node_inv_def)

lemma makeNeighbours_steps:
  assumes env: "env_returns env" and inv: "run_inv s"
    and step: "makeNeighbours_step env d spare (sys_task s) (sys_node s) = (t', n', r)"
  shows "run_inv (s\<lparr>sys_node := n', sys_task := t'\<rparr>) \<and> r \<noteq> Panic p"
proof -
  have n: "node_inv (sys_node s)" and rest: "slab_wf 8192 (sys_slab s)" "length (slab_queue (sys_slab s)) = 10"
      "slab_cap (sys_slab s) = 10"
    and rns: "\<And>rns rn. sys_task s = Querying rns \<Longrightarrow> rn \<in> set rns \<Longrightarrow> Infohash_Valid (rn_id rn)"
    using inv by (auto simp: run_inv_def)
  have table: "Infohash_Valid (rn_id rn)" if "rn \<in> set (routingTable_get (n_rTable (sys_node s)) 0)" for rn
    using that n by (auto simp: routingTable_get_eq node_inv_def intro: table_ids_valid)
  have "node_inv n' \<and> r \<noteq> Panic p \<and> (\<forall>rns. t' = Querying rns \<longrightarrow> (\<forall>rn \<in> set rns. Infohash_Valid (rn_id rn)))"
  proof (cases "(env, d, spare, sys_task s, sys_node s)" rule: makeNeighbours_step.cases)
    case (2 _ _ _ s1 ss)
    with step bootstrap_one_steps [OF env n, of d s1 p] show ?thesis by auto
  next
    case (5 _ _ _ rn rns')
    then have "Infohash_Valid (rn_id rn)" using rns by simp
    from query_neighbour_steps [OF env n this, of d spare p] 5 step rns show ?thesis by auto
  qed (use step n table flush_node_inv [OF n] in \<open>auto split: if_splits\<close>)
  with rest show ?thesis by (simp add: run_inv_def)
qed



section \<open>Progress\<close>

lemma sendQuery_room:
  assumes "env_returns env" "length (n_packetsOut n) < packetsOut_cap"
  shows "snd (sendQuery env r n rn q a) \<noteq> Hang"
proof -
  have "returns (Encode env d)" for d using assms(1) by (simp add: env_returns_def)
  then show ?thesis
    using assms(2) by (auto simp: sendQuery_def Let_def with_val_def send_packet_def returns_cases split: outcome.splits)
      (metis outcome.distinct(5,9))
qed

lemma findNode_room:
  assumes "env_returns env" "length (n_packetsOut n) < packetsOut_cap"
  shows "snd (findNode env d n rn ident) = Ok ()"
proof -
  let ?r = "sendQuery env (d_trans d) n rn ''find_node''
        [(''id'', GStr (bytes_str ident)), (''target'', GStr (bytes_str (GenInfohash (d_now d) (d_random d))))]"
  have "snd ?r \<noteq> Hang" "\<forall>p. snd ?r \<noteq> Panic p"
    using assms by (simp_all add: sendQuery_room sendQuery_no_Panic)
  then show ?thesis by (cases ?r rule: ignore_err.cases) (simp_all add: findNode_def)
qed

lemma makeNeighbours_step_room:
  assumes env: "env_returns env" and inv: "run_inv s"
    and room: "length (n_packetsOut (sys_node s)) < packetsOut_cap"
  shows "\<exists>t' n'. makeNeighbours_step env d spare (sys_task s) (sys_node s) = (t', n', Ok ())"
proof (cases "(env, d, spare, sys_task s, sys_node s)" rule: makeNeighbours_step.cases)
  case (2 _ _ _ s1 ss)
  then show ?thesis
    using findNode_room [OF env room] returns_ResolveUDPAddr [OF env, of "n_family (sys_node s)" s1]
    by (auto simp: bootstrap_one_def returns_cases prod_eq_iff)
next
  case (5 _ _ _ rn rns')
  have "node_inv (sys_node s)" "Infohash_Valid (rn_id rn)" using inv 5 by (auto simp: run_inv_def)
  moreover have "snd (findNode env d ((sys_node s)\<lparr>n_rTable := t\<rparr>) rn1 ident) = Ok ()" for t rn1 ident
    using room by (intro findNode_room [OF env]) simp
  ultimately show ?thesis using 5 by (auto simp: query_neighbour_eq prod_eq_iff)
qed auto

text \<open>When the queue is full, one round of the writer makes room.\<close>

lemma writer_makes_room:
  assumes "run_inv s"
  shows "\<exists>s'. (node_step env)\<^sup>*\<^sup>* (Running s) (Running s') \<and> run_inv s' \<and> sys_task s' = sys_task s \<and>
    length (n_packetsOut (sys_node s')) < packetsOut_cap"
proof (cases "length (n_packetsOut (sys_node s)) < packetsOut_cap")
  case True
  with assms show ?thesis by blast
next
  case False
  then obtain p rest where q: "n_packetsOut (sys_node s) = p # rest"
    by (cases "n_packetsOut (sys_node s)") (auto simp: packetsOut_cap_def)
  let ?s = "s\<lparr>sys_node := (sys_node s)\<lparr>n_packetsOut := rest\<rparr>\<rparr>"
  have w: "write_packet env False False (sys_node s) = Ok ((sys_node s)\<lparr>n_packetsOut := rest\<rparr>)"
    using q by (simp add: write_packet_def Let_def)
  from step_write [OF w] have "node_step env (Running s) (Running ?s)" .
  moreover have "run_inv ?s" using assms write_packet_inv(1) [OF _ w] by (simp add: run_inv_def)
  moreover have "length rest < packetsOut_cap"
    using assms q by (simp add: run_inv_def node_inv_def)
  ultimately show ?thesis by (intro exI [of _ ?s]) auto
qed

fun task_left :: "task \<Rightarrow> nat" where
  "task_left (Bootstrapping ss) = Suc (length ss)"
| "task_left Waiting = 0"
| "task_left (Querying rns) = Suc (length rns)"

lemma makeNeighbours_step_left:
  "makeNeighbours_step env d spare t n = (t', n', r) \<Longrightarrow> t \<noteq> Waiting \<Longrightarrow> task_left t' < task_left t"
  by (cases "(env, d, spare, t, n)" rule: makeNeighbours_step.cases) auto

text \<open>C23: the neighbour loop is never stuck: from every sound state of the running node, with the
  queue full or not, there is a continuation in which the writer takes packets and the loop gets
  through all its routers or nodes, back to waiting for the ticker.\<close>

theorem neighbour_loop_completes:
  assumes "env_returns env" "run_inv s"
  shows "\<exists>s'. (node_step env)\<^sup>*\<^sup>* (Running s) (Running s') \<and> run_inv s' \<and> sys_task s' = Waiting"
  using assms(2)
proof (induction "task_left (sys_task s)" arbitrary: s rule: less_induct)
  case less
  show ?case
  proof (cases "sys_task s = Waiting")
    case True
    with less.prems show ?thesis by blast
  next
    case False
    from writer_makes_room [OF less.prems, of env] obtain s1 where
      s1: "(node_step env)\<^sup>*\<^sup>* (Running s) (Running s1)" "run_inv s1" "sys_task s1 = sys_task s"
        "length (n_packetsOut (sys_node s1)) < packetsOut_cap" by blast
    from makeNeighbours_step_room [OF assms(1) s1(2,4)] obtain t' n' where
      step: "makeNeighbours_step env undefined [] (sys_task s1) (sys_node s1) = (t', n', Ok ())" by blast
    let ?s = "s1\<lparr>sys_node := n', sys_task := t'\<rparr>"
    have "run_inv ?s" using makeNeighbours_steps [OF assms(1) s1(2) step] by blast
    moreover have "task_left (sys_task ?s) < task_left (sys_task s)"
      using makeNeighbours_step_left [OF step] False s1(3) by simp
    ultimately obtain s' where "(node_step env)\<^sup>*\<^sup>* (Running ?s) (Running s')" "run_inv s'" "sys_task s' = Waiting"
      using less.hyps by blast
    moreover have "node_step env (Running s1) (Running ?s)" using step by (rule step_neighbours)
    ultimately show ?thesis using s1(1) by (meson rtranclp_trans converse_rtranclp_into_rtranclp)
  qed
qed

theorem neighbour_loop_completes_witness:
  "\<exists>s0 s'. Run_init (sample_dht_node ''udp4'') = Ok s0 \<and>
     (node_step (sample_env []))\<^sup>*\<^sup>* (Running s0) (Running s') \<and> sys_task s' = Waiting"
proof -
  from Run_init_inv [OF sample_node_inv] obtain s0 where
    s0: "Run_init (sample_dht_node ''udp4'') = Ok s0" "run_inv s0" by blast
  from neighbour_loop_completes [OF sample_env_ok(1) s0(2)] s0(1) show ?thesis by blast
qed

end
