(* ===== verification/Crawler.thy ===== *)
theory Crawler
  imports Store_Properties Tagging Bt_Worker Node_Properties
begin

text \<open>
  \<^verbatim>\<open>cmd/dhtsearch/main.go\<close>: the callbacks that tie the DHT nodes and the workers to the store, and the loop
  that hands pending peers to workers. The state is what they share: the store and the two
  blacklists. The records of the components' environments are fields of one environment; \<open>ce_sql\<close> and
  \<open>ce_dial\<close> change from step to step, since the database may fail and peers answer as they like. A
  failed call of the store is only logged.
\<close>

section \<open>State\<close>

record 'c crawler =
  cr_db :: database
  cr_ihBlacklist :: 'c
  cr_peerBlacklist :: 'c

record 'c crawl_env =
  ce_env :: "'c env"
  ce_sql :: sql_env
  ce_dial :: "string \<Rightarrow> peer_conn outcome"
  ce_skipTags :: string
  ce_tagREs :: tag_map
  ce_ord :: "string list \<Rightarrow> string list"

section \<open>The callbacks\<close>

text \<open>\<^verbatim>\<open>strings.Split\<close> with a separator of one character\<close>

fun strings_Split :: "char \<Rightarrow> string \<Rightarrow> string list" where
  "strings_Split c [] = [[]]"
| "strings_Split c (x # xs) =
     (if x = c then [] # strings_Split c xs
      else (case strings_Split c xs of [] \<Rightarrow> [[x]] | w # ws \<Rightarrow> (x # w) # ws))"

definition skipped :: "string \<Rightarrow> string list \<Rightarrow> bool" where
  "skipped skipTags tags = list_ex (\<lambda>skipTag. list_ex (\<lambda>tg. skipTag = tg) tags) (strings_Split (CHR '','') skipTags)"

definition onAnnouncePeer :: "'c crawl_env \<Rightarrow> Peer \<Rightarrow> 'c crawler \<Rightarrow> 'c crawler" where
  "onAnnouncePeer env p st =
     (let (black, c) = cache_Get (ce_env env) (cr_ihBlacklist st) (Infohash_String (p_Infohash p));
          st = st\<lparr>cr_ihBlacklist := c\<rparr>
      in if black then st else st\<lparr>cr_db := fst (SavePeer (ce_sql env) p (cr_db st))\<rparr>)"

text \<open>\<^verbatim>\<open>OnBadPeer\<close> of the nodes, and of the workers\<close>

definition node_onBadPeer :: "'c crawl_env \<Rightarrow> Peer \<Rightarrow> 'c crawler \<Rightarrow> 'c crawler" where
  "node_onBadPeer env p st = st\<lparr>cr_db := fst (RemovePeer (ce_sql env) p (cr_db st))\<rparr>"

definition onBadPeer :: "'c crawl_env \<Rightarrow> Peer \<Rightarrow> 'c crawler \<Rightarrow> 'c crawler" where
  "onBadPeer env p st =
     st\<lparr>cr_db := fst (RemovePeer (ce_sql env) p (cr_db st)),
        cr_peerBlacklist := cache_Add (ce_env env) (cr_peerBlacklist st) (UDPAddr_String (p_Addr p))\<rparr>"

text \<open>Forgetting a torrent: its infohash is blacklisted and it is removed.\<close>

definition forget_torrent :: "'c crawl_env \<Rightarrow> Torrent \<Rightarrow> 'c crawler \<Rightarrow> 'c crawler" where
  "forget_torrent env t st =
     st\<lparr>cr_ihBlacklist := cache_Add (ce_env env) (cr_ihBlacklist st) (Infohash_String (t_Infohash t)),
        cr_db := fst (RemoveTorrent (ce_sql env) t (cr_db st))\<rparr>"

definition onNewTorrent :: "'c crawl_env \<Rightarrow> Torrent \<Rightarrow> 'c crawler \<Rightarrow> 'c crawler outcome" where
  "onNewTorrent env t st =
     and_then (tagTorrent (ce_ord env) t (ce_tagREs env)) (\<lambda>tags.
       if skipped (ce_skipTags env) tags then Ok (forget_torrent env t st)
       else
         (let t = t\<lparr>t_Tags := tags\<rparr>; (db, r) = SaveTorrent (ce_sql env) t (cr_db st); st = st\<lparr>cr_db := db\<rparr>
          in Ok (if r = Ok () then st else forget_torrent env t st)))"

section \<open>Workers and pending peers\<close>

text \<open>The workers of \<^verbatim>\<open>startBTWorkers\<close>\<close>

definition daemon_options :: "int \<Rightarrow> bool \<Rightarrow> worker_option list" where
  "daemon_options port ipv6 = [WSetLogger, WSetPort port, WSetIPv6 ipv6, WSetOnNewTorrent, WSetOnBadPeer]"

text \<open>A worker takes one peer, and its callbacks run.\<close>

fun new_torrents :: "'c crawl_env \<Rightarrow> Torrent list \<Rightarrow> 'c crawler \<Rightarrow> 'c crawler outcome" where
  "new_torrents env [] st = Ok st"
| "new_torrents env (t # ts) st = and_then (onNewTorrent env t st) (new_torrents env ts)"

definition work_on :: "'c crawl_env \<Rightarrow> infohash \<Rightarrow> worker \<Rightarrow> Peer \<Rightarrow> 'c crawler \<Rightarrow> 'c crawler outcome" where
  "work_on env self w p st =
     and_then (worker_round (DecodeDict (ce_env env)) (Encode (ce_env env)) (ce_dial env) self
         (w\<lparr>w_torrents := [], w_bad := []\<rparr>) p) (\<lambda>w'.
       and_then (new_torrents env (w_torrents w') st) (\<lambda>st. Ok (fold (onBadPeer env) (w_bad w') st)))"

text \<open>
  One turn of \<^verbatim>\<open>processPendingPeers\<close>, with the workers finishing each peer before the next is handed out
  (\<open>Dispatch\<close> has the workers side by side);
  \<open>self\<close> gives the identifiers drawn for the handshakes. The channel \<^verbatim>\<open>pool\<close> is nil until
  \<^verbatim>\<open>startBTWorkers\<close> has made it, and receiving from a nil channel never ends.
\<close>

fun hand_out ::
    "'c crawl_env \<Rightarrow> worker option \<Rightarrow> (infohash \<times> Peer) list \<Rightarrow> 'c crawler \<Rightarrow> 'c crawler outcome" where
  "hand_out env pool [] st = Ok st"
| "hand_out env pool ((self, p) # work) st =
     (case pool of
        None \<Rightarrow> Hang
      | Some w \<Rightarrow> and_then (work_on env self w p st) (hand_out env pool work))"

definition processPendingPeers ::
    "'c crawl_env \<Rightarrow> worker option \<Rightarrow> (Peer \<Rightarrow> infohash) \<Rightarrow> 'c crawler \<Rightarrow> 'c crawler outcome" where
  "processPendingPeers env pool self st =
     (case PendingInfohashes (ce_sql env) 10 (cr_db st) of
        Ok peers \<Rightarrow> hand_out env pool (map (\<lambda>p. (self p, p)) peers) st
      | Err e \<Rightarrow> Ok st
      | Panic p \<Rightarrow> Panic p
      | Hang \<Rightarrow> Hang)"

text \<open>
  A step of the daemon: a callback of a node, or a worker done with a peer, in any order and whatever
  the database and the network do.
\<close>

inductive crawl_step :: "'c crawl_env \<Rightarrow> worker \<Rightarrow> 'c crawler \<Rightarrow> 'c crawler \<Rightarrow> bool" for env w where
  announce: "crawl_step env w st (onAnnouncePeer (env\<lparr>ce_sql := s\<rparr>) p st)"
| node_bad: "crawl_step env w st (node_onBadPeer (env\<lparr>ce_sql := s\<rparr>) p st)"
| work: "work_on (env\<lparr>ce_sql := s, ce_dial := d\<rparr>) self w p st = Ok st' \<Longrightarrow> crawl_step env w st st'"

section \<open>What the index holds\<close>

text \<open>
  An entry with a name comes from metadata that hashes to its infohash, and its tags are among those
  the torrent was given; none of these was to be skipped.
\<close>

definition entry_sound :: "'c crawl_env \<Rightarrow> infohash \<Rightarrow> index_entry \<Rightarrow> bool" where
  "entry_sound env ih e \<longleftrightarrow>
     (case e of (n, z, fs, tgs) \<Rightarrow>
        n = None \<or>
        (\<exists>md t tags. ih = sha1_sum md \<and> TorrentFromMetadata (DecodeDict (ce_env env)) ih md = Ok t \<and>
           n = Some (t_Name t) \<and> z = t_Size t \<and> fs = map (\<lambda>f. (f_Path f, f_Size f)) (t_Files t) \<and>
           tagTorrent (ce_ord env) t (ce_tagREs env) = Ok tags \<and> tgs \<subseteq> set tags \<and>
           \<not> skipped (ce_skipTags env) tags))"

lemma entry_sound_step [simp]:
  "entry_sound (env\<lparr>ce_sql := s\<rparr>) = entry_sound env" "entry_sound (env\<lparr>ce_dial := d\<rparr>) = entry_sound env"
  by (simp_all add: entry_sound_def fun_eq_iff)

lemma entry_sound_mono: "entry_sound env ih (n, z, fs, tgs) \<Longrightarrow> tgs' \<subseteq> tgs \<Longrightarrow> entry_sound env ih (n, z, fs, tgs')"
  unfolding entry_sound_def by fastforce

abbreviation index_ok :: "'c crawl_env \<Rightarrow> 'c crawler \<Rightarrow> bool" where
  "index_ok env st \<equiv> sq.entries_ok (entry_sound env) (cr_db st)"

lemma forget_torrent_ok: "index_ok env st \<Longrightarrow> index_ok env (forget_torrent env t st)"
  by (simp add: forget_torrent_def sq.remove_torrent_entries)

lemma onAnnouncePeer_ok: "index_ok env st \<Longrightarrow> index_ok env (onAnnouncePeer env p st)"
  by (auto simp: onAnnouncePeer_def entry_sound_def Let_def intro: sq.save_peer_entries split: prod.splits)

lemma onBadPeer_ok: "index_ok env st \<Longrightarrow> index_ok env (onBadPeer env p st)"
  "index_ok env st \<Longrightarrow> index_ok env (node_onBadPeer env p st)"
  by (simp_all add: onBadPeer_def node_onBadPeer_def sq.remove_peer_entries)

lemma onNewTorrent_ok:
  assumes ok: "index_ok env st" and run: "onNewTorrent env t st = Ok st'"
    and md: "TorrentFromMetadata (DecodeDict (ce_env env)) (t_Infohash t) md = Ok t"
  shows "index_ok env st'"
proof -
  from run obtain tags where tags: "tagTorrent (ce_ord env) t (ce_tagREs env) = Ok tags"
    by (auto simp: onNewTorrent_def and_then_Ok_iff)
  show ?thesis
  proof (cases "skipped (ce_skipTags env) tags")
    case True
    with run tags ok show ?thesis by (auto simp: onNewTorrent_def forget_torrent_ok)
  next
    case False
    let ?s = "SaveTorrent (ce_sql env) (t\<lparr>t_Tags := tags\<rparr>) (cr_db st)"
    have "entry_sound env (t_Infohash t)
        (Some (t_Name t), t_Size t, map (\<lambda>f. (f_Path f, f_Size f)) (t_Files t), set tags)"
      using md tags False TorrentFromMetadata_Ok_hash [OF md] unfolding entry_sound_def by blast
    then have "sq.entries_ok (entry_sound env) (fst ?s)"
      by (intro sq.save_torrent_entries [OF ok]) (auto intro: entry_sound_mono)
    then have "index_ok env (st\<lparr>cr_db := fst ?s\<rparr>)" by simp
    moreover have "st' = (if snd ?s = Ok () then st\<lparr>cr_db := fst ?s\<rparr>
        else forget_torrent env (t\<lparr>t_Tags := tags\<rparr>) (st\<lparr>cr_db := fst ?s\<rparr>))"
      using run tags False by (auto simp: onNewTorrent_def Let_def split: prod.splits if_splits)
    ultimately show ?thesis by (simp add: forget_torrent_ok)
  qed
qed

lemma fold_onBadPeer_ok: "index_ok env st \<Longrightarrow> index_ok env (fold (onBadPeer env) ps st)"
  by (induction ps arbitrary: st) (simp_all add: onBadPeer_ok)

lemma work_on_ok:
  assumes ok: "index_ok env st" and run: "work_on env self w p st = Ok st'"
  shows "index_ok env st'"
proof -
  let ?dec = "DecodeDict (ce_env env)"
  let ?w = "w\<lparr>w_torrents := [], w_bad := []\<rparr>"
  from run obtain w' st1 where w': "worker_round ?dec (Encode (ce_env env)) (ce_dial env) self ?w p = Ok w'"
    and st1: "new_torrents env (w_torrents w') st = Ok st1" and st': "st' = fold (onBadPeer env) (w_bad w') st1"
    by (auto simp: work_on_def and_then_Ok_iff)
  from w' have "index_ok env st1"
  proof (cases rule: worker_round_cases)
    case (3 t md)
    with TorrentFromMetadata_Ok_hash [OF 3(2)] have "TorrentFromMetadata ?dec (t_Infohash t) md = Ok t" by simp
    with 3 st1 ok show ?thesis by (auto simp: and_then_Ok_iff intro: onNewTorrent_ok)
  qed (use st1 ok in auto)
  then show ?thesis by (simp add: st' fold_onBadPeer_ok)
qed

lemma crawl_step_ok: "crawl_step env w st st' \<Longrightarrow> index_ok env st \<Longrightarrow> index_ok env st'"
proof (induction rule: crawl_step.induct)
  case (announce st s p)
  then show ?case using onAnnouncePeer_ok [of "env\<lparr>ce_sql := s\<rparr>" st p] by simp
next
  case (node_bad st s p)
  then show ?case using onBadPeer_ok(2) [of "env\<lparr>ce_sql := s\<rparr>" st p] by simp
next
  case (work d s self p st st')
  then show ?case using work_on_ok [of "env\<lparr>ce_sql := s, ce_dial := d\<rparr>" st self w p st'] by simp
qed

lemma hand_out_steps: "hand_out env (Some w) work st = Ok st' \<Longrightarrow> rtranclp (crawl_step env w) st st'"
proof (induction env "Some w" work st rule: hand_out.induct)
  case (2 env self p work st)
  from "2.prems" obtain st1 where "work_on env self w p st = Ok st1" "hand_out env (Some w) work st1 = Ok st'"
    by (auto simp: and_then_Ok_iff)
  with "2.hyps" crawl_step.work [where env = env and s = "ce_sql env" and d = "ce_dial env" and self = self and w = w
      and p = p and st = st and st' = st1] show ?case
    by (auto intro: converse_rtranclp_into_rtranclp)
qed simp

lemma skipped_iff: "skipped skipTags tags \<longleftrightarrow> set (strings_Split (CHR '','') skipTags) \<inter> set tags \<noteq> {}"
  by (auto simp: skipped_def list_ex_iff)

lemma stored_index_empty: "stored_index empty_database ih = None"
  by (simp add: stored_index_def empty_database_def)

section \<open>Properties\<close>

text \<open>End to end, whatever is announced, whatever the peers and the database do, and in whatever order:
  a torrent in the index of a daemon that started with an empty store has been read from metadata
  that hashes to its infohash, with the name, size and files of that metadata, its tags are tags
  its torrent was given, and none of them is among the tags to skip.\<close>

theorem index_sound:
  assumes "rtranclp (crawl_step env w) st st'" "cr_db st = empty_database"
    and "stored_index (cr_db st') ih = Some (Some name, sz, fs, tgs)"
  shows "(\<exists>md t tags. ih = sha1_sum md \<and> TorrentFromMetadata (DecodeDict (ce_env env)) ih md = Ok t \<and>
      name = t_Name t \<and> sz = t_Size t \<and> fs = map (\<lambda>f. (f_Path f, f_Size f)) (t_Files t) \<and>
      tagTorrent (ce_ord env) t (ce_tagREs env) = Ok tags \<and> tgs \<subseteq> set tags) \<and>
    set (strings_Split (CHR '','') (ce_skipTags env)) \<inter> tgs = {}"
proof -
  have "index_ok env st"
    using assms(2) empty_database_wf by (simp add: sq.entries_ok_def stored_index_empty)
  with assms(1) have "index_ok env st'"
    by (induction rule: rtranclp_induct) (auto intro: crawl_step_ok)
  with assms(3) have "entry_sound env ih (Some name, sz, fs, tgs)" by (auto simp: sq.entries_ok_def)
  then show ?thesis by (fastforce simp: entry_sound_def skipped_iff)
qed

text \<open>C25: a torrent with a tag to skip is forgotten: its entry, the pending one included, is removed, its
  infohash is blacklisted, and an announcement of it that follows is ignored.\<close>

theorem skipped_torrent_forgotten:
  assumes "tagTorrent (ce_ord env) t (ce_tagREs env) = Ok tags" "tag \<in> set tags"
    and "tag \<in> set (strings_Split (CHR '','') (ce_skipTags env))"
    and "db_wf (cr_db st)" "no_faults (ce_sql env)" "cache_law (ce_env env)" "p_Infohash p = t_Infohash t"
  shows "\<exists>st'. onNewTorrent env t st = Ok st' \<and>
    stored_index (cr_db st') = (stored_index (cr_db st))(t_Infohash t := None) \<and>
    cr_db (onAnnouncePeer env p st') = cr_db st'"
proof -
  have "skipped (ce_skipTags env) tags" using assms(2,3) by (auto simp: skipped_iff)
  then have run: "onNewTorrent env t st = Ok (forget_torrent env t st)" using assms(1) by (simp add: onNewTorrent_def)
  moreover have "stored_index (cr_db (forget_torrent env t st)) = (stored_index (cr_db st))(t_Infohash t := None)"
    using assms(5) stored_index_delete [OF assms(4)]
    by (simp add: forget_torrent_def RemoveTorrent_fst no_faults_exec(2) sql_removeTorrent_def)
  moreover have "cr_db (onAnnouncePeer env p (forget_torrent env t st)) = cr_db (forget_torrent env t st)"
    using assms(6,7) by (auto simp: onAnnouncePeer_def forget_torrent_def cache_law_def Let_def split: prod.splits)
      (metis fst_conv)
  ultimately show ?thesis by blast
qed

text \<open>When a torrent cannot be saved it is blacklisted and the attempt leaves no trace of it in the
  index, and when it can it is there with its tags; no other entry gains anything either way.\<close>

theorem new_torrent_saved_or_forgotten:
  assumes "tagTorrent (ce_ord env) t (ce_tagREs env) = Ok tags" "\<not> skipped (ce_skipTags env) tags" "db_wf (cr_db st)"
    and "\<forall>db. se_fault (ce_sql env) db ''removeTorrent'' = None"
  shows "\<exists>st'. onNewTorrent env t st = Ok st' \<and>
    (if snd (SaveTorrent (ce_sql env) (t\<lparr>t_Tags := tags\<rparr>) (cr_db st)) = Ok ()
     then stored_index (cr_db st') = index_save (t\<lparr>t_Tags := tags\<rparr>) (stored_index (cr_db st)) \<and>
       cr_ihBlacklist st' = cr_ihBlacklist st
     else stored_index (cr_db st') = (stored_index (cr_db st))(t_Infohash t := None) \<and>
       cr_ihBlacklist st' = cache_Add (ce_env env) (cr_ihBlacklist st) (Infohash_String (t_Infohash t)))"
proof -
  let ?t = "t\<lparr>t_Tags := tags\<rparr>"
  let ?s = "SaveTorrent (ce_sql env) ?t (cr_db st)"
  have wf: "db_wf (fst ?s)" using assms(3) by (rule SaveTorrent_wf)
  have run: "onNewTorrent env t st = Ok (if snd ?s = Ok () then st\<lparr>cr_db := fst ?s\<rparr>
      else forget_torrent env ?t (st\<lparr>cr_db := fst ?s\<rparr>))"
    using assms(1,2) by (simp add: onNewTorrent_def Let_def split: prod.splits)
  have "stored_index (cr_db (forget_torrent env ?t (st\<lparr>cr_db := fst ?s\<rparr>))) = (stored_index (fst ?s))(t_Infohash t := None)"
    using assms(4) stored_index_delete [OF wf]
    by (simp add: forget_torrent_def RemoveTorrent_fst exec_sql_def call_sql_def sql_removeTorrent_def)
  with SaveTorrent_index_cases [OF assms(3), of "ce_sql env" ?t] show ?thesis
    unfolding run by (simp add: forget_torrent_def)
qed

section \<open>A peer whose metadata is fetched\<close>

lemma work_on_fetched:
  assumes "fetchMetadata (DecodeDict (ce_env env)) (Encode (ce_env env)) (ce_dial env) self p = FReturn (Ok md)"
    and "TorrentFromMetadata (DecodeDict (ce_env env)) (p_Infohash p) md = Ok t"
    and "tagTorrent (ce_ord env) t (ce_tagREs env) = Ok tags" "\<not> skipped (ce_skipTags env) tags"
    and "no_faults (ce_sql env)" "db_wf (cr_db st)" "w_log w" "w_OnNewTorrent w"
  shows "\<exists>st'. work_on env self w p st = Ok st' \<and>
    stored_index (cr_db st') = index_save (t\<lparr>t_Tags := tags\<rparr>) (stored_index (cr_db st))"
proof -
  from SaveTorrent_succeeds [OF assms(5,6)] obtain db' where
    save: "SaveTorrent (ce_sql env) (t\<lparr>t_Tags := tags\<rparr>) (cr_db st) = (db', Ok ())" by blast
  then have "onNewTorrent env t st = Ok (st\<lparr>cr_db := db'\<rparr>)"
    using assms(3,4) by (simp add: onNewTorrent_def)
  with assms(1,2,7,8) have "work_on env self w p st = Ok (st\<lparr>cr_db := db'\<rparr>)"
    by (simp add: work_on_def worker_round_def)
  with SaveTorrent_index [OF assms(6) save] show ?thesis by simp
qed

section \<open>Concrete applications\<close>

definition sample_crawl :: "string \<Rightarrow> string list crawl_env" where
  "sample_crawl skip =
     \<lparr>ce_env = (sample_env [])\<lparr>DecodeDict := sample_dec 1\<rparr>, ce_sql = sample_sql,
      ce_dial = sample_dial (honest_stream sample_reply [7] 2 (\<lambda>i. [9]) [42] []), ce_skipTags = skip,
      ce_tagREs = [(''hd'', Some (\<lambda>s. s = ''a''))], ce_ord = (\<lambda>xs. xs)\<rparr>"

definition sample_crawler :: "string list crawler" where
  "sample_crawler = \<lparr>cr_db = empty_database, cr_ihBlacklist = [], cr_peerBlacklist = []\<rparr>"

definition sample_torrent_a :: Torrent where
  "sample_torrent_a = \<lparr>t_ID = 0, t_Infohash = sha1_sum [42], t_Name = ''a'', t_Files = [], t_Size = 5, t_Updated = 0,
     t_Created = 0, t_Tags = []\<rparr>"

lemma sample_torrent_a_read: "TorrentFromMetadata (sample_dec 1) (sha1_sum [42]) [42] = Ok sample_torrent_a"
  by (simp add: TorrentFromMetadata_def InfohashMatchesMetadata_def sample_dec_def sample_dict_def krpc_get sample_torrent_a_def)

lemma sample_torrent_a_tags: "tagTorrent (\<lambda>xs. xs) sample_torrent_a [(''hd'', Some (\<lambda>s. s = ''a''))] = Ok [''hd'']"
  by (simp add: tagTorrent_def MatchString_def sample_torrent_a_def)

lemma sample_not_skipped: "\<not> skipped ''xxx'' [''hd'']" "''hd'' \<in> set (strings_Split (CHR '','') ''xxx,hd'')"
  by (simp_all add: skipped_def)

lemma sample_work:
  "\<exists>st'. work_on (sample_crawl ''xxx'') [] sample_worker (sample_peer (sha1_sum [42])) sample_crawler = Ok st' \<and>
     stored_index (cr_db st') (sha1_sum [42]) = Some (Some ''a'', 5, [], {''hd''})"
proof -
  have "fetchMetadata (sample_dec 1) (Encode (sample_env [])) (sample_dial (honest_stream sample_reply [7] 2 (\<lambda>i. [9]) [42] []))
      [] (sample_peer (sha1_sum [42])) = FReturn (Ok [42])"
    using sample_fetch [of 1 "[]" "[]" "sample_peer (sha1_sum [42])"]
    by (simp add: fetchMetadata_def sample_env_def sample_enc_def [abs_def])
  with work_on_fetched [of "sample_crawl ''xxx''" "[]" "sample_peer (sha1_sum [42])" "[42]" sample_torrent_a "[''hd'']" sample_crawler sample_worker]
  show ?thesis
    using sample_torrent_a_read sample_torrent_a_tags sample_not_skipped(1) sample_sql_ok(1) empty_database_wf
    by (auto simp: sample_crawl_def sample_crawler_def sample_worker_def sample_peer_def mkPeer_def index_save_def
        sample_torrent_a_def)
qed

theorem index_sound_witness:
  "\<exists>st'. stored_index (cr_db st') (sha1_sum [42]) = Some (Some ''a'', 5, [], {''hd''}) \<and>
     rtranclp (crawl_step (sample_crawl ''xxx'') sample_worker) sample_crawler st' \<and>
     (\<exists>md t. sha1_sum [42] = sha1_sum md \<and> TorrentFromMetadata (sample_dec 1) (sha1_sum [42]) md = Ok t \<and> t_Name t = ''a'')"
proof -
  from sample_work obtain st' where st': "work_on (sample_crawl ''xxx'') [] sample_worker (sample_peer (sha1_sum [42])) sample_crawler = Ok st'"
    "stored_index (cr_db st') (sha1_sum [42]) = Some (Some ''a'', 5, [], {''hd''})" by blast
  let ?env = "sample_crawl ''xxx''"
  have "hand_out ?env (Some sample_worker) [([], sample_peer (sha1_sum [42]))] sample_crawler = Ok st'" using st' by simp
  then have steps: "rtranclp (crawl_step ?env sample_worker) sample_crawler st'" by (rule hand_out_steps)
  have "cr_db sample_crawler = empty_database" by (simp add: sample_crawler_def)
  note sound = index_sound [OF steps this st'(2)]
  then have "\<exists>md t. sha1_sum [42] = sha1_sum md \<and> TorrentFromMetadata (sample_dec 1) (sha1_sum [42]) md = Ok t \<and> t_Name t = ''a''"
    by (auto simp: sample_crawl_def)
  with steps st' show ?thesis by blast
qed

theorem skipped_torrent_forgotten_witness:
  "\<exists>st'. onNewTorrent (sample_crawl ''xxx,hd'') sample_torrent_a sample_crawler = Ok st' \<and>
     cr_db (onAnnouncePeer (sample_crawl ''xxx,hd'') (sample_peer (sha1_sum [42])) st') = cr_db st'"
proof -
  let ?env = "sample_crawl ''xxx,hd''"
  have "tagTorrent (ce_ord ?env) sample_torrent_a (ce_tagREs ?env) = Ok [''hd'']"
    using sample_torrent_a_tags by (simp add: sample_crawl_def)
  moreover have "''hd'' \<in> set (strings_Split (CHR '','') (ce_skipTags ?env))"
    using sample_not_skipped(2) by (simp add: sample_crawl_def)
  moreover have "db_wf (cr_db sample_crawler)" "no_faults (ce_sql ?env)" "cache_law (ce_env ?env)"
    using empty_database_wf sample_sql_ok(1) by (simp_all add: sample_crawler_def sample_crawl_def cache_law_def sample_env_def)
  moreover have "p_Infohash (sample_peer (sha1_sum [42])) = t_Infohash sample_torrent_a"
    by (simp add: sample_peer_def mkPeer_def sample_torrent_a_def)
  ultimately show ?thesis
    using skipped_torrent_forgotten [of ?env sample_torrent_a "[''hd'']" "''hd''" sample_crawler "sample_peer (sha1_sum [42])"]
    by auto
qed

theorem new_torrent_saved_or_forgotten_witness:
  "\<exists>st'. onNewTorrent (sample_crawl ''xxx'') sample_torrent_a sample_crawler = Ok st' \<and>
     stored_index (cr_db st') (sha1_sum [42]) = Some (Some ''a'', 5, [], {''hd''})"
proof -
  let ?env = "sample_crawl ''xxx''"
  have "tagTorrent (ce_ord ?env) sample_torrent_a (ce_tagREs ?env) = Ok [''hd'']" "\<not> skipped (ce_skipTags ?env) [''hd'']"
    using sample_torrent_a_tags sample_not_skipped(1) by (simp_all add: sample_crawl_def)
  moreover have "db_wf (cr_db sample_crawler)" "\<forall>db. se_fault (ce_sql ?env) db ''removeTorrent'' = None"
    using empty_database_wf by (simp_all add: sample_crawler_def sample_crawl_def sample_sql_def)
  moreover have "snd (SaveTorrent (ce_sql ?env) (sample_torrent_a\<lparr>t_Tags := [''hd'']\<rparr>) (cr_db sample_crawler)) = Ok ()"
    using SaveTorrent_succeeds [OF sample_sql_ok(1) empty_database_wf] by (auto simp: sample_crawl_def sample_crawler_def) (metis snd_conv)
  ultimately show ?thesis
    using new_torrent_saved_or_forgotten [of ?env sample_torrent_a "[''hd'']" sample_crawler]
    by (auto simp: index_save_def sample_torrent_a_def)
qed

end
