(* ===== verification/Node_Lifecycle.thy ===== *)
theory Node_Lifecycle
  imports Node_Properties
begin

text \<open>
  The other ends of the DHT node's life: how it is built from its options, which queries it lets
  pass without a trace, what it sends to the nodes of its table, and what the writer does with a
  packet that cannot be sent.
\<close>

section \<open>Construction\<close>

lemma fold_option_fixed:
  "n_id (fold apply_option opts n) = n_id n \<and> n_rTable (fold apply_option opts n) = n_rTable n \<and>
   n_packetsOut (fold apply_option opts n) = n_packetsOut n"
proof (induction opts arbitrary: n)
  case (Cons opt opts)
  then show ?case by (cases opt) simp_all
qed simp

lemma listen_Ok:
  assumes "listen env n = Ok n'"
  shows "\<exists>f l. n' = n\<lparr>n_family := f, n_local := l\<rparr> \<and> f \<in> {''udp4'', ''udp6''}"
  using assms
  by (fastforce simp: listen_def Let_def and_then_Ok_iff split: if_splits outcome.splits)

text \<open>What every new node has.\<close>

lemma NewNode_inv:
  assumes "NewNode env now r opts = Ok n"
  shows "node_inv n \<and> n_id n = GenInfohash now r \<and> rt_nodes (n_rTable n) = [] \<and>
    rt_max (n_rTable n) = 2000 \<and> n_family n \<in> {''udp4'', ''udp6''}"
proof -
  define n0 :: "'a node" where "n0 = \<lparr>n_id = GenInfohash now r, n_family = ''udp4'', n_address = [],
      n_port = 6881, n_local = [], n_rTable = empty_table (GenInfohash now r) 2000, n_udpTimeout = 10,
      n_packetsOut = [], n_blacklist = None, n_OnAnnouncePeer = False, n_OnBadPeer = False,
      n_announced = [], n_bad = []\<rparr>"
  from assms obtain n1 where listen: "listen env n1 = Ok n" and n1: "n_blacklist n1 \<noteq> None"
    "n_id n1 = n_id n0" "n_rTable n1 = n_rTable n0" "n_packetsOut n1 = n_packetsOut n0"
    by (auto simp: NewNode_def newRoutingTable_eq Let_def and_then_Ok_iff n0_def [symmetric] fold_option_fixed
        split: option.splits)
  from listen_Ok [OF listen] obtain f l where
    "n = n1\<lparr>n_family := f, n_local := l\<rparr>" "f \<in> {''udp4'', ''udp6''}" by blast
  moreover have "rt_sound (empty_table (GenInfohash now r) 2000)"
    by (intro rt_wf_sound empty_table_wf) simp_all
  ultimately show ?thesis
    using n1 by (simp add: node_inv_def n0_def) (simp add: empty_table_def rt_nodes_def)
qed

text \<open>A node that \<^verbatim>\<open>NewNode\<close> returns satisfies the node's invariant, whatever options it was given:
  a valid identifier, an empty routing table of capacity 2000 for that identifier, a blacklist, and
  one of the two socket families.\<close>

theorem NewNode_sound:
  assumes "NewNode env now r opts = Ok n"
  shows "node_inv n \<and> n_id n = GenInfohash now r \<and> rt_nodes (n_rTable n) = [] \<and>
    rt_max (n_rTable n) = 2000 \<and> n_family n \<in> {''udp4'', ''udp6''}"
  using assms by (rule NewNode_inv)

theorem NewNode_sound_witness:
  "\<exists>n. NewNode (sample_env []) ''now'' 7 [SetPort 7000, SetIPv6 True] = Ok n \<and> node_inv n"
proof -
  obtain n where n: "NewNode (sample_env []) ''now'' 7 [SetPort 7000, SetIPv6 True] = Ok n"
    by (simp add: NewNode_def newRoutingTable_eq listen_def Let_def)
  from NewNode_sound [OF n] n show ?thesis by blast
qed

text \<open>The option \<^verbatim>\<open>SetAddress\<close>, which is documented to set the address to listen on, is stored and
  has no other effect: adding it leaves the sockets that are tried, and so the node, as they were.\<close>

theorem SetAddress_has_no_effect:
  "NewNode env now r (opts @ [SetAddress ip]) =
     and_then (NewNode env now r opts) (\<lambda>n. Ok (n\<lparr>n_address := ip\<rparr>))"
proof -
  have listen_address: "listen env (n\<lparr>n_address := ip\<rparr>) = and_then (listen env n) (\<lambda>n. Ok (n\<lparr>n_address := ip\<rparr>))" for n
    by (cases n) (simp add: listen_def Let_def and_then_assoc split: outcome.splits)
  have swap: "n\<lparr>n_address := ip, n_blacklist := b\<rparr> = n\<lparr>n_blacklist := b, n_address := ip\<rparr>" for n :: "'a node" and b
    by (cases n) simp
  show ?thesis
    by (simp add: NewNode_def newRoutingTable_eq Let_def and_then_assoc swap listen_address split: option.splits)
qed

section \<open>Queries without effect\<close>

text \<open>A query under the node's own identifier, and a query of any kind other than \<^verbatim>\<open>ping\<close>,
  \<^verbatim>\<open>get_peers\<close> and \<^verbatim>\<open>announce_peer\<close> (\<^verbatim>\<open>find_node\<close> among them), is neither answered nor remembered:
  nothing but the blacklist's bookkeeping changes, and it is not an error.\<close>

theorem query_ignored:
  assumes "node_inv n" "arrives env n p m" "is_query m q a ih"
    and "ih = n_id n \<or> q \<notin> {''ping'', ''get_peers'', ''announce_peer''}"
  shows "\<exists>c. processPacket env n p = (n\<lparr>n_blacklist := Some c\<rparr>, Ok ())"
proof (rule processPacket_query [OF assms(1-3)])
  fix c
  show "handleRequest env (n\<lparr>n_blacklist := Some c\<rparr>) (pkt_raddr p) m = (n\<lparr>n_blacklist := Some c\<rparr>, Ok ())"
  proof (cases "ih = n_id n")
    case True
    with assms(3) show ?thesis
      by (auto simp: is_query_def handleRequest_def with_val_def GetString_def GetMap_def)
  next
    case False
    with assms(3,4) show ?thesis by (simp add: handleRequest_query [of m q a ih])
  qed
qed

theorem query_ignored_witness:
  "\<exists>c. processPacket (sample_env (sample_query ''find_node'' [])) (sample_dht_node ''udp4'')
      \<lparr>pkt_data = [], pkt_raddr = rn_addr (sample_node 6881 7)\<rparr> =
    ((sample_dht_node ''udp4'')\<lparr>n_blacklist := Some c\<rparr>, Ok ())"
  by (rule query_ignored [OF sample_node_inv sample_arrives sample_query_is]) simp

section \<open>Asking the neighbours\<close>

text \<open>Asking a node of the table queues one \<^verbatim>\<open>find_node\<close> query to it, under an identifier with the
  node's own first half and our second half; but building that identifier overwrites the node's
  identifier in the table itself, and because the comparison with our own identifier comes after
  that, a node that shares our first ten bytes is never asked.\<close>

theorem neighbour_asked:
  assumes inv: "node_inv n" and rn: "Infohash_Valid (rn_id rn)" "rn \<in> set (rt_nodes (n_rTable n))"
    and room: "length (n_packetsOut n) < packetsOut_cap"
    and enc: "Encode env (MakeQuery (NewTransactionID (fst (d_trans d)) (snd (d_trans d))) ''find_node''
      [(''id'', GStr (bytes_str (take 10 (rn_id rn) @ drop 10 (n_id n)))),
       (''target'', GStr (bytes_str (GenInfohash (d_now d) (d_random d))))]) = Ok b"
  shows "\<exists>n'. query_neighbour env d spare n rn = (n', Ok ()) \<and>
    n_packetsOut n' = n_packetsOut n @
      (if take 10 (rn_id rn) = take 10 (n_id n) then [] else [\<lparr>pkt_data = b, pkt_raddr = rn_addr rn\<rparr>]) \<and>
    rn\<lparr>rn_id := take 10 (rn_id rn) @ drop 10 (n_id n)\<rparr> \<in> set (rt_nodes (n_rTable n')) \<and>
    length (rt_nodes (n_rTable n')) = length (rt_nodes (n_rTable n))"
proof -
  let ?s = "take 10 (rn_id rn) @ drop 10 (n_id n)"
  let ?n = "n\<lparr>n_rTable := rt_touch (n_rTable n) rn ?s\<rparr>"
  have len: "length (rn_id rn) = 20" "length (n_id n) = 20"
    using inv rn by (simp_all add: node_inv_def Infohash_Valid_def InfohashLength_def)
  have own: "?s = n_id n \<longleftrightarrow> take 10 (rn_id rn) = take 10 (n_id n)"
    using len by (metis append_eq_append_conv append_take_drop_id length_take)
  have "findNode env d ?n (rn\<lparr>rn_id := ?s\<rparr>) ?s =
      (?n\<lparr>n_packetsOut := n_packetsOut n @
        (if take 10 (rn_id rn) = take 10 (n_id n) then [] else [\<lparr>pkt_data = b, pkt_raddr = rn_addr rn\<rparr>])\<rparr>, Ok ())"
    using enc room by (simp add: findNode_def sendQuery_def own with_val_def send_packet_def Let_def)
  moreover have "rn\<lparr>rn_id := ?s\<rparr> \<in> set (rt_nodes (rt_touch (n_rTable n) rn ?s))"
    using rn(2) by (auto simp: rt_nodes_touch touch_node_def intro!: rev_image_eqI [of rn])
  moreover have "length (rt_nodes (rt_touch (n_rTable n) rn ?s)) = length (rt_nodes (n_rTable n))"
    unfolding rt_nodes_touch by simp
  ultimately show ?thesis
    using query_neighbour_eq [OF inv rn(1), of env d spare] by simp
qed

text \<open>A sample node that knows one other node.\<close>

definition sample_knowing :: "string list node" where
  "sample_knowing = (sample_dht_node ''udp4'')
     \<lparr>n_rTable := case routingTable_add (empty_table (replicate 20 0) 2000) (sample_node 6881 7) of Ok t \<Rightarrow> t\<rparr>"

lemma sample_knowing_ok:
  "node_inv sample_knowing" "sample_node 6881 7 \<in> set (rt_nodes (n_rTable sample_knowing))"
proof -
  have wf: "rt_wf (empty_table (replicate 20 0) 2000)"
    by (rule empty_table_wf) (simp_all add: Infohash_Valid_def)
  have new: "\<not> add_ignored (empty_table (replicate 20 0) 2000) (sample_node 6881 7)"
    by (simp add: add_ignored_def empty_table_def sample_node_def Infohash_Valid_def)
  from routingTable_add_nodes [OF wf, of "sample_node 6881 7"] new obtain t where
    t: "routingTable_add (empty_table (replicate 20 0) 2000) (sample_node 6881 7) = Ok t" "rt_wf t"
      "rt_fixed t = rt_fixed (empty_table (replicate 20 0) 2000)"
      "mset (rt_nodes t) = {#sample_node 6881 7#}"
    by (auto simp: empty_table_def rt_nodes_def)
  have "node_inv ((sample_dht_node ''udp4'')\<lparr>n_rTable := t\<rparr>)"
    using sample_node_inv [of "''udp4''"] t by (simp add: node_inv_def rt_wf_sound)
  with t show "node_inv sample_knowing" by (simp add: sample_knowing_def)
  show "sample_node 6881 7 \<in> set (rt_nodes (n_rTable sample_knowing))"
    using t(1) arg_cong [OF t(4), of set_mset] by (simp add: sample_knowing_def)
qed

theorem neighbour_asked_witness:
  "\<exists>n'. query_neighbour (sample_env []) \<lparr>d_now = [], d_random = 0, d_trans = (0, 0)\<rparr> [] sample_knowing
      (sample_node 6881 7) = (n', Ok ()) \<and>
    n_packetsOut n' = [\<lparr>pkt_data = [100, 101], pkt_raddr = rn_addr (sample_node 6881 7)\<rparr>]"
proof -
  have valid: "Infohash_Valid (rn_id (sample_node 6881 7))" by (simp add: sample_node_def Infohash_Valid_def)
  have other: "take 10 (rn_id (sample_node 6881 7)) \<noteq> take 10 (n_id sample_knowing)"
    by (simp add: sample_node_def sample_knowing_def)
  have "n_packetsOut sample_knowing = []" by (simp add: sample_knowing_def)
  with neighbour_asked [OF sample_knowing_ok(1) valid sample_knowing_ok(2), of "sample_env []"
      "\<lparr>d_now = [], d_random = 0, d_trans = (0, 0)\<rparr>" "[100, 101]" "[]"] other
  show ?thesis by (auto simp: packetsOut_cap_def)
qed

section \<open>The writer\<close>

text \<open>The writer takes the oldest packet. One that is addressed to the node's own socket, or that
  the limiter refuses, is dropped; one that is sent leaves no trace; one whose write fails puts its
  destination on the blacklist and, when the callback is set, reports it as a bad peer.\<close>

theorem writer_spec:
  assumes "node_inv n" "cache_law env" "n_packetsOut n = p # rest"
  shows "\<exists>n'. write_packet env limited failed n = Ok n' \<and> n_packetsOut n' = rest \<and> n_rTable n' = n_rTable n \<and>
    (if failed \<and> \<not> limited \<and> UDPAddr_String (pkt_raddr p) \<noteq> n_local n
     then fst (cache_Get env (the (n_blacklist n')) (UDPAddr_String (pkt_raddr p))) \<and>
          n_bad n' = n_bad n @ (if n_OnBadPeer n then [mkPeer (pkt_raddr p) []] else [])
     else n' = n\<lparr>n_packetsOut := rest\<rparr>)"
proof -
  have "node_inv (n\<lparr>n_packetsOut := rest\<rparr>)" using assms(1,3) by (simp add: node_inv_def)
  from blacklist_Add_Ok [OF this, of env "UDPAddr_String (pkt_raddr p)"] assms(2,3) show ?thesis
    by (auto simp: write_packet_def Let_def cache_law_def)
qed

theorem writer_spec_witness:
  "\<exists>n'. write_packet (sample_env []) False True ((sample_dht_node ''udp4'')\<lparr>n_packetsOut :=
      [\<lparr>pkt_data = [1], pkt_raddr = rn_addr (sample_node 6881 7)\<rparr>]\<rparr>) = Ok n' \<and> n_packetsOut n' = []"
proof -
  let ?p = "\<lparr>pkt_data = [1], pkt_raddr = rn_addr (sample_node 6881 7)\<rparr>"
  have "node_inv ((sample_dht_node ''udp4'')\<lparr>n_packetsOut := [?p]\<rparr>)"
    using sample_node_inv [of "''udp4''"] by (simp add: node_inv_def packetsOut_cap_def)
  from writer_spec [OF this sample_env_ok(2) [of "[]"], of ?p "[]" False True] show ?thesis by auto
qed

end
