(* ===== verification/Daemon.thy ===== *)
theory Daemon
  imports Crawler Node_Lifecycle
begin

text \<open>
  \<^verbatim>\<open>main\<close> of \<^verbatim>\<open>cmd/dhtsearch/main.go\<close>: the flags, what is built before the goroutines start, and the nodes
  and workers the goroutines create. Parsing the command line is the flag package's; a failure that
  ends in \<^verbatim>\<open>os.Exit(1)\<close> is the error, and None is the exit after printing the version.
\<close>

section \<open>Flags\<close>

record flags =
  fl_port :: int
  fl_debug :: bool
  fl_ipv6 :: bool
  fl_dhtNodes :: int
  fl_btNodes :: int
  fl_skipTags :: string
  fl_dsn :: string
  fl_showVersion :: bool

definition default_flags :: flags where
  "default_flags =
     \<lparr>fl_port = 6881, fl_debug = False, fl_ipv6 = False, fl_dhtNodes = 1, fl_btNodes = 3, fl_skipTags = ''xxx'',
      fl_dsn = ''file:dhtsearch.db?cache=shared&mode=memory'', fl_showVersion = False\<rparr>"

section \<open>Starting\<close>

text \<open>
  \<open>opened\<close> is the database behind a DSN. The result is the shared state and the compiled expressions.
\<close>

definition main_start ::
    "'c env \<Rightarrow> sql_env \<Rightarrow> (string \<Rightarrow> database outcome) \<Rightarrow> compiler \<Rightarrow> string list \<Rightarrow> flags \<Rightarrow>
     ('c crawler \<times> tag_map) outcome option" where
  "main_start env sql opened compile scripts fl =
     (if fl_showVersion fl then None
      else Some (
        and_then (NewStore sql (opened (fl_dsn fl))) (\<lambda>db.
        and_then (createTagRegexps compile default_tags scripts) (\<lambda>m.
        and_then (cache_New env 1000) (\<lambda>ihBlacklist.
        and_then (cache_New env 1000) (\<lambda>peerBlacklist.
          Ok (\<lparr>cr_db = db, cr_ihBlacklist = ihBlacklist, cr_peerBlacklist = peerBlacklist\<rparr>, m)))))))"

definition node_options :: "flags \<Rightarrow> 'c \<Rightarrow> int \<Rightarrow> 'c node_option list" where
  "node_options fl peerBlacklist i =
     [SetLogger, SetPort (fl_port fl + i), SetIPv6 (fl_ipv6 fl), SetBlacklist (Some peerBlacklist),
      SetOnAnnouncePeer, SetOnBadPeer]"

text \<open>
  The loop of \<^verbatim>\<open>startDHTNodes\<close>; a node that cannot be created is logged and stays nil. \<open>draw i\<close> is the
  clock text and the random number of the node's identifier.
\<close>

function start_nodes ::
    "'c env \<Rightarrow> flags \<Rightarrow> 'c \<Rightarrow> (int \<Rightarrow> string \<times> int) \<Rightarrow> int \<Rightarrow> 'c node option list outcome" where
  "start_nodes env fl bl draw i =
     (if i < fl_dhtNodes fl then
        (case NewNode env (fst (draw i)) (snd (draw i)) (node_options fl bl i) of
           Ok n \<Rightarrow> and_then (start_nodes env fl bl draw (i + 1)) (\<lambda>ns. Ok (Some n # ns))
         | Err e \<Rightarrow> and_then (start_nodes env fl bl draw (i + 1)) (\<lambda>ns. Ok (None # ns))
         | Panic p \<Rightarrow> Panic p
         | Hang \<Rightarrow> Hang)
      else Ok [])"
  by pat_completeness auto
termination
  by (relation "measure (\<lambda>(env, fl, bl, draw, i). nat (fl_dhtNodes fl - i))") auto

declare start_nodes.simps [simp del]

definition startDHTNodes ::
    "'c env \<Rightarrow> flags \<Rightarrow> 'c crawler \<Rightarrow> (int \<Rightarrow> string \<times> int) \<Rightarrow> 'c node option list outcome" where
  "startDHTNodes env fl st draw =
     (if fl_dhtNodes fl < 0 then Panic MakeSliceLength
      else start_nodes env fl (cr_peerBlacklist st) draw 0)"

text \<open>The loop of \<^verbatim>\<open>startBTWorkers\<close>; an error of \<^verbatim>\<open>NewWorker\<close> would end it.\<close>

function start_workers :: "flags \<Rightarrow> int \<Rightarrow> worker list" where
  "start_workers fl i =
     (if i < fl_btNodes fl then
        (case NewWorker (daemon_options (fl_port fl + i) (fl_ipv6 fl)) of
           Ok w \<Rightarrow> w # start_workers fl (i + 1)
         | _ \<Rightarrow> [])
      else [])"
  by pat_completeness auto
termination
  by (relation "measure (\<lambda>(fl, i). nat (fl_btNodes fl - i))") auto

declare start_workers.simps [simp del]

definition startBTWorkers :: "flags \<Rightarrow> worker list" where
  "startBTWorkers fl = start_workers fl 0"

section \<open>What is started\<close>

lemma fold_daemon_options:
  "NewWorker (daemon_options p v6) =
     Ok \<lparr>w_port = p, w_family = (if v6 then ''tcp6'' else []), w_OnNewTorrent = True, w_OnBadPeer = True, w_log = True,
         w_torrents = [], w_bad = []\<rparr>"
  by (simp add: NewWorker_def daemon_options_def)

lemma start_workers_spec:
  "start_workers fl i = map (\<lambda>k. \<lparr>w_port = fl_port fl + k, w_family = (if fl_ipv6 fl then ''tcp6'' else []),
     w_OnNewTorrent = True, w_OnBadPeer = True, w_log = True, w_torrents = [], w_bad = []\<rparr>) [i..fl_btNodes fl - 1]"
proof (induction "nat (fl_btNodes fl - i)" arbitrary: i)
  case 0
  then show ?case by (simp add: start_workers.simps [of fl i])
next
  case (Suc k)
  from Suc.hyps(2) have "i < fl_btNodes fl" "k = nat (fl_btNodes fl - (i + 1))" by simp_all
  with Suc.hyps(1) [of "i + 1"] show ?case
    by (simp add: start_workers.simps [of fl i] fold_daemon_options upto_rec1 [of i])
qed

lemma node_options_set:
  assumes "NewNode env now r (node_options fl bl i) = Ok n"
  shows "n_OnAnnouncePeer n \<and> n_OnBadPeer n \<and> n_port n = fl_port fl + i \<and> n_blacklist n = Some bl"
  using assms by (auto simp: NewNode_def newRoutingTable_eq node_options_def and_then_Ok_iff Let_def dest!: listen_Ok)

lemma start_nodes_sound:
  "start_nodes env fl bl draw i = Ok ns \<Longrightarrow>
   length ns = nat (fl_dhtNodes fl - i) \<and>
   (\<forall>k < length ns. \<forall>n. ns ! k = Some n \<longrightarrow>
      node_inv n \<and> n_OnAnnouncePeer n \<and> n_OnBadPeer n \<and> n_port n = fl_port fl + i + int k \<and> n_blacklist n = Some bl)"
proof (induction "nat (fl_dhtNodes fl - i)" arbitrary: i ns)
  case 0
  then show ?case by (simp add: start_nodes.simps [of env fl bl draw i])
next
  case (Suc k)
  from Suc.hyps(2) have i: "i < fl_dhtNodes fl" "k = nat (fl_dhtNodes fl - (i + 1))" by simp_all
  with Suc.prems obtain x ms where ns: "ns = x # ms" "start_nodes env fl bl draw (i + 1) = Ok ms"
    and x: "x = None \<or> (\<exists>n. x = Some n \<and> NewNode env (fst (draw i)) (snd (draw i)) (node_options fl bl i) = Ok n)"
    by (auto simp: start_nodes.simps [of env fl bl draw i] and_then_Ok_iff split: outcome.splits)
  note IH = Suc.hyps(1) [OF i(2) ns(2)]
  show ?case
  proof (intro conjI allI impI)
    show "length ns = nat (fl_dhtNodes fl - i)" using IH ns(1) i by simp
    fix j n assume j: "j < length ns" "ns ! j = Some n"
    have "node_inv n \<and> n_OnAnnouncePeer n \<and> n_OnBadPeer n \<and> n_port n = fl_port fl + i + int j \<and> n_blacklist n = Some bl"
    proof (cases j)
      case 0
      with j ns(1) x have "NewNode env (fst (draw i)) (snd (draw i)) (node_options fl bl i) = Ok n" by auto
      from NewNode_inv [OF this] node_options_set [OF this] 0 show ?thesis by simp
    next
      case (Suc j')
      with j ns(1) IH show ?thesis by auto
    qed
    then show "node_inv n" "n_OnAnnouncePeer n" "n_OnBadPeer n" "n_port n = fl_port fl + i + int j" "n_blacklist n = Some bl"
      by simp_all
  qed
qed

section \<open>Properties\<close>

text \<open>C30: what \<^verbatim>\<open>main\<close> starts is ready for work: the store it opened is well-formed and tagging cannot fail;
  every DHT node that was created satisfies the node's invariant, has both callbacks and the shared
  blacklist, and listens on the base port plus its index; there is one worker per requested one, with
  a logger and both callbacks, on the ports from the base port on.\<close>

theorem daemon_ready:
  assumes "main_start env sql opened compile scripts fl = Some (Ok (st, m))"
    and "opened (fl_dsn fl) = Ok db" "db_wf db" "startDHTNodes env fl st draw = Ok ns"
  shows "db_wf (cr_db st) \<and> (\<forall>t. \<exists>tags. tagTorrent (\<lambda>xs. xs) t m = Ok tags) \<and>
    length ns = nat (fl_dhtNodes fl) \<and>
    (\<forall>k < length ns. \<forall>n. ns ! k = Some n \<longrightarrow> node_inv n \<and> n_OnAnnouncePeer n \<and> n_OnBadPeer n \<and>
       n_port n = fl_port fl + int k \<and> n_blacklist n = Some (cr_peerBlacklist st)) \<and>
    map w_port (startBTWorkers fl) = map (\<lambda>k. fl_port fl + k) [0..fl_btNodes fl - 1] \<and>
    (\<forall>w \<in> set (startBTWorkers fl). w_log w \<and> w_OnNewTorrent w \<and> w_OnBadPeer w)"
proof (intro conjI)
  from assms(1,2) have run: "NewStore sql (Ok db) = Ok (cr_db st)" "createTagRegexps compile default_tags scripts = Ok m"
    by (auto simp: main_start_def and_then_Ok_iff split: if_splits)
  from NewStore_wf [OF run(1) assms(3)] show "db_wf (cr_db st)" .
  from tagTorrent_total [OF createTagRegexps_ok [OF run(2)]]
  show "\<forall>t. \<exists>tags. tagTorrent (\<lambda>xs. xs) t m = Ok tags" by blast
  from assms(4) have nodes: "start_nodes env fl (cr_peerBlacklist st) draw 0 = Ok ns"
    by (auto simp: startDHTNodes_def split: if_splits)
  from start_nodes_sound [OF nodes] show "length ns = nat (fl_dhtNodes fl)"
    "\<forall>k < length ns. \<forall>n. ns ! k = Some n \<longrightarrow> node_inv n \<and> n_OnAnnouncePeer n \<and> n_OnBadPeer n \<and>
       n_port n = fl_port fl + int k \<and> n_blacklist n = Some (cr_peerBlacklist st)" by simp_all
qed (auto simp: startBTWorkers_def start_workers_spec)

theorem daemon_ready_witness:
  "\<exists>st m ns. main_start (sample_env []) sample_sql (\<lambda>_. Ok empty_database) (\<lambda>re. Some (\<lambda>s. False)) [] default_flags =
       Some (Ok (st, m)) \<and>
     startDHTNodes (sample_env []) default_flags st (\<lambda>i. (''now'', i)) = Ok ns \<and> length ns = 1 \<and> db_wf (cr_db st)"
proof -
  let ?e = "sample_env []"
  have "prepareStatements sample_sql d names = Ok ()" for d names
    by (induction names) (simp_all add: call_sql_def sample_sql_def)
  then have store: "\<exists>db. NewStore sample_sql (Ok empty_database) = Ok db"
    by (simp add: NewStore_def migrate_def call_sql_def split: prod.splits) (simp add: sample_sql_def)
  have "\<exists>m'. must_compile_tags (\<lambda>re. Some (\<lambda>s. False)) m0 tags = Ok m'" for m0 tags
    by (induction tags arbitrary: m0) auto
  then obtain m where "must_compile_tags (\<lambda>re. Some (\<lambda>s. False)) [] default_tags = Ok m" by blast
  then have "createTagRegexps (\<lambda>re. Some (\<lambda>s. False)) default_tags [] = Ok m" by (simp add: createTagRegexps_def)
  with store obtain st where st: "main_start ?e sample_sql (\<lambda>_. Ok empty_database) (\<lambda>re. Some (\<lambda>s. False)) [] default_flags =
      Some (Ok (st, m))"
    by (auto simp: main_start_def default_flags_def)
  obtain n where "NewNode ?e (fst (''now'', 0)) (snd (''now'', 0 :: int)) (node_options default_flags (cr_peerBlacklist st) 0) = Ok n"
    by (simp add: NewNode_def newRoutingTable_eq listen_def Let_def node_options_def default_flags_def)
  then have ns: "startDHTNodes ?e default_flags st (\<lambda>i. (''now'', i)) = Ok [Some n]"
    by (simp add: startDHTNodes_def default_flags_def start_nodes.simps [of _ _ _ _ 0] start_nodes.simps [of _ _ _ _ 1])
  from daemon_ready [OF st _ empty_database_wf ns] have "db_wf (cr_db st)" by simp
  with st ns show ?thesis by auto
qed

text \<open>When pending peers are found before \<^verbatim>\<open>startBTWorkers\<close> has made the channel of the pool, the loop that
  hands them out waits for ever; without pending peers it goes on.\<close>

theorem pending_before_workers:
  assumes "PendingInfohashes (ce_sql env) 10 (cr_db st) = Ok ps"
  shows "processPendingPeers env None self st = (if ps = [] then Ok st else Hang)"
  using assms by (cases ps) (simp_all add: processPendingPeers_def)

end
