(* ===== verification/Dispatch.thy ===== *)
theory Dispatch
  imports Daemon
begin

text \<open>
  The goroutines of \<^verbatim>\<open>cmd/dhtsearch/main.go\<close> as they run together: the loop of \<^verbatim>\<open>processPendingPeers\<close>, which
  gives each pending peer to a worker that waits on the channel \<^verbatim>\<open>pool\<close>; the workers; and the callbacks of
  the DHT nodes, which run in goroutines of their own. What takes a lock of the store or of a cache is a
  step; between two steps of a goroutine any other may run. In \<open>Crawler\<close> a callback is a single step:
  \<open>work_on_in_phases\<close> shows that it is what a worker does when nobody comes between.
\<close>

section \<open>Workers\<close>

text \<open>
  What a worker does next: wait for a peer, fetch from one, then the calls of \<^verbatim>\<open>onNewTorrent\<close> (save; when that
  fails, or instead of it for a torrent to skip, blacklist and remove) or of \<^verbatim>\<open>onBadPeer\<close> (remove, blacklist).
\<close>

datatype phase =
    Ready
  | Fetching Peer
  | Saving Torrent
  | Forgetting Torrent
  | Removing Torrent
  | Dropping Peer
  | Blacklisting Peer

definition tag_phase :: "'c crawl_env \<Rightarrow> Torrent \<Rightarrow> phase outcome" where
  "tag_phase env t =
     and_then (tagTorrent (ce_ord env) t (ce_tagREs env)) (\<lambda>tags.
       Ok (if skipped (ce_skipTags env) tags then Forgetting t else Saving (t\<lparr>t_Tags := tags\<rparr>)))"

definition fetch_phase :: "'c crawl_env \<Rightarrow> infohash \<Rightarrow> worker \<Rightarrow> Peer \<Rightarrow> phase outcome" where
  "fetch_phase env self w p =
     and_then (worker_round (DecodeDict (ce_env env)) (Encode (ce_env env)) (ce_dial env) self
         (w\<lparr>w_torrents := [], w_bad := []\<rparr>) p) (\<lambda>w'.
       case w_torrents w' of
         t # ts \<Rightarrow> tag_phase env t
       | [] \<Rightarrow> (case w_bad w' of q # qs \<Rightarrow> Ok (Dropping q) | [] \<Rightarrow> Ok Ready))"

fun store_phase :: "'c crawl_env \<Rightarrow> phase \<times> 'c crawler \<Rightarrow> phase \<times> 'c crawler" where
  "store_phase env (Saving t, st) =
     (let (db, r) = SaveTorrent (ce_sql env) t (cr_db st)
      in (if r = Ok () then Ready else Forgetting t, st\<lparr>cr_db := db\<rparr>))"
| "store_phase env (Forgetting t, st) =
     (Removing t, st\<lparr>cr_ihBlacklist := cache_Add (ce_env env) (cr_ihBlacklist st) (Infohash_String (t_Infohash t))\<rparr>)"
| "store_phase env (Removing t, st) = (Ready, st\<lparr>cr_db := fst (RemoveTorrent (ce_sql env) t (cr_db st))\<rparr>)"
| "store_phase env (Dropping p, st) = (Blacklisting p, st\<lparr>cr_db := fst (RemovePeer (ce_sql env) p (cr_db st))\<rparr>)"
| "store_phase env (Blacklisting p, st) =
     (Ready, st\<lparr>cr_peerBlacklist := cache_Add (ce_env env) (cr_peerBlacklist st) (UDPAddr_String (p_Addr p))\<rparr>)"
| "store_phase env (ph, st) = (ph, st)"

section \<open>The daemon\<close>

text \<open>
  The shared state, the peers \<^verbatim>\<open>processPendingPeers\<close> has still to hand out, the phase of each worker, and the
  announcements that have passed the blacklist and are not saved yet.
\<close>

record 'c daemon =
  dm_crawler :: "'c crawler"
  dm_todo :: "Peer list"
  dm_workers :: "phase list"
  dm_announcing :: "Peer list"

definition check_announce :: "'c crawl_env \<Rightarrow> Peer \<Rightarrow> 'c daemon \<Rightarrow> 'c daemon" where
  "check_announce env p s =
     (let (black, c) = cache_Get (ce_env env) (cr_ihBlacklist (dm_crawler s)) (Infohash_String (p_Infohash p));
          s = s\<lparr>dm_crawler := (dm_crawler s)\<lparr>cr_ihBlacklist := c\<rparr>\<rparr>
      in if black then s else s\<lparr>dm_announcing := dm_announcing s @ [p]\<rparr>)"

definition save_announced :: "'c crawl_env \<Rightarrow> nat \<Rightarrow> 'c daemon \<Rightarrow> 'c daemon" where
  "save_announced env k s =
     s\<lparr>dm_crawler := (dm_crawler s)\<lparr>cr_db := fst (SavePeer (ce_sql env) (dm_announcing s ! k) (cr_db (dm_crawler s)))\<rparr>,
       dm_announcing := take k (dm_announcing s) @ drop (Suc k) (dm_announcing s)\<rparr>"

text \<open>
  The steps. The database may fail differently, and peers answer differently, in each: \<open>sql\<close>, \<open>dial\<close>. A
  query for pending peers that fails is logged and tried again. A fetch that panics ends the process and
  is no step.
\<close>

inductive daemon_step :: "'c crawl_env \<Rightarrow> worker list \<Rightarrow> 'c daemon \<Rightarrow> 'c daemon \<Rightarrow> bool" for env ws where
  query: "dm_todo s = [] \<Longrightarrow> PendingInfohashes sql 10 (cr_db (dm_crawler s)) = Ok ps \<Longrightarrow>
    daemon_step env ws s (s\<lparr>dm_todo := ps\<rparr>)"
| query_failed: "dm_todo s = [] \<Longrightarrow> PendingInfohashes sql 10 (cr_db (dm_crawler s)) = Err e \<Longrightarrow> daemon_step env ws s s"
| assign: "dm_todo s = p # ps \<Longrightarrow> i < length (dm_workers s) \<Longrightarrow> dm_workers s ! i = Ready \<Longrightarrow>
    daemon_step env ws s (s\<lparr>dm_todo := ps, dm_workers := (dm_workers s)[i := Fetching p]\<rparr>)"
| fetch: "i < length (dm_workers s) \<Longrightarrow> dm_workers s ! i = Fetching p \<Longrightarrow>
    fetch_phase (env\<lparr>ce_dial := dial\<rparr>) self (ws ! i) p = Ok ph \<Longrightarrow>
    daemon_step env ws s (s\<lparr>dm_workers := (dm_workers s)[i := ph]\<rparr>)"
| store: "i < length (dm_workers s) \<Longrightarrow> store_phase (env\<lparr>ce_sql := sql\<rparr>) (dm_workers s ! i, dm_crawler s) = (ph, c) \<Longrightarrow>
    daemon_step env ws s (s\<lparr>dm_crawler := c, dm_workers := (dm_workers s)[i := ph]\<rparr>)"
| check: "daemon_step env ws s (check_announce env p s)"
| announce: "k < length (dm_announcing s) \<Longrightarrow> daemon_step env ws s (save_announced (env\<lparr>ce_sql := sql\<rparr>) k s)"
| node_bad: "daemon_step env ws s (s\<lparr>dm_crawler := node_onBadPeer (env\<lparr>ce_sql := sql\<rparr>) p (dm_crawler s)\<rparr>)"

text \<open>After \<^verbatim>\<open>main\<close> has started everything.\<close>

definition daemon_init :: "'c crawler \<Rightarrow> worker list \<Rightarrow> 'c daemon" where
  "daemon_init st ws = \<lparr>dm_crawler = st, dm_todo = [], dm_workers = map (\<lambda>_. Ready) ws, dm_announcing = []\<rparr>"

section \<open>A worker that is not interrupted\<close>

lemma store_phase_Ready: "(store_phase env ^^ n) (Ready, st) = (Ready, st)"
  by (induction n) simp_all

lemma forget_in_phases: "(store_phase env ^^ 2) (Forgetting t, st) = (Ready, forget_torrent env t st)"
  by (simp add: numeral_2_eq_2 forget_torrent_def)

lemma new_torrent_in_phases:
  "onNewTorrent env t st = and_then (tag_phase env t) (\<lambda>ph. Ok (snd ((store_phase env ^^ 3) (ph, st))))"
  "tag_phase env t = Ok ph \<Longrightarrow> fst ((store_phase env ^^ 3) (ph, st)) = Ready"
proof -
  have three: "(store_phase env ^^ 3) x = (store_phase env ^^ 2) (store_phase env x)" for x
    using funpow_Suc_right [of 2 "store_phase env"] by simp
  have forget: "(store_phase env ^^ 3) (Forgetting t, st) = (Ready, forget_torrent env t st)" for t st
    using funpow.simps(2) [of 2 "store_phase env"] by (simp add: forget_in_phases)
  have save: "(store_phase env ^^ 3) (Saving t, st) =
      (let (db, r) = SaveTorrent (ce_sql env) t (cr_db st); st = st\<lparr>cr_db := db\<rparr>
       in (Ready, if r = Ok () then st else forget_torrent env t st))" for t st
    by (simp add: three forget_in_phases store_phase_Ready split: prod.splits)
  show "onNewTorrent env t st = and_then (tag_phase env t) (\<lambda>ph. Ok (snd ((store_phase env ^^ 3) (ph, st))))"
    by (cases "tagTorrent (ce_ord env) t (ce_tagREs env)")
      (simp_all add: onNewTorrent_def tag_phase_def forget save Let_def split: prod.splits)
  show "tag_phase env t = Ok ph \<Longrightarrow> fst ((store_phase env ^^ 3) (ph, st)) = Ready"
    by (auto simp: tag_phase_def and_then_Ok_iff forget save Let_def split: prod.splits if_splits)
qed

text \<open>A worker reports at most one torrent or one bad peer for the peer it is given.\<close>

lemma worker_round_reports:
  assumes "worker_round dec enc dial self (w\<lparr>w_torrents := [], w_bad := []\<rparr>) p = Ok w'"
  shows "(w_torrents w' = [] \<and> (w_bad w' = [] \<or> w_bad w' = [p])) \<or> (\<exists>t. w_torrents w' = [t] \<and> w_bad w' = [])"
  using assms by (cases rule: worker_round_cases) auto

lemma bad_peer_in_phases:
  "(store_phase env ^^ 3) (Dropping p, st) = (Ready, onBadPeer env p st)"
  by (simp add: numeral_3_eq_3 onBadPeer_def)

lemma work_on_phases_eq:
  "work_on env self w p st =
     and_then (fetch_phase env self w p) (\<lambda>ph. Ok (snd ((store_phase env ^^ 3) (ph, st))))"
proof (cases "worker_round (DecodeDict (ce_env env)) (Encode (ce_env env)) (ce_dial env) self
      (w\<lparr>w_torrents := [], w_bad := []\<rparr>) p")
  case (Ok w')
  from worker_round_reports [OF this] consider "w_torrents w' = []" "w_bad w' = []" | "w_torrents w' = []" "w_bad w' = [p]"
    | t where "w_torrents w' = [t]" "w_bad w' = []" by blast
  then show ?thesis
  proof cases
    case (3 t)
    with Ok show ?thesis by (cases "tag_phase env t") (simp_all add: work_on_def fetch_phase_def new_torrent_in_phases(1))
  qed (simp_all add: work_on_def fetch_phase_def Ok store_phase_Ready bad_peer_in_phases)
qed (simp_all add: work_on_def fetch_phase_def)

lemma fetch_phase_Ready: "fetch_phase env self w p = Ok ph \<Longrightarrow> fst ((store_phase env ^^ 3) (ph, st)) = Ready"
proof -
  assume "fetch_phase env self w p = Ok ph"
  then obtain w' where w': "worker_round (DecodeDict (ce_env env)) (Encode (ce_env env)) (ce_dial env) self
      (w\<lparr>w_torrents := [], w_bad := []\<rparr>) p = Ok w'"
    "(case w_torrents w' of t # ts \<Rightarrow> tag_phase env t | [] \<Rightarrow> (case w_bad w' of q # qs \<Rightarrow> Ok (Dropping q) | [] \<Rightarrow> Ok Ready)) = Ok ph"
    by (auto simp: fetch_phase_def and_then_Ok_iff)
  with worker_round_reports [OF w'(1)] show ?thesis
    by (auto simp: store_phase_Ready bad_peer_in_phases new_torrent_in_phases(2))
qed

section \<open>What the index holds\<close>

text \<open>A torrent a worker is about to save has been verified and tagged, and has no tag to skip.\<close>

definition verified :: "'c crawl_env \<Rightarrow> Torrent \<Rightarrow> bool" where
  "verified env t \<longleftrightarrow>
     (\<exists>md t' tags. TorrentFromMetadata (DecodeDict (ce_env env)) (t_Infohash t) md = Ok t' \<and> t = t'\<lparr>t_Tags := tags\<rparr> \<and>
        tagTorrent (ce_ord env) t' (ce_tagREs env) = Ok tags \<and> \<not> skipped (ce_skipTags env) tags)"

lemma verifiedI:
  "TorrentFromMetadata (DecodeDict (ce_env env)) (t_Infohash t) md = Ok t \<Longrightarrow> tagTorrent (ce_ord env) t (ce_tagREs env) = Ok tags \<Longrightarrow>
   \<not> skipped (ce_skipTags env) tags \<Longrightarrow> verified env (t\<lparr>t_Tags := tags\<rparr>)"
  unfolding verified_def by (intro exI [of _ md] exI [of _ t] exI [of _ tags]) simp

definition phase_ok :: "'c crawl_env \<Rightarrow> phase \<Rightarrow> bool" where
  "phase_ok env ph \<longleftrightarrow> (\<forall>t. ph = Saving t \<longrightarrow> verified env t)"

definition daemon_ok :: "'c crawl_env \<Rightarrow> 'c daemon \<Rightarrow> bool" where
  "daemon_ok env s \<longleftrightarrow> index_ok env (dm_crawler s) \<and> (\<forall>ph \<in> set (dm_workers s). phase_ok env ph)"

lemma daemon_ok_update:
  "daemon_ok env s \<Longrightarrow> phase_ok env ph \<Longrightarrow> index_ok env c \<Longrightarrow>
   daemon_ok env (s\<lparr>dm_crawler := c, dm_workers := (dm_workers s)[i := ph]\<rparr>)"
  "daemon_ok env s \<Longrightarrow> phase_ok env ph \<Longrightarrow> daemon_ok env (s\<lparr>dm_workers := (dm_workers s)[i := ph]\<rparr>)"
  by (auto simp: daemon_ok_def dest: set_update_subset_insert [THEN subsetD])

lemma fetch_phase_ok:
  assumes "fetch_phase env self w p = Ok ph"
  shows "phase_ok env ph"
proof -
  from assms obtain w' where w': "worker_round (DecodeDict (ce_env env)) (Encode (ce_env env)) (ce_dial env) self
      (w\<lparr>w_torrents := [], w_bad := []\<rparr>) p = Ok w'"
    and ph: "(case w_torrents w' of t # ts \<Rightarrow> tag_phase env t | [] \<Rightarrow> (case w_bad w' of q # qs \<Rightarrow> Ok (Dropping q) | [] \<Rightarrow> Ok Ready)) = Ok ph"
    by (auto simp: fetch_phase_def and_then_Ok_iff)
  from w' show ?thesis
  proof (cases rule: worker_round_cases)
    case (3 t md)
    with TorrentFromMetadata_Ok_hash [OF 3(2)] have "TorrentFromMetadata (DecodeDict (ce_env env)) (t_Infohash t) md = Ok t" by simp
    with 3 ph show ?thesis by (auto simp: phase_ok_def tag_phase_def and_then_Ok_iff intro: verifiedI split: if_splits)
  qed (use ph in \<open>auto simp: phase_ok_def\<close>)
qed

lemma store_phase_ok:
  assumes "index_ok env c" "phase_ok env ph"
  shows "index_ok env (snd (store_phase env (ph, c))) \<and> phase_ok env (fst (store_phase env (ph, c)))"
proof (cases ph)
  case (Saving t)
  with assms(2) obtain md t' tags where t: "TorrentFromMetadata (DecodeDict (ce_env env)) (t_Infohash t) md = Ok t'"
    "t = t'\<lparr>t_Tags := tags\<rparr>" "tagTorrent (ce_ord env) t' (ce_tagREs env) = Ok tags" "\<not> skipped (ce_skipTags env) tags"
    by (auto simp: phase_ok_def verified_def)
  from TorrentFromMetadata_Ok_hash [OF t(1)] have ih: "t_Infohash t = sha1_sum md" by simp
  have "entry_sound env (t_Infohash t)
      (Some (t_Name t'), t_Size t', map (\<lambda>f. (f_Path f, f_Size f)) (t_Files t'), set tags)"
    using t(1,3,4) ih unfolding entry_sound_def by blast
  then have "entry_sound env (t_Infohash t)
      (Some (t_Name t), t_Size t, map (\<lambda>f. (f_Path f, f_Size f)) (t_Files t), set (t_Tags t))"
    by (simp add: t(2))
  then have "sq.entries_ok (entry_sound env) (fst (SaveTorrent (ce_sql env) t (cr_db c)))"
    by (intro sq.save_torrent_entries [OF assms(1)]) (auto intro: entry_sound_mono)
  with Saving show ?thesis by (auto simp: phase_ok_def split: prod.splits)
qed (use assms in \<open>auto simp: phase_ok_def sq.remove_torrent_entries sq.remove_peer_entries\<close>)

lemma verified_step [simp]:
  "phase_ok (env\<lparr>ce_sql := sql\<rparr>) = phase_ok env" "phase_ok (env\<lparr>ce_dial := d\<rparr>) = phase_ok env"
  by (simp_all add: phase_ok_def verified_def fun_eq_iff)

lemma save_announced_ok: "daemon_ok env s \<Longrightarrow> daemon_ok env (save_announced env k s)"
  by (auto simp: daemon_ok_def save_announced_def entry_sound_def intro: sq.save_peer_entries)

lemma daemon_ok_sql [simp]: "daemon_ok (env\<lparr>ce_sql := sql\<rparr>) = daemon_ok env"
  by (simp add: daemon_ok_def fun_eq_iff)

lemma daemon_step_ok: "daemon_step env ws s s' \<Longrightarrow> daemon_ok env s \<Longrightarrow> daemon_ok env s'"
proof (induction rule: daemon_step.induct)
  case (assign s p ps i)
  then show ?case using daemon_ok_update(2) [of env s "Fetching p" i] by (simp add: daemon_ok_def phase_ok_def)
next
  case (fetch i s p dial self ph)
  then show ?case using fetch_phase_ok [of "env\<lparr>ce_dial := dial\<rparr>" self "ws ! i" p ph] by (simp add: daemon_ok_update)
next
  case (store i s sql ph c)
  then have "index_ok env (dm_crawler s)" "phase_ok env (dm_workers s ! i)" by (auto simp: daemon_ok_def)
  with store(2) have "index_ok env c \<and> phase_ok env ph"
    using store_phase_ok [of "env\<lparr>ce_sql := sql\<rparr>" "dm_crawler s" "dm_workers s ! i"] by simp
  with store(3) show ?case by (simp add: daemon_ok_update)
next
  case (check s p)
  then show ?case by (auto simp: check_announce_def daemon_ok_def Let_def split: prod.splits)
next
  case (announce k s sql)
  then show ?case using save_announced_ok [of "env\<lparr>ce_sql := sql\<rparr>" s k] by simp
next
  case (node_bad s sql p)
  then show ?case using onBadPeer_ok(2) [of "env\<lparr>ce_sql := sql\<rparr>" "dm_crawler s" p] by (simp add: daemon_ok_def)
qed (simp_all add: daemon_ok_def)

lemma daemon_init_ok: "cr_db st = empty_database \<Longrightarrow> daemon_ok env (daemon_init st ws)"
  using empty_database_wf by (auto simp: daemon_ok_def daemon_init_def sq.entries_ok_def stored_index_empty phase_ok_def)

lemma daemon_reachable_ok:
  "rtranclp (daemon_step env ws) (daemon_init st ws) s \<Longrightarrow> cr_db st = empty_database \<Longrightarrow> daemon_ok env s"
  by (induction rule: rtranclp_induct) (auto intro: daemon_init_ok daemon_step_ok)

section \<open>Handing out\<close>

lemma store_step_at:
  "i < length (dm_workers s) \<Longrightarrow>
   daemon_step env ws s (s\<lparr>dm_crawler := snd (store_phase env (dm_workers s ! i, dm_crawler s)),
     dm_workers := (dm_workers s)[i := fst (store_phase env (dm_workers s ! i, dm_crawler s))]\<rparr>)"
  using daemon_step.store [where i = i and s = s and env = env and ws = ws and sql = "ce_sql env"] by simp

lemma store_steps_at:
  "i < length (dm_workers s) \<Longrightarrow> (store_phase env ^^ n) (dm_workers s ! i, dm_crawler s) = (ph, c) \<Longrightarrow>
   rtranclp (daemon_step env ws) s (s\<lparr>dm_crawler := c, dm_workers := (dm_workers s)[i := ph]\<rparr>)"
proof (induction n arbitrary: ph c)
  case (Suc n)
  obtain ph1 c1 where one: "(store_phase env ^^ n) (dm_workers s ! i, dm_crawler s) = (ph1, c1)" by (rule prod.exhaust)
  with Suc.prems(2) have two: "store_phase env (ph1, c1) = (ph, c)" by simp
  let ?s = "s\<lparr>dm_crawler := c1, dm_workers := (dm_workers s)[i := ph1]\<rparr>"
  have "daemon_step env ws ?s (s\<lparr>dm_crawler := c, dm_workers := (dm_workers s)[i := ph]\<rparr>)"
    using store_step_at [of i ?s env ws] Suc.prems(1) two by simp
  with Suc.IH [OF Suc.prems(1) one] show ?case by simp
next
  case 0
  then have "s\<lparr>dm_crawler := c, dm_workers := (dm_workers s)[i := ph]\<rparr> = s" by auto
  then show ?case by simp
qed

text \<open>A fetch can always end: the connection may fail.\<close>

lemma fetch_may_fail:
  assumes "w_log w" "w_OnBadPeer w"
  shows "fetch_phase (env\<lparr>ce_dial := (\<lambda>_. Err ReadError)\<rparr>) self w p = Ok (Dropping p)"
  using assms by (simp add: fetch_phase_def worker_round_def fetchMetadata_def fetch_body_def)

lemma three_phases:
  "ph \<noteq> Ready \<Longrightarrow> (\<forall>p. ph \<noteq> Fetching p) \<Longrightarrow> fst ((store_phase env ^^ 3) (ph, st)) = Ready"
  by (cases ph) (auto simp: numeral_3_eq_3 split: prod.splits)

lemma worker_gets_ready:
  assumes "i < length (dm_workers s)" "w_log (ws ! i)" "w_OnBadPeer (ws ! i)"
  shows "\<exists>c. rtranclp (daemon_step env ws) s (s\<lparr>dm_crawler := c, dm_workers := (dm_workers s)[i := Ready]\<rparr>)"
proof (cases "\<exists>p. dm_workers s ! i = Fetching p")
  case True
  then obtain p where p: "dm_workers s ! i = Fetching p" by blast
  let ?s = "s\<lparr>dm_workers := (dm_workers s)[i := Dropping p]\<rparr>"
  have "daemon_step env ws s ?s"
    using daemon_step.fetch [OF assms(1) p fetch_may_fail [OF assms(2,3)]] .
  moreover have "rtranclp (daemon_step env ws) ?s
      (?s\<lparr>dm_crawler := onBadPeer env p (dm_crawler s), dm_workers := (dm_workers ?s)[i := Ready]\<rparr>)"
    using assms(1) by (intro store_steps_at [where n = 3]) (simp_all add: bad_peer_in_phases)
  ultimately show ?thesis by (auto intro: converse_rtranclp_into_rtranclp)
next
  case False
  obtain ph c where run: "(store_phase env ^^ 3) (dm_workers s ! i, dm_crawler s) = (ph, c)" by (rule prod.exhaust)
  have "ph = Ready"
  proof (cases "dm_workers s ! i = Ready")
    case True
    with run show ?thesis by (simp add: store_phase_Ready)
  next
    case other: False
    from three_phases [OF other, of env "dm_crawler s"] False run show ?thesis by simp
  qed
  with store_steps_at [OF assms(1) run] show ?thesis by blast
qed

lemma hand_out_one:
  assumes "dm_todo s = p # ps" "i < length (dm_workers s)" "w_log (ws ! i)" "w_OnBadPeer (ws ! i)"
  shows "\<exists>s'. rtranclp (daemon_step env ws) s s' \<and> dm_todo s' = ps \<and> length (dm_workers s') = length (dm_workers s)"
proof -
  from worker_gets_ready [OF assms(2-4), of env] obtain c where
    c: "rtranclp (daemon_step env ws) s (s\<lparr>dm_crawler := c, dm_workers := (dm_workers s)[i := Ready]\<rparr>)" by blast
  let ?s = "s\<lparr>dm_crawler := c, dm_workers := (dm_workers s)[i := Ready]\<rparr>"
  have "daemon_step env ws ?s (?s\<lparr>dm_todo := ps, dm_workers := (dm_workers ?s)[i := Fetching p]\<rparr>)"
    by (rule daemon_step.assign) (use assms in auto)
  with c have "rtranclp (daemon_step env ws) s (?s\<lparr>dm_todo := ps, dm_workers := (dm_workers ?s)[i := Fetching p]\<rparr>)" by simp
  then show ?thesis
    by (intro exI [of _ "?s\<lparr>dm_todo := ps, dm_workers := (dm_workers ?s)[i := Fetching p]\<rparr>"] conjI) simp_all
qed

lemma daemon_step_workers: "daemon_step env ws s s' \<Longrightarrow> length (dm_workers s') = length (dm_workers s)"
  by (induction rule: daemon_step.induct) (auto simp: check_announce_def save_announced_def Let_def split: prod.splits)

lemma daemon_workers: "rtranclp (daemon_step env ws) s s' \<Longrightarrow> length (dm_workers s') = length (dm_workers s)"
  by (induction rule: rtranclp_induct) (simp_all add: daemon_step_workers)

lemma hand_out_all:
  assumes "i < length (dm_workers s)" "w_log (ws ! i)" "w_OnBadPeer (ws ! i)"
  shows "\<exists>s'. rtranclp (daemon_step env ws) s s' \<and> dm_todo s' = []"
  using assms(1)
proof (induction "dm_todo s" arbitrary: s)
  case (Cons p ps)
  from hand_out_one [OF Cons.hyps(2) [symmetric] Cons.prems assms(2,3), of env] obtain s1 where
    s1: "rtranclp (daemon_step env ws) s s1" "dm_todo s1 = ps" "length (dm_workers s1) = length (dm_workers s)" by blast
  with Cons.hyps(1) [of s1] Cons.prems obtain s' where "rtranclp (daemon_step env ws) s1 s'" "dm_todo s' = []" by auto
  with s1(1) show ?case by (meson rtranclp_trans)
qed auto

section \<open>Properties\<close>



text \<open>Nothing marks a peer as handed out: while a worker is fetching from the only pending peer the next query
  returns it again, and a second worker is given the same peer.\<close>

theorem peer_handed_out_twice:
  assumes "dm_todo s = []" "PendingInfohashes sql 10 (cr_db (dm_crawler s)) = Ok [p]"
    and "i < length (dm_workers s)" "j < length (dm_workers s)" "i \<noteq> j" "dm_workers s ! i = Ready" "dm_workers s ! j = Ready"
  shows "\<exists>s'. rtranclp (daemon_step env ws) s s' \<and> dm_workers s' ! i = Fetching p \<and> dm_workers s' ! j = Fetching p"
proof -
  let ?give = "\<lambda>s k. s\<lparr>dm_todo := [], dm_workers := (dm_workers s)[k := Fetching p]\<rparr>"
  have give: "rtranclp (daemon_step env ws) s (?give s k)"
    if "dm_todo s = []" "PendingInfohashes sql 10 (cr_db (dm_crawler s)) = Ok [p]" "k < length (dm_workers s)" "dm_workers s ! k = Ready" for s k
  proof -
    have "daemon_step env ws s (s\<lparr>dm_todo := [p]\<rparr>)" using daemon_step.query [OF that(1,2)] .
    moreover have "daemon_step env ws (s\<lparr>dm_todo := [p]\<rparr>) (?give (s\<lparr>dm_todo := [p]\<rparr>) k)"
      by (rule daemon_step.assign) (use that in auto)
    ultimately show ?thesis by (auto intro: converse_rtranclp_into_rtranclp)
  qed
  have "rtranclp (daemon_step env ws) s (?give (?give s i) j)"
    using give [OF assms(1,2,3,6)] give [of "?give s i" j] assms by (auto intro: rtranclp_trans)
  with assms(3-5) show ?thesis by (intro exI [of _ "?give (?give s i) j"]) simp
qed

text \<open>An announcement and the forgetting of its torrent race: when the announcement has passed the blacklist before the
  torrent is put on it, it is saved after the torrent is removed, and the blacklisted infohash is pending
  again.\<close>

theorem blacklisted_yet_pending:
  assumes "i < length (dm_workers s)" "dm_workers s ! i = Forgetting t" "k < length (dm_announcing s)"
    and "p = dm_announcing s ! k" "p_Infohash p = t_Infohash t"
    and "no_faults (ce_sql env)" "cache_law (ce_env env)" "db_wf (cr_db (dm_crawler s))"
    and "UDPAddr_String (p_Addr p) \<notin> pr_address ` set (db_peers (cr_db (dm_crawler s)))"
  shows "\<exists>s'. rtranclp (daemon_step env ws) s s' \<and>
    fst (cache_Get (ce_env env) (cr_ihBlacklist (dm_crawler s')) (Infohash_String (t_Infohash t))) \<and>
    stored_index (cr_db (dm_crawler s')) (t_Infohash t) = Some (None, 0, [], {})"
proof -
  let ?c = "forget_torrent env t (dm_crawler s)"
  let ?s = "s\<lparr>dm_crawler := ?c, dm_workers := (dm_workers s)[i := Ready]\<rparr>"
  have run: "rtranclp (daemon_step env ws) s ?s"
    using assms(1,2) by (intro store_steps_at [where n = 2]) (simp_all only: forget_in_phases)
  have db: "cr_db ?c = sql_removeTorrent (t_Infohash t) (cr_db (dm_crawler s))"
    by (simp add: forget_torrent_def RemoveTorrent_fst no_faults_exec(2) [OF assms(6)])
  have wf: "db_wf (cr_db ?c)" using assms(8) by (simp add: db sql_remove_wf)
  moreover have "UDPAddr_String (p_Addr p) \<notin> pr_address ` set (db_peers (cr_db ?c))"
    using assms(9) by (simp add: db sql_removeTorrent_def)
  ultimately obtain db' where save: "SavePeer (ce_sql env) p (cr_db ?c) = (db', Ok ())"
    using SavePeer_succeeds [OF assms(6)] by blast
  have "daemon_step env ws ?s (save_announced env k ?s)"
    using daemon_step.announce [of k ?s env ws "ce_sql env"] assms(3) by simp
  with run have "rtranclp (daemon_step env ws) s (save_announced env k ?s)" by simp
  moreover have "fst (cache_Get (ce_env env) (cr_ihBlacklist ?c) (Infohash_String (t_Infohash t)))"
    using assms(7) by (simp add: forget_torrent_def cache_law_def)
  moreover have "cr_db (dm_crawler (save_announced env k ?s)) = db'" "cr_ihBlacklist (dm_crawler (save_announced env k ?s)) = cr_ihBlacklist ?c"
    using save assms(4) by (simp_all add: save_announced_def)
  moreover have "stored_index db' (t_Infohash t) = Some (None, 0, [], {})"
    using SavePeer_index [OF wf save] assms(5) by simp
  ultimately show ?thesis by metis
qed

section \<open>Concrete applications\<close>

text \<open>Three workers, as by default, that all wait.\<close>

definition sample_daemon :: "database \<Rightarrow> string list daemon" where
  "sample_daemon db = daemon_init (sample_crawler\<lparr>cr_db := db\<rparr>) (startBTWorkers default_flags)"

lemma sample_daemon_simps:
  "dm_todo (sample_daemon db) = []" "dm_workers (sample_daemon db) = [Ready, Ready, Ready]"
  "dm_announcing (sample_daemon db) = []" "dm_crawler (sample_daemon db) = sample_crawler\<lparr>cr_db := db\<rparr>"
  by (simp_all add: sample_daemon_def daemon_init_def startBTWorkers_def start_workers_spec default_flags_def upto.simps)


lemma uninterrupted_worker:
  assumes "work_on env self w p st = Ok st'" "PendingInfohashes sql 10 (cr_db st) = Ok [p]"
  shows "rtranclp (daemon_step env [w]) (daemon_init st [w]) (daemon_init st' [w])"
proof -
  let ?s = "daemon_init st [w]"
  from assms(1) obtain ph where ph: "fetch_phase env self w p = Ok ph" "st' = snd ((store_phase env ^^ 3) (ph, st))"
    by (auto simp: work_on_phases_eq and_then_Ok_iff)
  with fetch_phase_Ready [OF ph(1), of st] have three: "(store_phase env ^^ 3) (ph, st) = (Ready, st')"
    by (simp add: prod_eq_iff)
  have "daemon_step env [w] ?s (?s\<lparr>dm_todo := [p]\<rparr>)"
    by (rule daemon_step.query) (use assms(2) in \<open>simp_all add: daemon_init_def\<close>)
  moreover have "daemon_step env [w] (?s\<lparr>dm_todo := [p]\<rparr>) (?s\<lparr>dm_workers := [Fetching p]\<rparr>)"
    using daemon_step.assign [where s = "?s\<lparr>dm_todo := [p]\<rparr>" and i = 0 and env = env and ws = "[w]"] by (simp add: daemon_init_def)
  moreover have "daemon_step env [w] (?s\<lparr>dm_workers := [Fetching p]\<rparr>) (?s\<lparr>dm_workers := [ph]\<rparr>)"
    using daemon_step.fetch [where s = "?s\<lparr>dm_workers := [Fetching p]\<rparr>" and i = 0 and env = env and ws = "[w]"
        and dial = "ce_dial env"] ph(1) by simp
  moreover have "rtranclp (daemon_step env [w]) (?s\<lparr>dm_workers := [ph]\<rparr>) (daemon_init st' [w])"
    using store_steps_at [where s = "?s\<lparr>dm_workers := [ph]\<rparr>" and i = 0 and n = 3 and env = env and ws = "[w]"] three by (simp add: daemon_init_def)
  ultimately show ?thesis by (meson converse_rtranclp_into_rtranclp)
qed

end
