(* ===== verification/Pg_Tables.thy ===== *)
theory Pg_Tables
  imports Store
begin

text \<open>
  The schema and the prepared statements of \<^verbatim>\<open>db/pgsql.go\<close>, as functions on tables. A \<^verbatim>\<open>serial\<close> column draws
  its values from a sequence, which never goes back: not when a row is in conflict, not when the statement
  fails, not when the transaction is rolled back. \<^verbatim>\<open>on conflict do update\<close> keeps the row and its number.
  Errors of the server are \<open>Postgres\<close> with the SQLSTATE code. What the server adds of its own (faults,
  the encoding it accepts, text search, the order of rows the statement leaves open) is in \<open>pg_env\<close>.
\<close>

section \<open>Tables\<close>

record pg_torrent =
  pt_id :: int
  pt_infohash :: "byte list"
  pt_size :: "int option"
  pt_name :: "string option"
  pt_created :: gotime
  pt_updated :: gotime
  pt_tsv :: "string option"

record pg_peer =
  pp_id :: int
  pp_address :: string
  pp_created :: gotime
  pp_updated :: gotime

text \<open>
  Files and tags have the columns they have in SQLite. A link is the pair of its two columns, the torrent
  last. \<open>pg_settings\<close> is the table \<^verbatim>\<open>settings\<close>, if there is one. The last four fields are the sequences.
\<close>

record pgdb =
  pg_settings :: "int list option"
  pg_torrents :: "pg_torrent list"
  pg_files :: "file_row list"
  pg_tags :: "tag_row list"
  pg_tags_torrents :: "(int \<times> int) list"
  pg_peers :: "pg_peer list"
  pg_peers_torrents :: "(int \<times> int) list"
  pg_torrents_seq :: int
  pg_files_seq :: int
  pg_tags_seq :: int
  pg_peers_seq :: int

text \<open>The database the schema describes, before anything is saved.\<close>

definition empty_pgdb :: pgdb where
  "empty_pgdb = \<lparr>pg_settings = Some [1], pg_torrents = [], pg_files = [], pg_tags = [], pg_tags_torrents = [],
     pg_peers = [], pg_peers_torrents = [], pg_torrents_seq = 0, pg_files_seq = 0, pg_tags_seq = 0, pg_peers_seq = 0\<rparr>"

text \<open>
  \<open>pe_text\<close>: texts the server's encoding accepts. \<open>pe_waits\<close>: whether the update of a tag waits for an open
  transaction that has linked it. \<open>pe_tsv\<close>: the vector of a name (weight A) and of the paths (weight B).
  \<open>pe_match\<close>, \<open>pe_rank\<close>: how a vector answers a query. \<open>pe_scan\<close>, \<open>pe_join\<close>, \<open>pe_tag_order\<close>, \<open>pe_file_order\<close>: the
  order in which rows are read, joined, and sorted by path under the collation; \<open>pe_agg_order\<close>: the order
  in which paths are aggregated.
\<close>

record pg_env =
  pe_fault :: "pgdb \<Rightarrow> string \<Rightarrow> go_error option"
  pe_now :: gotime
  pe_text :: "string \<Rightarrow> bool"
  pe_waits :: bool
  pe_tsv :: "string \<Rightarrow> string \<Rightarrow> string"
  pe_match :: "string \<Rightarrow> string \<Rightarrow> bool"
  pe_rank :: "string \<Rightarrow> string \<Rightarrow> int"
  pe_scan :: "pg_torrent list \<Rightarrow> pg_torrent list"
  pe_join :: "pg_torrent list \<Rightarrow> pg_torrent list"
  pe_tag_order :: "tag_row list \<Rightarrow> tag_row list"
  pe_file_order :: "file_row list \<Rightarrow> file_row list"
  pe_agg_order :: "file_row list \<Rightarrow> file_row list"
  pe_resolver :: resolver

type_synonym 'a pg_result = "pgdb \<times> 'a outcome"

section \<open>Columns\<close>

text \<open>The next value of a \<^verbatim>\<open>serial\<close> column; the column holds 32 bits.\<close>

definition pg_nextval :: "int \<Rightarrow> int outcome" where
  "pg_nextval drawn = (if drawn < 2 ^ 31 - 1 then Ok (drawn + 1) else Err (Postgres ''2200H''))"

definition pg_text :: "pg_env \<Rightarrow> string \<Rightarrow> unit outcome" where
  "pg_text env s = (if pe_text env s then Ok () else Err (Postgres ''22021''))"

text \<open>\<^verbatim>\<open>character varying(n)\<close> counts characters, not bytes, and drops spaces beyond the limit.\<close>

definition utf8_continuation :: "char \<Rightarrow> bool" where
  "utf8_continuation c \<longleftrightarrow> of_char c div (64 :: nat) = 2"

fun split_chars :: "nat \<Rightarrow> string \<Rightarrow> string \<times> string" where
  "split_chars n [] = ([], [])"
| "split_chars n (c # s) =
     (if utf8_continuation c then apfst (Cons c) (split_chars n s)
      else case n of 0 \<Rightarrow> ([], c # s) | Suc m \<Rightarrow> apfst (Cons c) (split_chars m s))"

definition pg_varchar :: "nat \<Rightarrow> string \<Rightarrow> string outcome" where
  "pg_varchar n s =
     (case split_chars n s of (a, b) \<Rightarrow> if list_all (\<lambda>c. c = CHR '' '') b then Ok a else Err (Postgres ''22001''))"

lemma split_chars_append: "split_chars n s = (a, b) \<Longrightarrow> s = a @ b"
  by (induction n s arbitrary: a b rule: split_chars.induct) (fastforce simp: apfst_def map_prod_def split: if_splits prod.splits nat.splits)+

lemma split_chars_short: "length s \<le> n \<Longrightarrow> split_chars n s = (s, [])"
  by (induction n s rule: split_chars.induct) (auto split: nat.splits)

lemma pg_varchar_short: "length s \<le> n \<Longrightarrow> pg_varchar n s = Ok s"
  by (simp add: pg_varchar_def split_chars_short)

section \<open>Statements that write\<close>

definition pg_removeTorrent :: "byte list \<Rightarrow> pgdb \<Rightarrow> unit pg_result" where
  "pg_removeTorrent ih db =
     (let gone = map pt_id (filter (\<lambda>r. pt_infohash r = ih) (pg_torrents db)) in
      (db\<lparr>pg_torrents := filter (\<lambda>r. pt_infohash r \<noteq> ih) (pg_torrents db),
          pg_files := filter (\<lambda>f. fr_torrent_id f \<notin> set gone) (pg_files db),
          pg_tags_torrents := filter (\<lambda>l. snd l \<notin> set gone) (pg_tags_torrents db),
          pg_peers_torrents := filter (\<lambda>l. snd l \<notin> set gone) (pg_peers_torrents db)\<rparr>, Ok ()))"

definition pg_removePeer :: "pg_env \<Rightarrow> string \<Rightarrow> pgdb \<Rightarrow> unit pg_result" where
  "pg_removePeer env addr db =
     store_then (db, pg_text env addr) (\<lambda>_ db.
       let gone = map pp_id (filter (\<lambda>r. pp_address r = addr) (pg_peers db)) in
       (db\<lparr>pg_peers := filter (\<lambda>r. pp_address r \<noteq> addr) (pg_peers db),
           pg_peers_torrents := filter (\<lambda>l. fst l \<notin> set gone) (pg_peers_torrents db)\<rparr>, Ok ()))"

text \<open>
  \<^verbatim>\<open>insert into torrents ... on conflict (infohash) do update ... returning id\<close>: \<open>row\<close> is what is inserted under
  the number drawn, \<open>upd\<close> what happens to the row that is there.
\<close>

definition pg_upsert_torrent :: "pg_torrent \<Rightarrow> (pg_torrent \<Rightarrow> pg_torrent) \<Rightarrow> pgdb \<Rightarrow> int pg_result" where
  "pg_upsert_torrent row upd db =
     store_then (db, pg_nextval (pg_torrents_seq db)) (\<lambda>i db.
       let db' = db\<lparr>pg_torrents_seq := i\<rparr> in
       case find (\<lambda>r. pt_infohash r = pt_infohash row) (pg_torrents db) of
         None \<Rightarrow> (db'\<lparr>pg_torrents := pg_torrents db @ [row\<lparr>pt_id := i\<rparr>]\<rparr>, Ok i)
       | Some r \<Rightarrow>
           (db'\<lparr>pg_torrents := map (\<lambda>x. if pt_infohash x = pt_infohash row then upd x else x) (pg_torrents db)\<rparr>,
            Ok (pt_id r)))"

definition new_torrent_row :: "pg_env \<Rightarrow> byte list \<Rightarrow> int option \<Rightarrow> string option \<Rightarrow> pg_torrent" where
  "new_torrent_row env ih sz name =
     \<lparr>pt_id = 0, pt_infohash = ih, pt_size = sz, pt_name = name, pt_created = pe_now env, pt_updated = pe_now env,
      pt_tsv = None\<rparr>"

definition pg_insertTorrent :: "pg_env \<Rightarrow> string \<Rightarrow> byte list \<Rightarrow> int \<Rightarrow> pgdb \<Rightarrow> int pg_result" where
  "pg_insertTorrent env name ih sz db =
     store_then (db, pg_text env name) (\<lambda>_.
       pg_upsert_torrent (new_torrent_row env ih (Some sz) (Some name))
         (\<lambda>x. x\<lparr>pt_name := Some name, pt_size := Some sz, pt_updated := pe_now env\<rparr>))"

text \<open>One statement inserts the peer, finds or inserts the torrent, and links the two.\<close>

definition pg_insertPeer :: "pg_env \<Rightarrow> string \<Rightarrow> byte list \<Rightarrow> pgdb \<Rightarrow> unit pg_result" where
  "pg_insertPeer env addr ih db =
     store_then (db, and_then (pg_text env addr) (\<lambda>_. pg_nextval (pg_peers_seq db))) (\<lambda>peerID db.
     store_then (db\<lparr>pg_peers_seq := peerID\<rparr>, pg_varchar 50 addr) (\<lambda>address db.
     store_then (pg_upsert_torrent (new_torrent_row env ih None None) (\<lambda>x. x\<lparr>pt_updated := pe_now env\<rparr>) db)
       (\<lambda>torrentID db.
       (db\<lparr>pg_peers := pg_peers db @
             [\<lparr>pp_id = peerID, pp_address = address, pp_created = pe_now env, pp_updated = pe_now env\<rparr>],
           pg_peers_torrents := List.insert (peerID, torrentID) (pg_peers_torrents db)\<rparr>, Ok ()))))"

definition pg_insertTag :: "pg_env \<Rightarrow> string \<Rightarrow> pgdb \<Rightarrow> int pg_result" where
  "pg_insertTag env name db =
     store_then (db, and_then (pg_text env name) (\<lambda>_. pg_nextval (pg_tags_seq db))) (\<lambda>i db.
     store_then (db\<lparr>pg_tags_seq := i\<rparr>, pg_varchar 50 name) (\<lambda>name db.
       case find (\<lambda>t. tg_name t = name) (pg_tags db) of
         None \<Rightarrow> (db\<lparr>pg_tags := pg_tags db @ [\<lparr>tg_id = i, tg_name = name\<rparr>]\<rparr>, Ok i)
       | Some t \<Rightarrow> (db, Ok (tg_id t))))"

definition pg_insertTagTorrent :: "int \<Rightarrow> int \<Rightarrow> pgdb \<Rightarrow> unit pg_result" where
  "pg_insertTagTorrent tagID torrentID db =
     (if (tagID, torrentID) \<in> set (pg_tags_torrents db) then (db, Ok ())
      else if tagID \<in> set (map tg_id (pg_tags db)) \<and> torrentID \<in> set (map pt_id (pg_torrents db))
      then (db\<lparr>pg_tags_torrents := pg_tags_torrents db @ [(tagID, torrentID)]\<rparr>, Ok ())
      else (db, Err (Postgres ''23503'')))"

definition pg_insertFile :: "pg_env \<Rightarrow> int \<Rightarrow> string \<Rightarrow> int \<Rightarrow> pgdb \<Rightarrow> unit pg_result" where
  "pg_insertFile env torrentID path sz db =
     store_then (db, and_then (pg_text env path) (\<lambda>_. pg_nextval (pg_files_seq db))) (\<lambda>i db.
       if torrentID \<in> set (map pt_id (pg_torrents db))
       then (db\<lparr>pg_files_seq := i,
                pg_files := pg_files db @ [\<lparr>fr_id = i, fr_torrent_id = torrentID, fr_path = path, fr_size = sz\<rparr>]\<rparr>, Ok ())
       else (db\<lparr>pg_files_seq := i\<rparr>, Err (Postgres ''23503'')))"

text \<open>\<^verbatim>\<open>translate(s, from, to)\<close>: a character of \<open>from\<close> becomes the one at its place in \<open>to\<close>, or goes if there is none.\<close>

definition pg_translate :: "string \<Rightarrow> string \<Rightarrow> string \<Rightarrow> string" where
  "pg_translate s src dst =
     concat (map (\<lambda>c. case map_of (zip src [0..<length src]) c of
                        None \<Rightarrow> [c]
                      | Some i \<Rightarrow> if i < length dst then [dst ! i] else []) s)"

fun string_agg :: "string \<Rightarrow> string list \<Rightarrow> string" where
  "string_agg sep [] = []"
| "string_agg sep [s] = s"
| "string_agg sep (s # ss) = s @ sep @ string_agg sep ss"

definition torrent_vector :: "pg_env \<Rightarrow> pgdb \<Rightarrow> pg_torrent \<Rightarrow> string option" where
  "torrent_vector env db r =
     map_option (\<lambda>name.
         pe_tsv env (pg_translate name ''._-'' '' '')
           (pg_translate (string_agg '' '' (map fr_path (pe_agg_order env
              (filter (\<lambda>f. fr_torrent_id f = pt_id r) (pg_files db))))) ''./_-'' '' ''))
       (pt_name r)"

definition pg_updateFTSVectors :: "pg_env \<Rightarrow> int \<Rightarrow> pgdb \<Rightarrow> unit pg_result" where
  "pg_updateFTSVectors env torrentID db =
     (db\<lparr>pg_torrents := map (\<lambda>r. if pt_id r = torrentID then r\<lparr>pt_tsv := torrent_vector env db r\<rparr> else r)
           (pg_torrents db)\<rparr>, Ok ())"

section \<open>Queries\<close>

definition sql_int :: "int option \<Rightarrow> sqlval" where
  "sql_int v = (case v of None \<Rightarrow> SNull | Some i \<Rightarrow> SInt i)"

definition pg_selectFiles :: "pg_env \<Rightarrow> int \<Rightarrow> pgdb \<Rightarrow> sql_row list" where
  "pg_selectFiles env torrentID db =
     map (\<lambda>f. [SInt (fr_id f), SInt (fr_torrent_id f), SText (fr_path f), SInt (fr_size f)])
       (pe_file_order env (filter (\<lambda>f. fr_torrent_id f = torrentID) (pg_files db)))"

definition pg_selectTags :: "pg_env \<Rightarrow> int \<Rightarrow> pgdb \<Rightarrow> sql_row list" where
  "pg_selectTags env torrentID db =
     map (\<lambda>t. [SText (tg_name t)])
       (pe_tag_order env (filter (\<lambda>t. (tg_id t, torrentID) \<in> set (pg_tags_torrents db)) (pg_tags db)))"

text \<open>\<^verbatim>\<open>select *\<close> has the seven columns of the table, the vector last.\<close>

definition pg_getTorrent :: "byte list \<Rightarrow> pgdb \<Rightarrow> sql_row list" where
  "pg_getTorrent ih db =
     map (\<lambda>r. [SInt (pt_id r), SBlob (pt_infohash r), sql_int (pt_size r), sql_text (pt_name r),
               STime (pt_created r), STime (pt_updated r), sql_text (pt_tsv r)])
       (take 1 (filter (\<lambda>r. pt_infohash r = ih) (pg_torrents db)))"

definition pg_tagged :: "string \<Rightarrow> pgdb \<Rightarrow> pg_torrent \<Rightarrow> bool" where
  "pg_tagged tag db r \<longleftrightarrow> (\<exists>t \<in> set (pg_tags db). tg_name t = tag \<and> (tg_id t, pt_id r) \<in> set (pg_tags_torrents db))"

definition pg_offset :: "int \<Rightarrow> 'a list \<Rightarrow> 'a list outcome" where
  "pg_offset n xs = (if n < 0 then Err (Postgres ''2201X'') else Ok (drop (nat n) xs))"

definition pg_limit :: "int \<Rightarrow> 'a list \<Rightarrow> 'a list outcome" where
  "pg_limit n xs = (if n < 0 then Err (Postgres ''2201W'') else Ok (take (nat n) xs))"

definition pg_torrentsByTag :: "pg_env \<Rightarrow> string \<Rightarrow> int \<Rightarrow> pgdb \<Rightarrow> sql_row list outcome" where
  "pg_torrentsByTag env tag off db =
     and_then (pg_text env tag) (\<lambda>_.
     and_then (pg_offset off (sort_key pt_updated (pe_scan env (filter (pg_tagged tag db) (pg_torrents db))))) (\<lambda>rs.
       Ok (map (\<lambda>r. [SInt (pt_id r), SBlob (pt_infohash r), sql_text (pt_name r), sql_int (pt_size r),
                     STime (pt_created r), STime (pt_updated r)]) (take 50 rs))))"

text \<open>The torrents whose vector matches, best rank first, then latest update first; five columns.\<close>

definition pg_found :: "pg_env \<Rightarrow> string \<Rightarrow> pg_torrent \<Rightarrow> bool" where
  "pg_found env query r = (case pt_tsv r of None \<Rightarrow> False | Some v \<Rightarrow> pe_match env v query)"

definition pg_rank :: "pg_env \<Rightarrow> string \<Rightarrow> pg_torrent \<Rightarrow> int" where
  "pg_rank env query r = (case pt_tsv r of None \<Rightarrow> 0 | Some v \<Rightarrow> pe_rank env v query)"

definition pg_searchTorrents :: "pg_env \<Rightarrow> string \<Rightarrow> int \<Rightarrow> pgdb \<Rightarrow> sql_row list outcome" where
  "pg_searchTorrents env query off db =
     and_then (pg_text env query) (\<lambda>_.
     and_then (pg_offset off (sort_key (\<lambda>r. - pg_rank env query r) (sort_key (\<lambda>r. - pt_updated r)
         (pe_scan env (filter (pg_found env query) (pg_torrents db)))))) (\<lambda>rs.
       Ok (map (\<lambda>r. [SInt (pt_id r), SBlob (pt_infohash r), sql_text (pt_name r), sql_int (pt_size r),
                     STime (pt_updated r)]) (take 50 rs))))"

text \<open>
  The pending infohashes: torrents without a name that have a peer, the last updated first, each with the
  address of the first of its peers.
\<close>

definition pg_peer_ids :: "int \<Rightarrow> pgdb \<Rightarrow> int list" where
  "pg_peer_ids torrentID db = map fst (filter (\<lambda>l. snd l = torrentID) (pg_peers_torrents db))"

fun min_id :: "int list \<Rightarrow> int" where
  "min_id [] = 0"
| "min_id (x # xs) = fold min xs x"

definition pg_first_peer :: "pgdb \<Rightarrow> pg_torrent \<Rightarrow> pg_peer option" where
  "pg_first_peer db r = find (\<lambda>p. pp_id p = min_id (pg_peer_ids (pt_id r) db)) (pg_peers db)"

definition pg_pending :: "pgdb \<Rightarrow> pg_torrent list" where
  "pg_pending db = filter (\<lambda>r. pt_name r = None \<and> pg_peer_ids (pt_id r) db \<noteq> []) (pg_torrents db)"

definition pg_selectPendingInfohashes :: "pg_env \<Rightarrow> int \<Rightarrow> pgdb \<Rightarrow> sql_row list outcome" where
  "pg_selectPendingInfohashes env n db =
     and_then (pg_limit n (sort_key (\<lambda>r. - pt_updated r) (pe_scan env (pg_pending db)))) (\<lambda>rs.
       Ok (concat (map (\<lambda>r. case pg_first_peer db r of
                              None \<Rightarrow> []
                            | Some p \<Rightarrow> [[SText (pp_address p), SBlob (pt_infohash r)]]) (pe_join env rs))))"

end
