(* ===== verification/Pg_Store.thy ===== *)
theory Pg_Store
  imports Pg_Tables
begin

text \<open>
  The store of \<^verbatim>\<open>db/pgsql.go\<close> on the tables of \<open>Pg_Tables\<close>. A call is one step: there is
  no lock, and calls that overlap are not considered. \<^verbatim>\<open>SaveTorrent\<close> runs in a transaction, but saves its
  tags on other connections of the pool: they stay when the transaction is rolled back. The driver reports a failed query as an error and as rows that
  can be closed, and refuses to scan into what is not a pointer.
\<close>

section \<open>Calling the database\<close>

text \<open>\<^verbatim>\<open>Exec\<close>, and \<^verbatim>\<open>QueryRow\<close> with its scan, report the error of the statement.\<close>

definition pg_exec :: "pg_env \<Rightarrow> string \<Rightarrow> (pgdb \<Rightarrow> 'a pg_result) \<Rightarrow> pgdb \<Rightarrow> 'a pg_result" where
  "pg_exec env name stmt db = (case pe_fault env db name of Some e \<Rightarrow> (db, Err e) | None \<Rightarrow> stmt db)"

definition pg_call :: "pg_env \<Rightarrow> pgdb \<Rightarrow> string \<Rightarrow> 'a outcome \<Rightarrow> 'a outcome" where
  "pg_call env db name r = (case pe_fault env db name of Some e \<Rightarrow> Err e | None \<Rightarrow> r)"

text \<open>
  \<^verbatim>\<open>Query\<close> fails when the statement cannot be sent. An error of the statement itself ends the rows, and only
  \<^verbatim>\<open>rows.Err\<close>, which the code never asks, would tell.
\<close>

definition pg_query :: "pg_env \<Rightarrow> pgdb \<Rightarrow> string \<Rightarrow> sql_row list outcome \<Rightarrow> sql_row list outcome" where
  "pg_query env db name rows = pg_call env db name (case rows of Ok rs \<Rightarrow> Ok rs | _ \<Rightarrow> Ok [])"

text \<open>A rollback restores everything but the sequences and what other connections have written: the tags.\<close>

definition pg_roll_back :: "pgdb \<Rightarrow> pgdb \<Rightarrow> pgdb" where
  "pg_roll_back before after =
     before\<lparr>pg_tags := pg_tags after, pg_torrents_seq := pg_torrents_seq after, pg_files_seq := pg_files_seq after,
       pg_tags_seq := pg_tags_seq after, pg_peers_seq := pg_peers_seq after\<rparr>"

section \<open>Opening\<close>

text \<open>
  \<^verbatim>\<open>baseSchema\<close> names a statement that is only prepared later, so the server is sent the bare word, rejects
  it, and refuses every further statement of the transaction. A schema that is there leads to a scan into
  \<^verbatim>\<open>currentVersion\<close>, an \<^verbatim>\<open>int\<close> and not a pointer to one.
\<close>

definition pg_migrate :: "pg_env \<Rightarrow> pgdb \<Rightarrow> unit outcome" where
  "pg_migrate env db =
     pg_call env db ''Begin''
       (and_then (pg_call env db ''pg_tables'' (Ok (pg_settings db \<noteq> None))) (\<lambda>initialized.
          let aborted = (if initialized then False else pg_call env db ''baseSchema'' (Err (Postgres ''42601'')) \<noteq> Ok ()) in
          and_then (pg_call env db ''settings''
             (if aborted then Err (Postgres ''25P02'')
              else case pg_settings db of
                None \<Rightarrow> Err (Postgres ''42P01'')
              | Some [] \<Rightarrow> Err NoRows
              | Some (v # vs) \<Rightarrow> Err ScanConversion)) (\<lambda>_ :: unit. Ok ())))"

definition pg_statement_names :: "string list" where
  "pg_statement_names =
     [''removeTorrent'', ''selectPendingInfohashes'', ''selectFiles'', ''insertPeer'', ''getTorrent'', ''insertFile'',
      ''selectTags'', ''removePeer'', ''insertTagTorrent'', ''insertTag'', ''torrentsByTag'', ''searchTorrents'',
      ''insertTorrent'', ''updateFTSVectors'', ''baseSchema'']"

fun pg_prepareStatements :: "pg_env \<Rightarrow> pgdb \<Rightarrow> string list \<Rightarrow> unit outcome" where
  "pg_prepareStatements env db [] = Ok ()"
| "pg_prepareStatements env db (name # names) =
     and_then (pg_call env db (''prepare '' @ name) (Ok ())) (\<lambda>_. pg_prepareStatements env db names)"

text \<open>\<open>cfg\<close> is what \<^verbatim>\<open>ParseURI\<close> makes of the address, \<open>connect\<close> the database \<^verbatim>\<open>NewConnPool\<close> reaches with it.\<close>

definition pg_NewStore :: "pg_env \<Rightarrow> 'cfg outcome \<Rightarrow> ('cfg \<Rightarrow> pgdb outcome) \<Rightarrow> pgdb outcome" where
  "pg_NewStore env cfg connect =
     and_then cfg (\<lambda>c.
     and_then (connect c) (\<lambda>db.
     and_then (pg_migrate env db) (\<lambda>_.
     and_then (pg_prepareStatements env db pg_statement_names) (\<lambda>_. Ok db))))"

section \<open>Writing\<close>

definition pg_SaveTag :: "pg_env \<Rightarrow> string \<Rightarrow> pgdb \<Rightarrow> int pg_result" where
  "pg_SaveTag env tag = pg_exec env ''insertTag'' (pg_insertTag env tag)"

text \<open>
  The tag is saved on a connection of its own. \<open>locked\<close> are the tags the open transaction has linked; the
  update of such a tag waits for the transaction, which waits for it.
\<close>

definition pg_tag_waits :: "pg_env \<Rightarrow> int list \<Rightarrow> string \<Rightarrow> pgdb \<Rightarrow> bool" where
  "pg_tag_waits env locked tag db \<longleftrightarrow>
     pe_waits env \<and> (\<exists>t \<in> set (pg_tags db). tg_id t \<in> set locked \<and> pg_varchar 50 tag = Ok (tg_name t))"

fun pg_save_tags :: "pg_env \<Rightarrow> int \<Rightarrow> int list \<Rightarrow> string list \<Rightarrow> pgdb \<Rightarrow> unit pg_result" where
  "pg_save_tags env torrentID locked [] db = (db, Ok ())"
| "pg_save_tags env torrentID locked (tag # tags) db =
     store_then (if pg_tag_waits env locked tag db then (db, Hang) else wrapped ''saveTag'' (pg_SaveTag env tag db)) (\<lambda>tagID db.
     store_then (wrapped ''insertTagTorrent'' (pg_exec env ''insertTagTorrent'' (pg_insertTagTorrent tagID torrentID) db)) (\<lambda>_ db'.
       pg_save_tags env torrentID
         (if (tagID, torrentID) \<in> set (pg_tags_torrents db) then locked else tagID # locked) tags db'))"

fun pg_save_files :: "pg_env \<Rightarrow> int \<Rightarrow> File list \<Rightarrow> pgdb \<Rightarrow> unit pg_result" where
  "pg_save_files env torrentID [] db = (db, Ok ())"
| "pg_save_files env torrentID (f # fs) db =
     store_then (wrapped ''insertFile'' (pg_exec env ''insertFile'' (pg_insertFile env torrentID (f_Path f) (f_Size f)) db))
       (\<lambda>_. pg_save_files env torrentID fs)"

definition pg_save_body :: "pg_env \<Rightarrow> Torrent \<Rightarrow> pgdb \<Rightarrow> unit pg_result" where
  "pg_save_body env t db =
     store_then (wrapped ''insertTorrent''
         (pg_exec env ''insertTorrent'' (pg_insertTorrent env (t_Name t) (t_Infohash t) (t_Size t)) db)) (\<lambda>torrentID db.
     store_then (pg_save_tags env torrentID [] (t_Tags t) db) (\<lambda>_ db.
     store_then (pg_save_files env torrentID (t_Files t) db) (\<lambda>_ db.
       wrapped ''updateVectors'' (pg_exec env ''updateFTSVectors'' (pg_updateFTSVectors env torrentID) db))))"

definition pg_SaveTorrent :: "pg_env \<Rightarrow> Torrent \<Rightarrow> pgdb \<Rightarrow> unit pg_result" where
  "pg_SaveTorrent env t db =
     (case pe_fault env db ''Begin'' of
        Some e \<Rightarrow> (db, Err e)
      | None \<Rightarrow>
          (case pg_save_body env t db of
             (db', Ok _) \<Rightarrow>
               (case pe_fault env db' ''Commit'' of
                  None \<Rightarrow> (db', Ok ())
                | Some e \<Rightarrow> (pg_roll_back db db', Err e))
           | (db', r) \<Rightarrow> (pg_roll_back db db', r)))"

definition pg_RemoveTorrent :: "pg_env \<Rightarrow> Torrent \<Rightarrow> pgdb \<Rightarrow> unit pg_result" where
  "pg_RemoveTorrent env t = pg_exec env ''removeTorrent'' (pg_removeTorrent (Infohash_Bytes (t_Infohash t)))"

definition pg_SavePeer :: "pg_env \<Rightarrow> Peer \<Rightarrow> pgdb \<Rightarrow> unit pg_result" where
  "pg_SavePeer env p =
     pg_exec env ''insertPeer'' (pg_insertPeer env (UDPAddr_String (p_Addr p)) (Infohash_Bytes (p_Infohash p)))"

definition pg_RemovePeer :: "pg_env \<Rightarrow> Peer \<Rightarrow> pgdb \<Rightarrow> unit pg_result" where
  "pg_RemovePeer env p = pg_exec env ''removePeer'' (pg_removePeer env (UDPAddr_String (p_Addr p)))"

section \<open>Reading\<close>

fun pg_fetchTorrents :: "pg_env \<Rightarrow> pgdb \<Rightarrow> sql_row list \<Rightarrow> Torrent list outcome" where
  "pg_fetchTorrents env db [] = Ok []"
| "pg_fetchTorrents env db (row # rows) =
     and_then (scan_torrent row) (\<lambda>t.
     and_then (and_then (wrap_err ''failed to select files''
         (pg_query env db ''selectFiles'' (Ok (pg_selectFiles env (t_ID t) db)))) scan_files) (\<lambda>_.
     and_then (and_then (wrap_err ''failed to select tags''
         (pg_query env db ''selectTags'' (Ok (pg_selectTags env (t_ID t) db)))) scan_tags) (\<lambda>tgs.
     and_then (pg_fetchTorrents env db rows) (\<lambda>ts. Ok (t\<lparr>t_Tags := tgs\<rparr> # ts)))))"

definition pg_TorrentByHash :: "pg_env \<Rightarrow> infohash \<Rightarrow> pgdb \<Rightarrow> Torrent outcome" where
  "pg_TorrentByHash env ih db =
     and_then (pg_query env db ''getTorrent'' (Ok (pg_getTorrent ih db))) (\<lambda>rows.
     and_then (pg_fetchTorrents env db rows) (\<lambda>torrents. index_go torrents 0))"

definition pg_TorrentsByName :: "pg_env \<Rightarrow> string \<Rightarrow> int \<Rightarrow> pgdb \<Rightarrow> Torrent list outcome" where
  "pg_TorrentsByName env query off db =
     and_then (pg_query env db ''searchTorrents'' (pg_searchTorrents env (''%'' @ query @ ''%'') off db))
       (pg_fetchTorrents env db)"

definition pg_TorrentsByTag :: "pg_env \<Rightarrow> string \<Rightarrow> int \<Rightarrow> pgdb \<Rightarrow> Torrent list outcome" where
  "pg_TorrentsByTag env tag off db =
     and_then (pg_query env db ''torrentsByTag'' (pg_torrentsByTag env tag off db)) (pg_fetchTorrents env db)"

definition pg_PendingInfohashes :: "pg_env \<Rightarrow> int \<Rightarrow> pgdb \<Rightarrow> Peer list outcome" where
  "pg_PendingInfohashes env n db =
     and_then (pg_query env db ''selectPendingInfohashes'' (pg_selectPendingInfohashes env n db))
       (pending_loop (pe_resolver env))"

end
