(* ===== verification/Pg_Index.thy ===== *)
theory Pg_Index
  imports Pg_Store Store_Properties
begin

text \<open>
  The tables of \<^verbatim>\<open>db/pgsql.go\<close> stay consistent under every call, and the index they stand for changes as the
  abstract operations \<open>pg_index_save\<close> and \<open>pg_index_announce\<close> say, or not at all.
\<close>

section \<open>Integrity\<close>

definition pg_keys :: "pgdb \<Rightarrow> bool" where
  "pg_keys db \<longleftrightarrow>
     distinct (map pt_id (pg_torrents db)) \<and> distinct (map pt_infohash (pg_torrents db)) \<and>
     distinct (map fr_id (pg_files db)) \<and>
     distinct (map tg_id (pg_tags db)) \<and> distinct (map tg_name (pg_tags db)) \<and>
     distinct (map pp_id (pg_peers db)) \<and>
     distinct (pg_tags_torrents db) \<and> distinct (pg_peers_torrents db)"

definition pg_refs :: "pgdb \<Rightarrow> bool" where
  "pg_refs db \<longleftrightarrow>
     (\<forall>f \<in> set (pg_files db). fr_torrent_id f \<in> pt_id ` set (pg_torrents db)) \<and>
     (\<forall>l \<in> set (pg_tags_torrents db). snd l \<in> pt_id ` set (pg_torrents db)) \<and>
     (\<forall>l \<in> set (pg_peers_torrents db). snd l \<in> pt_id ` set (pg_torrents db)) \<and>
     (\<forall>l \<in> set (pg_tags_torrents db). fst l \<in> tg_id ` set (pg_tags db)) \<and>
     (\<forall>l \<in> set (pg_peers_torrents db). fst l \<in> pp_id ` set (pg_peers db))"

text \<open>No number is above the last one drawn, so the next one is new.\<close>

definition pg_drawn :: "pgdb \<Rightarrow> bool" where
  "pg_drawn db \<longleftrightarrow>
     (\<forall>r \<in> set (pg_torrents db). pt_id r \<le> pg_torrents_seq db) \<and> (\<forall>f \<in> set (pg_files db). fr_id f \<le> pg_files_seq db) \<and>
     (\<forall>t \<in> set (pg_tags db). tg_id t \<le> pg_tags_seq db) \<and> (\<forall>p \<in> set (pg_peers db). pp_id p \<le> pg_peers_seq db)"

definition pg_wf :: "pgdb \<Rightarrow> bool" where
  "pg_wf db \<longleftrightarrow> pg_keys db \<and> pg_refs db \<and> pg_drawn db"

lemmas pg_wf_defs = pg_wf_def pg_keys_def pg_refs_def pg_drawn_def

lemma empty_pgdb_wf: "pg_wf empty_pgdb"
  by (simp add: pg_wf_defs empty_pgdb_def)

text \<open>How the database grows during a transaction: consistent, with every tag still there and no sequence set back.\<close>

definition pg_grows :: "pgdb \<Rightarrow> pgdb \<Rightarrow> bool" where
  "pg_grows db db' \<longleftrightarrow> pg_wf db' \<and> set (pg_tags db) \<subseteq> set (pg_tags db') \<and>
     pg_torrents_seq db \<le> pg_torrents_seq db' \<and> pg_files_seq db \<le> pg_files_seq db' \<and>
     pg_tags_seq db \<le> pg_tags_seq db' \<and> pg_peers_seq db \<le> pg_peers_seq db'"

lemma pg_grows_refl: "pg_wf db \<Longrightarrow> pg_grows db db"
  by (simp add: pg_grows_def)

lemma pg_grows_trans: "pg_grows a b \<Longrightarrow> pg_grows b c \<Longrightarrow> pg_grows a c"
  by (auto simp: pg_grows_def)

lemma pg_grows_wf: "pg_grows a b \<Longrightarrow> pg_wf b"
  by (simp add: pg_grows_def)

lemma pg_grows_result: "m = (d, r) \<Longrightarrow> pg_grows db (fst m) \<Longrightarrow> pg_wf d"
  by (simp add: pg_grows_def)

lemma pg_grows_then:
  assumes "pg_grows db (fst m)" "\<And>x d. m = (d, Ok x) \<Longrightarrow> pg_grows d (fst (f x d))"
  shows "pg_grows db (fst (store_then m f))"
  using assms by (cases m; cases "snd m") (auto simp: store_then_def intro: pg_grows_trans)

lemma pg_exec_grows: "pg_wf db \<Longrightarrow> pg_grows db (fst (stmt db)) \<Longrightarrow> pg_grows db (fst (pg_exec env name stmt db))"
  by (simp add: pg_exec_def pg_grows_refl split: option.splits)

lemma pg_nextval_Ok: "pg_nextval s = Ok i \<longleftrightarrow> s < 2 ^ 31 - 1 \<and> i = s + 1"
  by (auto simp: pg_nextval_def)

lemma pg_text_Ok: "pg_text env s = Ok x \<longleftrightarrow> pe_text env s"
  by (simp add: pg_text_def)

lemma pg_wf_seqs:
  "pg_wf db \<Longrightarrow> pg_torrents_seq db \<le> i \<Longrightarrow> pg_wf (db\<lparr>pg_torrents_seq := i\<rparr>)"
  "pg_wf db \<Longrightarrow> pg_files_seq db \<le> i \<Longrightarrow> pg_wf (db\<lparr>pg_files_seq := i\<rparr>)"
  "pg_wf db \<Longrightarrow> pg_tags_seq db \<le> i \<Longrightarrow> pg_wf (db\<lparr>pg_tags_seq := i\<rparr>)"
  "pg_wf db \<Longrightarrow> pg_peers_seq db \<le> i \<Longrightarrow> pg_wf (db\<lparr>pg_peers_seq := i\<rparr>)"
  by (fastforce simp: pg_wf_defs)+

lemma pg_grows_draw:
  "pg_wf db \<Longrightarrow> pg_torrents_seq db \<le> i \<Longrightarrow> pg_grows db (db\<lparr>pg_torrents_seq := i\<rparr>)"
  "pg_wf db \<Longrightarrow> pg_files_seq db \<le> i \<Longrightarrow> pg_grows db (db\<lparr>pg_files_seq := i\<rparr>)"
  "pg_wf db \<Longrightarrow> pg_tags_seq db \<le> i \<Longrightarrow> pg_grows db (db\<lparr>pg_tags_seq := i\<rparr>)"
  "pg_wf db \<Longrightarrow> pg_peers_seq db \<le> i \<Longrightarrow> pg_grows db (db\<lparr>pg_peers_seq := i\<rparr>)"
  by (simp_all add: pg_grows_def pg_wf_seqs)

text \<open>Changing torrents in place, without touching their keys.\<close>

lemma map_torrents_keys:
  assumes "\<And>r. pt_id (g r) = pt_id r" "\<And>r. pt_infohash (g r) = pt_infohash r"
  shows "map pt_id (map g rs) = map pt_id rs" "map pt_infohash (map g rs) = map pt_infohash rs"
    "pt_id ` g ` A = pt_id ` A"
  using assms by (simp_all add: image_image)

lemma pg_wf_map_torrents:
  assumes "pg_wf db" "\<And>r. pt_id (g r) = pt_id r" "\<And>r. pt_infohash (g r) = pt_infohash r"
  shows "pg_wf (db\<lparr>pg_torrents := map g (pg_torrents db)\<rparr>)"
  using assms(1) map_torrents_keys [where g = g, OF assms(2,3)] assms(2)
  by (simp add: pg_wf_defs del: map_map)

lemma pg_grows_map_torrents:
  assumes "pg_wf db" "\<And>r. pt_id (g r) = pt_id r" "\<And>r. pt_infohash (g r) = pt_infohash r"
  shows "pg_grows db (db\<lparr>pg_torrents := map g (pg_torrents db)\<rparr>)"
  using pg_wf_map_torrents [OF assms] by (simp add: pg_grows_def)

lemma pg_wf_add_torrent:
  assumes "pg_wf db" "pt_id r = pg_torrents_seq db + 1" "pt_infohash r \<notin> pt_infohash ` set (pg_torrents db)"
  shows "pg_wf (db\<lparr>pg_torrents_seq := pg_torrents_seq db + 1, pg_torrents := pg_torrents db @ [r]\<rparr>)"
proof -
  have "pt_id r \<notin> pt_id ` set (pg_torrents db)" using assms(1,2) by (fastforce simp: pg_wf_defs)
  with assms show ?thesis by (fastforce simp: pg_wf_defs)
qed

lemma pg_upsert_torrent_grows:
  assumes "pg_wf db" "\<And>r. pt_id (upd r) = pt_id r" "\<And>r. pt_infohash (upd r) = pt_infohash r"
  shows "pg_grows db (fst (pg_upsert_torrent row upd db))"
proof (cases "pg_nextval (pg_torrents_seq db)")
  case (Ok i)
  then have i: "i = pg_torrents_seq db + 1" by (simp add: pg_nextval_Ok)
  let ?d = "db\<lparr>pg_torrents_seq := i\<rparr>"
  show ?thesis
  proof (cases "find (\<lambda>r. pt_infohash r = pt_infohash row) (pg_torrents db)")
    case None
    then have "pt_infohash row \<notin> pt_infohash ` set (pg_torrents db)" by (auto simp: find_None)
    with Ok None pg_wf_add_torrent [OF assms(1), of "row\<lparr>pt_id := i\<rparr>"] i show ?thesis
      by (simp add: pg_upsert_torrent_def store_then_def pg_grows_def)
  next
    case (Some r)
    let ?g = "\<lambda>x. if pt_infohash x = pt_infohash row then upd x else x"
    have "pg_wf (?d\<lparr>pg_torrents := map ?g (pg_torrents ?d)\<rparr>)"
      using assms pg_wf_seqs(1) [OF assms(1), of i] i by (intro pg_wf_map_torrents) auto
    with Ok Some i show ?thesis by (simp add: pg_upsert_torrent_def store_then_def pg_grows_def)
  qed
qed (simp_all add: pg_upsert_torrent_def store_then_def pg_grows_refl assms(1))

lemma pg_insertTorrent_grows: "pg_wf db \<Longrightarrow> pg_grows db (fst (pg_insertTorrent env name ih sz db))"
  unfolding pg_insertTorrent_def
  by (intro pg_grows_then) (auto simp: pg_grows_refl intro!: pg_upsert_torrent_grows)

lemma pg_wf_add_tag:
  assumes "pg_wf db" "\<forall>t \<in> set (pg_tags db). tg_id t < tg_id r \<and> tg_name t \<noteq> tg_name r" "tg_id r \<le> pg_tags_seq db"
  shows "pg_wf (db\<lparr>pg_tags := pg_tags db @ [r]\<rparr>)"
  using assms by (fastforce simp: pg_wf_defs)

lemma pg_insertTag_grows:
  assumes "pg_wf db"
  shows "pg_grows db (fst (pg_insertTag env name db))"
proof (cases "and_then (pg_text env name) (\<lambda>_. pg_nextval (pg_tags_seq db))")
  case (Ok i)
  then have i: "i = pg_tags_seq db + 1" by (auto simp: and_then_Ok_iff pg_nextval_Ok)
  let ?d = "db\<lparr>pg_tags_seq := i\<rparr>"
  have d: "pg_grows db ?d" "pg_wf ?d" using assms i by (simp_all add: pg_grows_draw pg_wf_seqs)
  have "pg_wf (?d\<lparr>pg_tags := pg_tags ?d @ [\<lparr>tg_id = i, tg_name = name'\<rparr>]\<rparr>)"
    if "find (\<lambda>t. tg_name t = name') (pg_tags db) = None" for name'
    using that d assms i by (intro pg_wf_add_tag) (fastforce simp: find_None pg_wf_defs)+
  with d have "pg_grows db (fst (case find (\<lambda>t. tg_name t = name') (pg_tags ?d) of
         None \<Rightarrow> (?d\<lparr>pg_tags := pg_tags ?d @ [\<lparr>tg_id = i, tg_name = name'\<rparr>]\<rparr>, Ok i)
       | Some t \<Rightarrow> (?d, Ok (tg_id t))))" for name'
    by (auto simp: pg_grows_def split: option.splits)
  with Ok d show ?thesis
    by (cases "pg_varchar 50 name") (simp_all add: pg_insertTag_def store_then_def)
qed (simp_all add: pg_insertTag_def store_then_def pg_grows_refl assms)

lemma pg_SaveTag_grows: "pg_wf db \<Longrightarrow> pg_grows db (fst (pg_SaveTag env tag db))"
  by (simp add: pg_SaveTag_def pg_exec_grows pg_insertTag_grows)

lemma pg_insertTagTorrent_grows: "pg_wf db \<Longrightarrow> pg_grows db (fst (pg_insertTagTorrent a i db))"
  by (auto simp: pg_insertTagTorrent_def pg_grows_def pg_wf_defs)

lemma pg_wf_add_file:
  assumes "pg_wf db" "\<forall>f \<in> set (pg_files db). fr_id f < fr_id r" "fr_id r \<le> pg_files_seq db"
    "fr_torrent_id r \<in> pt_id ` set (pg_torrents db)"
  shows "pg_wf (db\<lparr>pg_files := pg_files db @ [r]\<rparr>)"
  using assms by (fastforce simp: pg_wf_defs)

lemma pg_insertFile_grows:
  assumes "pg_wf db"
  shows "pg_grows db (fst (pg_insertFile env i path sz db))"
proof (cases "and_then (pg_text env path) (\<lambda>_. pg_nextval (pg_files_seq db))")
  case (Ok k)
  then have k: "k = pg_files_seq db + 1" by (auto simp: and_then_Ok_iff pg_nextval_Ok)
  let ?d = "db\<lparr>pg_files_seq := k\<rparr>"
  have d: "pg_grows db ?d" "pg_wf ?d" using assms k by (simp_all add: pg_grows_draw pg_wf_seqs)
  have "pg_wf (?d\<lparr>pg_files := pg_files ?d @ [\<lparr>fr_id = k, fr_torrent_id = i, fr_path = path, fr_size = sz\<rparr>]\<rparr>)"
    if "i \<in> pt_id ` set (pg_torrents db)"
    using that d(2) assms k by (intro pg_wf_add_file) (fastforce simp: pg_wf_def pg_drawn_def)+
  with d Ok show ?thesis by (auto simp: pg_insertFile_def store_then_def pg_grows_def)
qed (simp_all add: pg_insertFile_def store_then_def pg_grows_refl assms)

lemma pg_updateFTSVectors_grows: "pg_wf db \<Longrightarrow> pg_grows db (fst (pg_updateFTSVectors env i db))"
  by (auto simp: pg_updateFTSVectors_def intro!: pg_grows_map_torrents)

lemma pg_save_tags_grows: "pg_wf db \<Longrightarrow> pg_grows db (fst (pg_save_tags env i locked tags db))"
proof (induction env i locked tags db rule: pg_save_tags.induct)
  case (2 env i locked tag tags db)
  let ?m = "if pg_tag_waits env locked tag db then (db, Hang) else wrapped ''saveTag'' (pg_SaveTag env tag db)"
  have m: "pg_grows db (fst ?m)" using "2.prems" by (simp add: pg_grows_refl pg_SaveTag_grows)
  have link: "pg_grows d (fst (wrapped ''insertTagTorrent'' (pg_exec env ''insertTagTorrent'' (pg_insertTagTorrent a i) d)))"
    if "pg_wf d" for a d using that by (simp add: pg_exec_grows pg_insertTagTorrent_grows)
  show ?case unfolding pg_save_tags.simps
  proof (intro pg_grows_then m link)
    fix a d assume "?m = (d, Ok a)"
    from this m show wf: "pg_wf d" by (rule pg_grows_result)
    fix u d'
    assume d': "wrapped ''insertTagTorrent'' (pg_exec env ''insertTagTorrent'' (pg_insertTagTorrent a i) d) = (d', Ok u)"
    from this link [OF wf, of a] have "pg_wf d'" by (rule pg_grows_result)
    from "2.IH" [OF this] show "pg_grows d' (fst (pg_save_tags env i (if (a, i) \<in> set (pg_tags_torrents d) then locked else a # locked) tags d'))" .
  qed
qed (simp add: pg_grows_refl)

lemma pg_save_files_grows: "pg_wf db \<Longrightarrow> pg_grows db (fst (pg_save_files env i fs db))"
proof (induction env i fs db rule: pg_save_files.induct)
  case (2 env i f fs db)
  let ?m = "wrapped ''insertFile'' (pg_exec env ''insertFile'' (pg_insertFile env i (f_Path f) (f_Size f)) db)"
  have m: "pg_grows db (fst ?m)" using "2.prems" by (simp add: pg_exec_grows pg_insertFile_grows)
  then show ?case unfolding pg_save_files.simps using "2.IH"
    by (intro pg_grows_then) (auto dest: pg_grows_wf)
qed (simp add: pg_grows_refl)

lemma pg_save_body_grows:
  assumes "pg_wf db"
  shows "pg_grows db (fst (pg_save_body env t db))"
proof -
  let ?m = "wrapped ''insertTorrent'' (pg_exec env ''insertTorrent'' (pg_insertTorrent env (t_Name t) (t_Infohash t) (t_Size t)) db)"
  have m: "pg_grows db (fst ?m)" using assms by (simp add: pg_exec_grows pg_insertTorrent_grows)
  have fts: "pg_grows d (fst (wrapped ''updateVectors'' (pg_exec env ''updateFTSVectors'' (pg_updateFTSVectors env i) d)))"
    if "pg_wf d" for i d using that by (simp add: pg_exec_grows pg_updateFTSVectors_grows)
  show ?thesis unfolding pg_save_body_def
    by (intro pg_grows_then m pg_save_tags_grows pg_save_files_grows fts)
      (auto dest: pg_grows_result [OF _ m] pg_grows_result [OF _ pg_save_tags_grows] pg_grows_result [OF _ pg_save_files_grows])
qed

lemma pg_roll_back_wf:
  assumes "pg_wf db" "pg_grows db db'"
  shows "pg_wf (pg_roll_back db db')"
proof -
  have "pg_keys (pg_roll_back db db')" using assms by (simp add: pg_wf_def pg_grows_def pg_roll_back_def pg_keys_def)
  moreover have "pg_refs (pg_roll_back db db')"
    using assms by (simp add: pg_wf_def pg_grows_def pg_roll_back_def pg_refs_def) (meson image_mono subsetD)
  moreover have "pg_drawn (pg_roll_back db db')"
    using assms by (force simp: pg_wf_def pg_grows_def pg_roll_back_def pg_drawn_def)
  ultimately show ?thesis by (simp add: pg_wf_def)
qed

lemma pg_SaveTorrent_wf: "pg_wf db \<Longrightarrow> pg_wf (fst (pg_SaveTorrent env t db))"
  using pg_save_body_grows [of db env t] pg_roll_back_wf [of db "fst (pg_save_body env t db)"]
  by (auto simp: pg_SaveTorrent_def pg_grows_wf split: option.splits prod.splits outcome.splits)

lemma cascade_pair:
  "\<forall>l \<in> set ls. fst l \<in> k ` set rs \<Longrightarrow> (a, b) \<in> set ls \<Longrightarrow> a \<notin> k ` {x \<in> set rs. P x} \<Longrightarrow> a \<in> k ` {x \<in> set rs. \<not> P x}"
  "\<forall>l \<in> set ls. snd l \<in> k ` set rs \<Longrightarrow> (a, b) \<in> set ls \<Longrightarrow> b \<notin> k ` {x \<in> set rs. P x} \<Longrightarrow> b \<in> k ` {x \<in> set rs. \<not> P x}"
  using cascade_ref [of ls fst k rs "(a, b)" P] cascade_ref [of ls snd k rs "(a, b)" P] by auto

lemma pg_removeTorrent_wf: "pg_wf db \<Longrightarrow> pg_wf (fst (pg_removeTorrent ih db))"
  by (auto simp: pg_wf_defs pg_removeTorrent_def Let_def distinct_map_filter
      intro: cascade_ref [of _ fr_torrent_id pt_id] cascade_pair)

lemma pg_RemoveTorrent_wf: "pg_wf db \<Longrightarrow> pg_wf (fst (pg_RemoveTorrent env t db))"
  by (simp add: pg_RemoveTorrent_def pg_exec_def pg_removeTorrent_wf split: option.splits)

lemma pg_removePeer_wf: "pg_wf db \<Longrightarrow> pg_wf (fst (pg_removePeer env addr db))"
  by (auto simp: pg_removePeer_def store_then_def pg_wf_defs Let_def distinct_map_filter split: outcome.splits
      intro: cascade_pair)

lemma pg_RemovePeer_wf: "pg_wf db \<Longrightarrow> pg_wf (fst (pg_RemovePeer env p db))"
  by (simp add: pg_RemovePeer_def pg_exec_def pg_removePeer_wf split: option.splits)

text \<open>The torrent an upsert returns is there.\<close>

lemma pg_upsert_torrent_Ok:
  assumes "pg_upsert_torrent row upd db = (db', Ok i)" "\<And>r. pt_id (upd r) = pt_id r"
  shows "i \<in> pt_id ` set (pg_torrents db')" "pg_peers db' = pg_peers db" "pg_peers_seq db' = pg_peers_seq db"
    "pg_peers_torrents db' = pg_peers_torrents db"
proof -
  have "i \<in> pt_id ` set (pg_torrents db') \<and> pg_peers db' = pg_peers db \<and> pg_peers_seq db' = pg_peers_seq db \<and>
      pg_peers_torrents db' = pg_peers_torrents db"
  proof (cases "find (\<lambda>r. pt_infohash r = pt_infohash row) (pg_torrents db)")
    case None
    with assms(1) show ?thesis by (auto simp: pg_upsert_torrent_def store_then_Ok Let_def)
  next
    case (Some r)
    then have r: "r \<in> set (pg_torrents db)" by (auto simp: find_Some_iff)
    let ?g = "\<lambda>x. if pt_infohash x = pt_infohash row then upd x else x"
    have same: "pt_id ` ?g ` A = pt_id ` A" for A
      unfolding image_image by (rule image_cong) (simp_all add: assms(2))
    from Some assms(1) have "db' = db\<lparr>pg_torrents_seq := pg_torrents_seq db', pg_torrents := map ?g (pg_torrents db)\<rparr>" "i = pt_id r"
      by (auto simp: pg_upsert_torrent_def store_then_Ok Let_def)
    with r same show ?thesis by (cases db') simp
  qed
  then show "i \<in> pt_id ` set (pg_torrents db')" "pg_peers db' = pg_peers db" "pg_peers_seq db' = pg_peers_seq db"
    "pg_peers_torrents db' = pg_peers_torrents db" by simp_all
qed

lemma pg_wf_add_peer:
  assumes "pg_wf db" "\<forall>p \<in> set (pg_peers db). pp_id p < pp_id q" "pp_id q \<le> pg_peers_seq db" "i \<in> pt_id ` set (pg_torrents db)"
  shows "pg_wf (db\<lparr>pg_peers := pg_peers db @ [q], pg_peers_torrents := List.insert (pp_id q, i) (pg_peers_torrents db)\<rparr>)"
  using assms by (fastforce simp: pg_wf_defs)

lemma pg_insertPeer_wf:
  assumes "pg_wf db"
  shows "pg_wf (fst (pg_insertPeer env addr ih db))"
proof (cases "and_then (pg_text env addr) (\<lambda>_. pg_nextval (pg_peers_seq db))")
  case (Ok k)
  then have k: "k = pg_peers_seq db + 1" by (auto simp: and_then_Ok_iff pg_nextval_Ok)
  let ?d = "db\<lparr>pg_peers_seq := k\<rparr>"
  let ?up = "pg_upsert_torrent (new_torrent_row env ih None None) (\<lambda>x. x\<lparr>pt_updated := pe_now env\<rparr>) ?d"
  have d: "pg_wf ?d" using assms k by (simp add: pg_wf_seqs)
  then have up: "pg_grows ?d (fst ?up)" by (rule pg_upsert_torrent_grows) simp_all
  have "pg_wf (fst (store_then ?up (\<lambda>i db. (db\<lparr>pg_peers := pg_peers db @
             [\<lparr>pp_id = k, pp_address = a, pp_created = pe_now env, pp_updated = pe_now env\<rparr>],
           pg_peers_torrents := List.insert (k, i) (pg_peers_torrents db)\<rparr>, Ok ()))))" for a
  proof (cases ?up)
    case (Pair d' r)
    then have "pg_wf d'" using up by (rule pg_grows_result)
    moreover have "pg_wf (d'\<lparr>pg_peers := pg_peers d' @ [q], pg_peers_torrents := List.insert (pp_id q, i) (pg_peers_torrents d')\<rparr>)"
      if "r = Ok i" "pp_id q = k" for i q
      using Pair that pg_upsert_torrent_Ok [of "new_torrent_row env ih None None" _ ?d d' i] \<open>pg_wf d'\<close> assms k
      by (intro pg_wf_add_peer) (auto simp: pg_wf_def pg_drawn_def)
    from this [of _ "\<lparr>pp_id = k, pp_address = a, pp_created = pe_now env, pp_updated = pe_now env\<rparr>"]
    have "pg_wf (d'\<lparr>pg_peers := pg_peers d' @ [\<lparr>pp_id = k, pp_address = a, pp_created = pe_now env, pp_updated = pe_now env\<rparr>],
           pg_peers_torrents := List.insert (k, i) (pg_peers_torrents d')\<rparr>)" if "r = Ok i" for i using that by simp
    ultimately show ?thesis using Pair by (cases r) (simp_all add: store_then_def)
  qed
  with Ok d show ?thesis by (cases "pg_varchar 50 addr") (simp_all add: pg_insertPeer_def store_then_def)
qed (simp_all add: pg_insertPeer_def store_then_def assms)

lemma pg_SavePeer_wf: "pg_wf db \<Longrightarrow> pg_wf (fst (pg_SavePeer env p db))"
  by (simp add: pg_SavePeer_def pg_exec_def pg_insertPeer_wf split: option.splits)

section \<open>The index the tables stand for\<close>

type_synonym pg_entry = "string option \<times> int option \<times> (string \<times> int) list \<times> string set"

definition pg_files_of :: "pgdb \<Rightarrow> int \<Rightarrow> (string \<times> int) list" where
  "pg_files_of db i = map (\<lambda>f. (fr_path f, fr_size f)) (filter (\<lambda>f. fr_torrent_id f = i) (pg_files db))"

definition pg_tags_of :: "pgdb \<Rightarrow> int \<Rightarrow> string set" where
  "pg_tags_of db i = tg_name ` {t \<in> set (pg_tags db). (tg_id t, i) \<in> set (pg_tags_torrents db)}"

definition pg_entry_of :: "pgdb \<Rightarrow> pg_torrent \<Rightarrow> pg_entry" where
  "pg_entry_of db r = (pt_name r, pt_size r, pg_files_of db (pt_id r), pg_tags_of db (pt_id r))"

definition pg_index :: "pgdb \<Rightarrow> infohash \<Rightarrow> pg_entry option" where
  "pg_index db ih = map_option (pg_entry_of db) (find (\<lambda>r. pt_infohash r = ih) (pg_torrents db))"

text \<open>The abstract operations. The name under which a tag is kept is what fits the column.\<close>

definition pg_tag_name :: "string \<Rightarrow> string" where
  "pg_tag_name tag = fst (split_chars 50 tag)"

definition pg_index_save :: "Torrent \<Rightarrow> (infohash \<Rightarrow> pg_entry option) \<Rightarrow> infohash \<Rightarrow> pg_entry option" where
  "pg_index_save t ix =
     (let (fs, tgs) = (case ix (t_Infohash t) of None \<Rightarrow> ([], {}) | Some (n, z, fs, tgs) \<Rightarrow> (fs, tgs)) in
      ix(t_Infohash t \<mapsto> (Some (t_Name t), Some (t_Size t), fs @ map (\<lambda>f. (f_Path f, f_Size f)) (t_Files t),
           tgs \<union> pg_tag_name ` set (t_Tags t))))"

definition pg_index_announce :: "infohash \<Rightarrow> (infohash \<Rightarrow> pg_entry option) \<Rightarrow> infohash \<Rightarrow> pg_entry option" where
  "pg_index_announce ih ix = (if ix ih = None then ix(ih \<mapsto> (None, None, [], {})) else ix)"

lemma find_map_key: "(\<And>x. P (g x) = P x) \<Longrightarrow> find P (map g xs) = map_option g (find P xs)"
  by (induction xs) simp_all

lemma pg_varchar_Ok: "pg_varchar n s = Ok a \<Longrightarrow> a = fst (split_chars n s)"
  by (simp add: pg_varchar_def split: prod.splits if_splits)

lemma pg_exec_Ok: "pg_exec env name stmt db = (db', Ok x) \<longleftrightarrow> pe_fault env db name = None \<and> stmt db = (db', Ok x)"
  by (simp add: pg_exec_def split: option.splits)

lemma pg_upsert_find:
  assumes "pg_upsert_torrent row upd db = (db', Ok i)" "\<And>r. pt_infohash (upd r) = pt_infohash r"
  shows "find (\<lambda>r. pt_infohash r = ih) (pg_torrents db') =
      (if ih = pt_infohash row
       then Some (case find (\<lambda>r. pt_infohash r = ih) (pg_torrents db) of None \<Rightarrow> row\<lparr>pt_id := i\<rparr> | Some r \<Rightarrow> upd r)
       else find (\<lambda>r. pt_infohash r = ih) (pg_torrents db))"
    and "i = (case find (\<lambda>r. pt_infohash r = pt_infohash row) (pg_torrents db) of None \<Rightarrow> pg_torrents_seq db + 1 | Some r \<Rightarrow> pt_id r)"
    and "pg_files db' = pg_files db" "pg_tags db' = pg_tags db" "pg_tags_torrents db' = pg_tags_torrents db"
proof -
  let ?g = "\<lambda>x. if pt_infohash x = pt_infohash row then upd x else x"
  have hash: "pt_infohash (?g x) = pt_infohash x" for x by (simp add: assms(2))
  have up: "find (\<lambda>r. pt_infohash r = ih) (map ?g xs) =
      map_option ?g (find (\<lambda>r. pt_infohash r = ih) xs)" for xs
    by (rule find_map_key) (simp add: hash)
  have found: "pt_infohash r = ih" if "find (\<lambda>r. pt_infohash r = ih) xs = Some r" for xs ih and r :: pg_torrent
    using that by (auto simp: find_Some_iff)
  show "i = (case find (\<lambda>r. pt_infohash r = pt_infohash row) (pg_torrents db) of None \<Rightarrow> pg_torrents_seq db + 1 | Some r \<Rightarrow> pt_id r)"
    "pg_files db' = pg_files db" "pg_tags db' = pg_tags db" "pg_tags_torrents db' = pg_tags_torrents db"
    using assms(1) by (auto simp: pg_upsert_torrent_def store_then_Ok Let_def pg_nextval_Ok split: option.splits)
  show "find (\<lambda>r. pt_infohash r = ih) (pg_torrents db') =
      (if ih = pt_infohash row
       then Some (case find (\<lambda>r. pt_infohash r = ih) (pg_torrents db) of None \<Rightarrow> row\<lparr>pt_id := i\<rparr> | Some r \<Rightarrow> upd r)
       else find (\<lambda>r. pt_infohash r = ih) (pg_torrents db))"
  proof (cases "find (\<lambda>r. pt_infohash r = pt_infohash row) (pg_torrents db)")
    case None
    with assms(1) have "pg_torrents db' = pg_torrents db @ [row\<lparr>pt_id := i\<rparr>]"
      by (auto simp: pg_upsert_torrent_def store_then_Ok Let_def)
    with None show ?thesis by (auto simp: find_append split: option.splits)
  next
    case (Some r)
    with assms(1) have "pg_torrents db' = map ?g (pg_torrents db)"
      by (auto simp: pg_upsert_torrent_def store_then_Ok Let_def)
    then have "find (\<lambda>r. pt_infohash r = ih) (pg_torrents db') = map_option ?g (find (\<lambda>r. pt_infohash r = ih) (pg_torrents db))"
      by (simp only: up)
    with Some show ?thesis
      by (cases "find (\<lambda>r. pt_infohash r = ih) (pg_torrents db)") (auto dest: found)
  qed
qed

lemma pg_of_tables:
  "pg_files db' = pg_files db \<Longrightarrow> pg_files_of db' = pg_files_of db"
  "pg_tags db' = pg_tags db \<Longrightarrow> pg_tags_torrents db' = pg_tags_torrents db \<Longrightarrow> pg_tags_of db' = pg_tags_of db"
  by (simp_all add: pg_files_of_def pg_tags_of_def fun_eq_iff)

text \<open>The next number has no files and no tags yet.\<close>

lemma pg_fresh_of:
  assumes "pg_wf db" "pg_torrents_seq db < i"
  shows "pg_files_of db i = []" "pg_tags_of db i = {}"
  using assms by (fastforce simp: pg_files_of_def pg_tags_of_def pg_wf_defs filter_empty_conv)+

lemma pg_upsert_index:
  assumes wf: "pg_wf db" and up: "pg_upsert_torrent row upd db = (db', Ok i)"
    and keys: "\<And>r. pt_id (upd r) = pt_id r" "\<And>r. pt_infohash (upd r) = pt_infohash r"
  shows "pg_index db' = (pg_index db)(pt_infohash row \<mapsto>
    (case find (\<lambda>r. pt_infohash r = pt_infohash row) (pg_torrents db) of
       None \<Rightarrow> (pt_name row, pt_size row, [], {})
     | Some r \<Rightarrow> pg_entry_of db (upd r)))"
proof
  fix ih
  note find = pg_upsert_find [OF up keys(2)]
  have of: "pg_files_of db' = pg_files_of db" "pg_tags_of db' = pg_tags_of db"
    using pg_of_tables(1) [OF find(3)] pg_of_tables(2) [OF find(4,5)] by auto
  then have entry: "pg_entry_of db' = pg_entry_of db" by (simp add: pg_entry_of_def fun_eq_iff)
  show "pg_index db' ih = ((pg_index db)(pt_infohash row \<mapsto> (case find (\<lambda>r. pt_infohash r = pt_infohash row) (pg_torrents db) of
       None \<Rightarrow> (pt_name row, pt_size row, [], {}) | Some r \<Rightarrow> pg_entry_of db (upd r)))) ih"
  proof (cases "ih = pt_infohash row")
    case True
    have "pg_entry_of db (row\<lparr>pt_id := i\<rparr>) = (pt_name row, pt_size row, [], {})"
      if "find (\<lambda>r. pt_infohash r = pt_infohash row) (pg_torrents db) = None"
      using pg_fresh_of [OF wf, of i] find(2) that by (simp add: pg_entry_of_def)
    with True find(1) [of ih] show ?thesis by (simp add: pg_index_def entry split: option.splits)
  next
    case False
    with find(1) [of ih] show ?thesis by (simp add: pg_index_def entry)
  qed
qed

lemma pg_insertTorrent_index:
  assumes "pg_wf db" "pg_insertTorrent env name ih sz db = (db', Ok i)"
  shows "pg_index db' = (pg_index db)(ih \<mapsto> (case pg_index db ih of
      None \<Rightarrow> (Some name, Some sz, [], {}) | Some (n, z, fs, tgs) \<Rightarrow> (Some name, Some sz, fs, tgs)))"
    and "\<exists>r. find (\<lambda>r. pt_infohash r = ih) (pg_torrents db') = Some r \<and> pt_id r = i"
proof -
  let ?row = "new_torrent_row env ih (Some sz) (Some name)"
  let ?upd = "\<lambda>x. x\<lparr>pt_name := Some name, pt_size := Some sz, pt_updated := pe_now env\<rparr>"
  from assms(2) have up: "pg_upsert_torrent ?row ?upd db = (db', Ok i)"
    by (auto simp: pg_insertTorrent_def store_then_Ok)
  from pg_upsert_index [OF assms(1) up] show "pg_index db' = (pg_index db)(ih \<mapsto> (case pg_index db ih of
      None \<Rightarrow> (Some name, Some sz, [], {}) | Some (n, z, fs, tgs) \<Rightarrow> (Some name, Some sz, fs, tgs)))"
    by (simp add: new_torrent_row_def pg_index_def [of db ih] pg_entry_of_def split: option.splits)
  from pg_upsert_find(1) [OF up, of ih] pg_upsert_find(2) [OF up] show "\<exists>r. find (\<lambda>r. pt_infohash r = ih) (pg_torrents db') = Some r \<and> pt_id r = i"
    by (simp add: new_torrent_row_def split: option.splits)
qed

lemma pg_insertTag_tables:
  assumes "pg_wf db" "pg_insertTag env tag db = (d, Ok a)"
  shows "\<exists>t \<in> set (pg_tags d). tg_id t = a \<and> tg_name t = pg_tag_name tag"
    and "pg_tags_of d = pg_tags_of db" "pg_torrents d = pg_torrents db" "pg_files d = pg_files db"
    and "pg_tags_torrents d = pg_tags_torrents db"
proof -
  have d: "(case find (\<lambda>t. tg_name t = pg_tag_name tag) (pg_tags db) of
         None \<Rightarrow> a = pg_tags_seq db + 1 \<and>
           d = db\<lparr>pg_tags_seq := pg_tags_seq db + 1, pg_tags := pg_tags db @ [\<lparr>tg_id = a, tg_name = pg_tag_name tag\<rparr>]\<rparr>
       | Some t \<Rightarrow> a = tg_id t \<and> d = db\<lparr>pg_tags_seq := pg_tags_seq db + 1\<rparr>)"
    using assms(2)
    by (auto simp: pg_insertTag_def store_then_Ok and_then_Ok_iff pg_nextval_Ok pg_tag_name_def dest!: pg_varchar_Ok
        split: option.splits)
  then show "\<exists>t \<in> set (pg_tags d). tg_id t = a \<and> tg_name t = pg_tag_name tag"
    by (auto simp: find_Some_iff split: option.splits)
  show "pg_torrents d = pg_torrents db" "pg_files d = pg_files db" "pg_tags_torrents d = pg_tags_torrents db"
    using d by (auto split: option.splits)
  have "(pg_tags_seq db + 1, j) \<notin> set (pg_tags_torrents db)" for j
    using assms(1) by (fastforce simp: pg_wf_defs)
  then have "{t \<in> set (pg_tags d). (tg_id t, j) \<in> set (pg_tags_torrents d)} =
      {t \<in> set (pg_tags db). (tg_id t, j) \<in> set (pg_tags_torrents db)}" for j
    using d by (auto split: option.splits)
  then show "pg_tags_of d = pg_tags_of db" by (simp add: pg_tags_of_def fun_eq_iff)
qed

lemma pg_insertTagTorrent_tables:
  assumes "pg_wf d" "pg_insertTagTorrent a i d = (d', Ok u)" "t \<in> set (pg_tags d)" "tg_id t = a"
  shows "pg_tags_of d' j = pg_tags_of d j \<union> (if j = i then {tg_name t} else {})"
    and "pg_torrents d' = pg_torrents d" "pg_files d' = pg_files d" "pg_tags d' = pg_tags d"
    and "pg_tags_seq d' = pg_tags_seq d" "pg_files_seq d' = pg_files_seq d"
    and "set (pg_tags_torrents d') = insert (a, i) (set (pg_tags_torrents d))"
proof -
  show keep: "pg_torrents d' = pg_torrents d" "pg_files d' = pg_files d" "pg_tags d' = pg_tags d"
    "pg_tags_seq d' = pg_tags_seq d" "pg_files_seq d' = pg_files_seq d"
    using assms(2) by (auto simp: pg_insertTagTorrent_def split: if_splits)
  show links: "set (pg_tags_torrents d') = insert (a, i) (set (pg_tags_torrents d))"
    using assms(2) by (auto simp: pg_insertTagTorrent_def split: if_splits)
  have "x \<in> set (pg_tags d) \<and> tg_id x = a \<longleftrightarrow> x = t" for x
    using assms(1,3,4) by (auto simp: pg_wf_defs distinct_map dest: inj_onD)
  then have "{x \<in> set (pg_tags d'). (tg_id x, j) \<in> set (pg_tags_torrents d')} =
      {x \<in> set (pg_tags d). (tg_id x, j) \<in> set (pg_tags_torrents d)} \<union> (if j = i then {t} else {})"
    using assms(3,4) by (auto simp: keep links)
  then show "pg_tags_of d' j = pg_tags_of d j \<union> (if j = i then {tg_name t} else {})"
    by (simp add: pg_tags_of_def image_Un)
qed

lemma pg_save_tags_tables:
  "pg_save_tags env i locked tags db = (db', Ok ()) \<Longrightarrow> pg_wf db \<Longrightarrow>
   pg_torrents db' = pg_torrents db \<and> pg_files db' = pg_files db \<and>
   (\<forall>j. pg_tags_of db' j = pg_tags_of db j \<union> (if j = i then pg_tag_name ` set tags else {}))"
proof (induction env i locked tags db rule: pg_save_tags.induct)
  case (2 env i locked tag tags db)
  from "2.prems"(1) obtain a d d' where tag: "pg_insertTag env tag db = (d, Ok a)"
    and link: "pg_insertTagTorrent a i d = (d', Ok ())"
    and rest: "pg_save_tags env i (if (a, i) \<in> set (pg_tags_torrents d) then locked else a # locked) tags d' = (db', Ok ())"
    by (auto simp: store_then_Ok wrapped_Ok pg_exec_Ok pg_SaveTag_def split: if_splits)
  have d: "pg_wf d" using pg_grows_result [OF tag pg_insertTag_grows [OF "2.prems"(2)]] .
  have d': "pg_wf d'" using pg_grows_result [OF link pg_insertTagTorrent_grows [OF d]] .
  note tables = pg_insertTag_tables [OF "2.prems"(2) tag]
  from tables(1) obtain t where t: "t \<in> set (pg_tags d)" "tg_id t = a" "tg_name t = pg_tag_name tag" by blast
  from "2.IH" [OF rest d'] pg_insertTagTorrent_tables [OF d link t(1,2)] tables t(3)
  show ?case by auto
qed simp

lemma pg_save_files_tables:
  "pg_save_files env i fs db = (db', Ok ()) \<Longrightarrow>
   pg_torrents db' = pg_torrents db \<and> pg_tags_of db' = pg_tags_of db \<and>
   (\<forall>j. pg_files_of db' j = pg_files_of db j @ (if j = i then map (\<lambda>f. (f_Path f, f_Size f)) fs else []))"
proof (induction env i fs db rule: pg_save_files.induct)
  case (2 env i f fs db)
  from "2.prems" obtain d where d: "pg_insertFile env i (f_Path f) (f_Size f) db = (d, Ok ())"
    and rest: "pg_save_files env i fs d = (db', Ok ())"
    by (auto simp: store_then_Ok wrapped_Ok pg_exec_Ok)
  from d have "pg_torrents d = pg_torrents db" "pg_tags_of d = pg_tags_of db"
    "\<forall>j. pg_files_of d j = pg_files_of db j @ (if j = i then [(f_Path f, f_Size f)] else [])"
    by (auto simp: pg_insertFile_def store_then_Ok pg_files_of_def pg_tags_of_def fun_eq_iff split: if_splits)
  with "2.IH" [OF rest] show ?case by auto
qed simp

text \<open>The search vectors are not part of the index.\<close>

lemma pg_updateFTSVectors_index: "pg_updateFTSVectors env i db = (db', Ok ()) \<Longrightarrow> pg_index db' = pg_index db"
proof -
  let ?g = "\<lambda>r. if pt_id r = i then r\<lparr>pt_tsv := torrent_vector env db r\<rparr> else r"
  assume "pg_updateFTSVectors env i db = (db', Ok ())"
  then have db': "db' = db\<lparr>pg_torrents := map ?g (pg_torrents db)\<rparr>" by (simp add: pg_updateFTSVectors_def)
  have "pg_entry_of db' (?g r) = pg_entry_of db r" for r
    by (simp add: pg_entry_of_def db' pg_files_of_def pg_tags_of_def)
  then have entry: "pg_entry_of db' \<circ> ?g = pg_entry_of db" by (simp add: fun_eq_iff)
  have "pg_torrents db' = map ?g (pg_torrents db)" by (simp add: db')
  moreover have "find (\<lambda>r. pt_infohash r = ih) (map ?g xs) = map_option ?g (find (\<lambda>r. pt_infohash r = ih) xs)" for ih xs
    by (rule find_map_key) simp
  ultimately have "find (\<lambda>r. pt_infohash r = ih) (pg_torrents db') = map_option ?g (find (\<lambda>r. pt_infohash r = ih) (pg_torrents db))" for ih
    by (simp only:)
  then show ?thesis by (intro ext) (simp only: pg_index_def option.map_comp entry)
qed

lemma pg_SaveTorrent_index:
  assumes wf: "pg_wf db" and ok: "pg_SaveTorrent env t db = (db', Ok ())"
  shows "pg_index db' = pg_index_save t (pg_index db)"
proof
  fix ih
  from ok have "pg_save_body env t db = (db', Ok ())"
    by (simp add: pg_SaveTorrent_def split: option.splits prod.splits outcome.splits)
  then obtain d i d2 d3 where ins: "pg_insertTorrent env (t_Name t) (t_Infohash t) (t_Size t) db = (d, Ok i)"
    and tags: "pg_save_tags env i [] (t_Tags t) d = (d2, Ok ())" and files: "pg_save_files env i (t_Files t) d2 = (d3, Ok ())"
    and fts: "pg_updateFTSVectors env i d3 = (db', Ok ())"
    by (auto simp: pg_save_body_def store_then_Ok wrapped_Ok pg_exec_Ok)
  have d: "pg_wf d" using pg_grows_result [OF ins pg_insertTorrent_grows [OF wf]] .
  note index = pg_insertTorrent_index(1) [OF wf ins]
  from pg_insertTorrent_index(2) [OF wf ins] obtain r where
    r: "find (\<lambda>r. pt_infohash r = t_Infohash t) (pg_torrents d) = Some r" "pt_id r = i" by blast
  have of: "pg_torrents d3 = pg_torrents d" "pg_tags_of d3 j = pg_tags_of d j \<union> (if j = i then pg_tag_name ` set (t_Tags t) else {})"
    "pg_files_of d3 j = pg_files_of d j @ (if j = i then map (\<lambda>f. (f_Path f, f_Size f)) (t_Files t) else [])" for j
    using pg_save_tags_tables [OF tags d] pg_save_files_tables [OF files] pg_of_tables(1) [of d2 d] by simp_all
  have same: "pt_id x = i \<longleftrightarrow> pt_infohash x = t_Infohash t" if "x \<in> set (pg_torrents d)" for x
  proof -
    have inj: "inj_on pt_id (set (pg_torrents d))" "inj_on pt_infohash (set (pg_torrents d))"
      using d by (simp_all add: pg_wf_defs distinct_map)
    have "r \<in> set (pg_torrents d)" "pt_infohash r = t_Infohash t" using r(1) by (auto simp: find_Some_iff)
    with inj_on_eq_iff [OF inj(1) that] inj_on_eq_iff [OF inj(2) that] r(2) show ?thesis by metis
  qed
  let ?found = "find (\<lambda>r. pt_infohash r = ih) (pg_torrents d)"
  have "pg_index d3 ih = pg_index_save t (pg_index db) ih"
  proof (cases ?found)
    case None
    with r(1) have "ih \<noteq> t_Infohash t" by auto
    with None index [THEN fun_cong, of ih] show ?thesis
      by (simp add: pg_index_def [of d3] pg_index_def [of d] of pg_index_save_def split: prod.splits)
  next
    case (Some x)
    then have x: "x \<in> set (pg_torrents d)" "pt_infohash x = ih" by (auto simp: find_Some_iff)
    have e: "((pg_index db)(t_Infohash t \<mapsto> (case pg_index db (t_Infohash t) of
        None \<Rightarrow> (Some (t_Name t), Some (t_Size t), [], {})
      | Some (n, z, fs, tgs) \<Rightarrow> (Some (t_Name t), Some (t_Size t), fs, tgs)))) ih = Some (pg_entry_of d x)"
      using Some by (simp only: index [symmetric] pg_index_def [of d] option.map)
    show ?thesis
    proof (cases "ih = t_Infohash t")
      case True
      with e Some same [OF x(1)] x(2) show ?thesis
        by (cases "pg_index db ih") (auto simp: pg_index_def [of d3] of pg_entry_of_def pg_index_save_def)
    next
      case False
      with e Some same [OF x(1)] x(2) show ?thesis
        by (simp add: pg_index_def [of d3] of pg_entry_of_def pg_index_save_def split: prod.splits)
    qed
  qed
  then show "pg_index db' ih = pg_index_save t (pg_index db) ih" by (simp add: pg_updateFTSVectors_index [OF fts])
qed

lemma pg_roll_back_index:
  assumes "pg_wf db" "pg_grows db db'"
  shows "pg_index (pg_roll_back db db') = pg_index db"
proof -
  have sub: "set (pg_tags db) \<subseteq> set (pg_tags db')" using assms(2) by (simp add: pg_grows_def)
  have inj: "inj_on tg_id (set (pg_tags db'))" using assms(2) by (simp add: pg_grows_def pg_wf_defs distinct_map)
  have "t \<in> set (pg_tags db)" if "t \<in> set (pg_tags db')" "(tg_id t, j) \<in> set (pg_tags_torrents db)" for t j
  proof -
    from assms(1) that(2) obtain x where "x \<in> set (pg_tags db)" "tg_id x = tg_id t" by (fastforce simp: pg_wf_defs)
    with inj sub that(1) show ?thesis by (auto dest: inj_onD)
  qed
  with sub have "{t \<in> set (pg_tags db'). (tg_id t, j) \<in> set (pg_tags_torrents db)} =
      {t \<in> set (pg_tags db). (tg_id t, j) \<in> set (pg_tags_torrents db)}" for j by blast
  then have "pg_tags_of (pg_roll_back db db') = pg_tags_of db" "pg_files_of (pg_roll_back db db') = pg_files_of db"
    by (simp_all add: pg_tags_of_def pg_files_of_def pg_roll_back_def fun_eq_iff)
  then have "pg_entry_of (pg_roll_back db db') = pg_entry_of db" by (simp add: pg_entry_of_def fun_eq_iff)
  moreover have "pg_torrents (pg_roll_back db db') = pg_torrents db" by (simp add: pg_roll_back_def)
  ultimately show ?thesis by (intro ext) (simp add: pg_index_def)
qed

lemma pg_SaveTorrent_failed:
  assumes "pg_wf db" "pg_SaveTorrent env t db = (db', r)" "r \<noteq> Ok ()"
  shows "db' = pg_roll_back db db'" "pg_grows db db'"
proof -
  have "db' = db \<or> db' = pg_roll_back db (fst (pg_save_body env t db))"
    using assms(2,3) by (auto simp: pg_SaveTorrent_def split: option.splits prod.splits outcome.splits)
  moreover have "pg_grows db (pg_roll_back db (fst (pg_save_body env t db)))"
    using pg_roll_back_wf [OF assms(1) pg_save_body_grows [OF assms(1)], of env t] pg_save_body_grows [OF assms(1), of env t]
    by (simp add: pg_grows_def pg_roll_back_def)
  ultimately show "db' = pg_roll_back db db'" "pg_grows db db'"
    using assms(1) by (auto simp: pg_roll_back_def pg_grows_refl)
qed

lemma pg_SaveTorrent_index_cases:
  assumes "pg_wf db"
  shows "pg_index (fst (pg_SaveTorrent env t db)) =
    (if snd (pg_SaveTorrent env t db) = Ok () then pg_index_save t (pg_index db) else pg_index db)"
proof (cases "pg_SaveTorrent env t db")
  case (Pair db' r)
  have "pg_index db' = pg_index db" if "r \<noteq> Ok ()"
    using pg_SaveTorrent_failed [OF assms Pair that] pg_roll_back_index [OF assms, of db'] by simp
  with Pair pg_SaveTorrent_index [OF assms, of env t db'] show ?thesis by auto
qed

lemma pg_index_cong:
  "pg_torrents db' = pg_torrents db \<Longrightarrow> pg_files db' = pg_files db \<Longrightarrow> pg_tags db' = pg_tags db \<Longrightarrow>
   pg_tags_torrents db' = pg_tags_torrents db \<Longrightarrow> pg_index db' = pg_index db"
  by (simp add: pg_index_def pg_entry_of_def [abs_def] pg_files_of_def pg_tags_of_def fun_eq_iff)

lemma pg_upsert_failed:
  "pg_upsert_torrent row upd db = (d, r) \<Longrightarrow> \<forall>i. r \<noteq> Ok i \<Longrightarrow> d = db"
  by (cases "pg_nextval (pg_torrents_seq db)"; cases r) (auto simp: pg_upsert_torrent_def store_then_def Let_def split: option.splits)

lemma pg_insertPeer_index:
  assumes "pg_wf db"
  shows "pg_index (fst (pg_insertPeer env addr ih db)) =
    (if snd (pg_insertPeer env addr ih db) = Ok () then pg_index_announce ih (pg_index db) else pg_index db)"
proof (cases "and_then (pg_text env addr) (\<lambda>_. pg_nextval (pg_peers_seq db))")
  case (Ok k)
  let ?d = "db\<lparr>pg_peers_seq := k\<rparr>"
  let ?upd = "\<lambda>x. x\<lparr>pt_updated := pe_now env\<rparr>"
  let ?up = "pg_upsert_torrent (new_torrent_row env ih None None) ?upd ?d"
  have k: "pg_wf ?d" using Ok assms by (auto simp: and_then_Ok_iff pg_nextval_Ok pg_wf_seqs)
  have d: "pg_index ?d = pg_index db" by (rule pg_index_cong) simp_all
  have entry: "pg_entry_of ?d (?upd r) = pg_entry_of ?d r" for r by (simp add: pg_entry_of_def)
  have announce: "pg_index d' = pg_index_announce ih (pg_index db)" if "?up = (d', Ok i)" for d' i
    using pg_upsert_index [OF k that]
    by (auto simp: new_torrent_row_def entry pg_index_announce_def fun_eq_iff d [symmetric] pg_index_def [of ?d] split: option.splits)
  have "pg_index (d'\<lparr>pg_peers := ps, pg_peers_torrents := ls\<rparr>) = pg_index d'" for d' ps ls by (rule pg_index_cong) simp_all
  with announce d pg_upsert_failed [of "new_torrent_row env ih None None" ?upd ?d] Ok show ?thesis
    by (cases ?up; cases "snd ?up"; cases "pg_varchar 50 addr")
      (auto simp: pg_insertPeer_def store_then_def)
qed (simp_all add: pg_insertPeer_def store_then_def)

lemma pg_removeTorrent_index:
  assumes "pg_wf db"
  shows "pg_index (fst (pg_removeTorrent ih db)) = (pg_index db)(ih := None)"
proof
  fix ih'
  let ?d = "fst (pg_removeTorrent ih db)"
  have inj: "inj_on pt_id (set (pg_torrents db))" using assms by (simp add: pg_wf_defs distinct_map)
  have rows: "pg_torrents ?d = filter (\<lambda>r. pt_infohash r \<noteq> ih) (pg_torrents db)" by (simp add: pg_removeTorrent_def Let_def)
  have entry: "pg_entry_of ?d r = pg_entry_of db r" if "r \<in> set (pg_torrents db)" "pt_infohash r \<noteq> ih" for r
  proof -
    have keep: "pt_id x \<noteq> pt_id r" if "x \<in> set (pg_torrents db)" "pt_infohash x = ih" for x
      using inj_on_eq_iff [OF inj that(1) \<open>r \<in> _\<close>] that \<open>pt_infohash r \<noteq> ih\<close> by auto
    have "pg_files_of ?d (pt_id r) = pg_files_of db (pt_id r)"
      using keep by (auto simp: pg_files_of_def pg_removeTorrent_def Let_def intro!: filter_cong arg_cong [of _ _ "map _"])
    moreover have "pg_tags_of ?d (pt_id r) = pg_tags_of db (pt_id r)"
      using keep by (fastforce simp: pg_tags_of_def pg_removeTorrent_def Let_def)
    ultimately show ?thesis by (simp add: pg_entry_of_def)
  qed
  show "pg_index ?d ih' = ((pg_index db)(ih := None)) ih'"
  proof (cases "ih' = ih")
    case True
    then show ?thesis by (simp add: pg_index_def rows find_None)
  next
    case False
    then have "find (\<lambda>r. pt_infohash r = ih') (pg_torrents ?d) = find (\<lambda>r. pt_infohash r = ih') (pg_torrents db)"
      unfolding rows by (intro find_filter_other) auto
    moreover have "r \<in> set (pg_torrents db) \<and> pt_infohash r \<noteq> ih"
      if "find (\<lambda>r. pt_infohash r = ih') (pg_torrents db) = Some r" for r
      using that False by (auto simp: find_Some_iff)
    ultimately show ?thesis
      using False entry by (cases "find (\<lambda>r. pt_infohash r = ih') (pg_torrents db)") (simp_all add: pg_index_def)
  qed
qed

lemma pg_removePeer_index: "pg_index (fst (pg_removePeer env addr db)) = pg_index db"
  by (cases "pg_text env addr") (auto simp: pg_removePeer_def store_then_def Let_def intro!: pg_index_cong)

end
