(* ===== verification/Pg_Properties.thy ===== *)
theory Pg_Properties
  imports Pg_Index
begin

text \<open>
  Properties of the store of \<^verbatim>\<open>db/pgsql.go\<close>: it cannot be opened; on a database with its schema every call
  keeps the tables consistent; what saving does to the index the tables stand for, and where that differs
  from the store of \<^verbatim>\<open>db/sqlite.go\<close>; what the queries return; which infohashes it knows, by the same contract
  as that one.
\<close>

section \<open>Calls that succeed\<close>

definition pg_no_faults :: "pg_env \<Rightarrow> bool" where
  "pg_no_faults env \<longleftrightarrow> pe_fault env = (\<lambda>_ _. None)"

text \<open>The sequences have enough numbers left, the server accepts the texts, and no tag is saved twice while it waits.\<close>

definition pg_room :: "Torrent \<Rightarrow> pgdb \<Rightarrow> bool" where
  "pg_room t db \<longleftrightarrow> pg_torrents_seq db < 2 ^ 31 - 1 \<and> pg_tags_seq db + int (length (t_Tags t)) < 2 ^ 31 \<and>
     pg_files_seq db + int (length (t_Files t)) < 2 ^ 31"

definition pg_accepts :: "pg_env \<Rightarrow> Torrent \<Rightarrow> bool" where
  "pg_accepts env t \<longleftrightarrow> pe_text env (t_Name t) \<and> (\<forall>f \<in> set (t_Files t). pe_text env (f_Path f)) \<and>
     (\<forall>tag \<in> set (t_Tags t). pe_text env tag \<and> pg_varchar 50 tag = Ok (pg_tag_name tag)) \<and>
     (pe_waits env \<longrightarrow> distinct (map pg_tag_name (t_Tags t)))"

lemma pg_no_faults_exec: "pg_no_faults env \<Longrightarrow> pg_exec env name stmt db = stmt db"
  by (simp add: pg_no_faults_def pg_exec_def)

lemma pg_insertTag_succeeds:
  assumes "pe_text env tag" "pg_varchar 50 tag = Ok (pg_tag_name tag)" "pg_tags_seq db < 2 ^ 31 - 1"
  shows "\<exists>d a. pg_insertTag env tag db = (d, Ok a) \<and> pg_tags_seq d = pg_tags_seq db + 1 \<and> pg_files_seq d = pg_files_seq db"
  using assms by (auto simp: pg_insertTag_def pg_text_def pg_nextval_def split: option.splits)

lemma pg_save_tags_succeeds:
  assumes "pg_no_faults env"
  shows "pg_wf db \<Longrightarrow> i \<in> pt_id ` set (pg_torrents db) \<Longrightarrow> pg_tags_seq db + int (length tags) < 2 ^ 31 \<Longrightarrow>
    (\<forall>tag \<in> set tags. pe_text env tag \<and> pg_varchar 50 tag = Ok (pg_tag_name tag)) \<Longrightarrow>
    (pe_waits env \<longrightarrow> distinct (map pg_tag_name tags) \<and>
       (\<forall>t \<in> set (pg_tags db). tg_id t \<in> set locked \<longrightarrow> tg_name t \<notin> pg_tag_name ` set tags)) \<Longrightarrow>
    \<exists>db'. pg_save_tags env i locked tags db = (db', Ok ()) \<and> pg_files_seq db' = pg_files_seq db"
proof (induction tags arbitrary: db locked)
  case (Cons tag tags)
  from Cons.prems(3,4) obtain d a where tag: "pg_insertTag env tag db = (d, Ok a)" "pg_tags_seq d = pg_tags_seq db + 1"
    "pg_files_seq d = pg_files_seq db" using pg_insertTag_succeeds [of env tag db] by auto
  note d = pg_insertTag_tables [OF Cons.prems(1) tag(1)] and wf = pg_grows_result [OF tag(1) pg_insertTag_grows [OF Cons.prems(1)]]
  from d(1) obtain t where t: "t \<in> set (pg_tags d)" "tg_id t = a" "tg_name t = pg_tag_name tag" by blast
  then have "a \<in> tg_id ` set (pg_tags d)" by auto
  with Cons.prems(2) d(3) have "\<exists>d'. pg_insertTagTorrent a i d = (d', Ok ())" by (simp add: pg_insertTagTorrent_def)
  then obtain d' where link: "pg_insertTagTorrent a i d = (d', Ok ())" by blast
  note d' = pg_insertTagTorrent_tables [OF wf link t(1,2)]
  have wf': "pg_wf d'" using pg_grows_result [OF link pg_insertTagTorrent_grows [OF wf]] .
  let ?locked = "if (a, i) \<in> set (pg_tags_torrents d) then locked else a # locked"
  have inj: "inj_on tg_id (set (pg_tags d))" using wf by (simp add: pg_wf_defs distinct_map)
  have old: "x \<in> set (pg_tags db)" if "x \<in> set (pg_tags d)" "tg_id x \<noteq> a" for x
    using tag(1) that by (auto simp: pg_insertTag_def store_then_Ok split: option.splits)
  have free: "\<not> pg_tag_waits env locked tag db"
    using Cons.prems(4,5) by (auto simp: pg_tag_waits_def)
  have "\<exists>db'. pg_save_tags env i ?locked tags d' = (db', Ok ()) \<and> pg_files_seq db' = pg_files_seq d'"
  proof (rule Cons.IH [OF wf'])
    show "pe_waits env \<longrightarrow> distinct (map pg_tag_name tags) \<and>
       (\<forall>x \<in> set (pg_tags d'). tg_id x \<in> set ?locked \<longrightarrow> tg_name x \<notin> pg_tag_name ` set tags)"
    proof (intro impI conjI ballI)
      assume w: "pe_waits env"
      with Cons.prems(5) show "distinct (map pg_tag_name tags)" by simp
      fix x assume x: "x \<in> set (pg_tags d')" "tg_id x \<in> set ?locked"
      show "tg_name x \<notin> pg_tag_name ` set tags"
      proof (cases "tg_id x = a")
        case True
        with inj x(1) t have "x = t" by (auto simp: d'(4) dest: inj_onD)
        with w Cons.prems(5) t(3) show ?thesis by auto
      next
        case False
        with x(2) have "tg_id x \<in> set locked" by (auto split: if_splits)
        moreover have "x \<in> set (pg_tags db)" using x(1) False old by (simp add: d'(4))
        ultimately show ?thesis using w Cons.prems(5) by auto
      qed
    qed
  qed (use Cons.prems tag(2) d(3) d' in auto)
  with free tag(1,3) link d'(6) show ?case by (simp add: pg_SaveTag_def pg_no_faults_exec [OF assms])
qed simp

lemma pg_save_files_succeeds:
  assumes "pg_no_faults env"
  shows "i \<in> pt_id ` set (pg_torrents db) \<Longrightarrow> pg_files_seq db + int (length fs) < 2 ^ 31 \<Longrightarrow>
    (\<forall>f \<in> set fs. pe_text env (f_Path f)) \<Longrightarrow> \<exists>db'. pg_save_files env i fs db = (db', Ok ())"
proof (induction fs arbitrary: db)
  case (Cons f fs)
  let ?k = "pg_files_seq db + 1"
  let ?d = "db\<lparr>pg_files_seq := ?k, pg_files := pg_files db @
      [\<lparr>fr_id = ?k, fr_torrent_id = i, fr_path = f_Path f, fr_size = f_Size f\<rparr>]\<rparr>"
  have "pg_insertFile env i (f_Path f) (f_Size f) db = (?d, Ok ())"
    using Cons.prems by (simp add: pg_insertFile_def pg_text_def pg_nextval_def)
  moreover have "\<exists>db'. pg_save_files env i fs ?d = (db', Ok ())" by (rule Cons.IH) (use Cons.prems in auto)
  ultimately show ?case by (simp add: pg_no_faults_exec [OF assms])
qed simp

lemma pg_insertTorrent_succeeds:
  assumes "pe_text env name" "pg_torrents_seq db < 2 ^ 31 - 1"
  shows "\<exists>d i. pg_insertTorrent env name ih sz db = (d, Ok i) \<and> pg_tags_seq d = pg_tags_seq db \<and> pg_files_seq d = pg_files_seq db"
  using assms by (auto simp: pg_insertTorrent_def pg_upsert_torrent_def pg_text_def pg_nextval_def Let_def split: option.splits)

lemma pg_SaveTorrent_succeeds:
  assumes "pg_no_faults env" "pg_wf db" "pg_room t db" "pg_accepts env t"
  shows "\<exists>db'. pg_SaveTorrent env t db = (db', Ok ())"
proof -
  from assms(3,4) obtain d i where ins: "pg_insertTorrent env (t_Name t) (t_Infohash t) (t_Size t) db = (d, Ok i)"
    "pg_tags_seq d = pg_tags_seq db" "pg_files_seq d = pg_files_seq db"
    using pg_insertTorrent_succeeds [of env "t_Name t" db "t_Infohash t" "t_Size t"] by (auto simp: pg_room_def pg_accepts_def)
  have d: "pg_wf d" using pg_grows_result [OF ins(1) pg_insertTorrent_grows [OF assms(2)]] .
  from pg_insertTorrent_index(2) [OF assms(2) ins(1)] have i: "i \<in> pt_id ` set (pg_torrents d)"
    by (auto simp: find_Some_iff)
  have "\<exists>d2. pg_save_tags env i [] (t_Tags t) d = (d2, Ok ()) \<and> pg_files_seq d2 = pg_files_seq d"
    by (rule pg_save_tags_succeeds [OF assms(1) d i]) (use assms(3,4) ins in \<open>auto simp: pg_room_def pg_accepts_def\<close>)
  then obtain d2 where tags: "pg_save_tags env i [] (t_Tags t) d = (d2, Ok ())" "pg_files_seq d2 = pg_files_seq d" by blast
  have "pg_torrents d2 = pg_torrents d" using pg_save_tags_tables [OF tags(1) d] by blast
  with i have "\<exists>d3. pg_save_files env i (t_Files t) d2 = (d3, Ok ())"
    by (intro pg_save_files_succeeds [OF assms(1)])
      (use assms(3,4) ins tags in \<open>auto simp: pg_room_def pg_accepts_def\<close>)
  then obtain d3 where files: "pg_save_files env i (t_Files t) d2 = (d3, Ok ())" by blast
  obtain d4 where "pg_updateFTSVectors env i d3 = (d4, Ok ())" by (simp add: pg_updateFTSVectors_def)
  with ins(1) tags(1) files have "pg_save_body env t db = (d4, Ok ())"
    by (simp add: pg_save_body_def pg_no_faults_exec [OF assms(1)])
  with assms(1) show ?thesis by (simp add: pg_SaveTorrent_def pg_no_faults_def)
qed

section \<open>Properties\<close>

text \<open>The store can never be opened: on a new database the schema is not created and the transaction is
  aborted, on an initialised one the version is scanned into something that is no pointer.\<close>

theorem pg_NewStore_never_opens: "pg_NewStore env cfg connect \<noteq> Ok db"
  by (auto simp: pg_NewStore_def and_then_Ok_iff pg_migrate_def pg_call_def split: option.splits if_splits list.splits)

text \<open>A use of the store: any of its writing methods, under any faults.\<close>

inductive pg_step :: "pgdb \<Rightarrow> pgdb \<Rightarrow> bool" where
  save_torrent: "pg_SaveTorrent env t db = (db', r) \<Longrightarrow> pg_step db db'"
| remove_torrent: "pg_RemoveTorrent env t db = (db', r) \<Longrightarrow> pg_step db db'"
| save_peer: "pg_SavePeer env p db = (db', r) \<Longrightarrow> pg_step db db'"
| remove_peer: "pg_RemovePeer env p db = (db', r) \<Longrightarrow> pg_step db db'"
| save_tag: "pg_SaveTag env tag db = (db', n) \<Longrightarrow> pg_step db db'"

lemma pg_step_wf: "pg_step db db' \<Longrightarrow> pg_wf db \<Longrightarrow> pg_wf db'"
proof (induction rule: pg_step.induct)
  case (save_tag env tag db db' n)
  from pg_grows_result [OF save_tag(1) pg_SaveTag_grows [OF save_tag(2)]] show ?case .
qed (metis fst_conv pg_SaveTorrent_wf pg_RemoveTorrent_wf pg_SavePeer_wf pg_RemovePeer_wf)+

text \<open>Whatever calls are made on the PostgreSQL store, whichever of them fail, keys stay unique, references
  have their rows, and no number is used that was not drawn.\<close>

theorem pg_store_integrity:
  assumes "rtranclp pg_step empty_pgdb db"
  shows "pg_wf db"
  using assms by (induction rule: rtranclp_induct) (auto intro: empty_pgdb_wf pg_step_wf)

text \<open>C12: the PostgreSQL store's \<^verbatim>\<open>SaveTorrent\<close> implements an abstract operation that differs from that of the SQLite
  store: other torrents keep their tags, but a torrent saved again has its files twice and keeps
  the tags it had. When any of its calls fails the index is unchanged and the tables are those
  before, except for tags already saved and numbers already drawn.\<close>

theorem pg_SaveTorrent_refines:
  assumes "pg_wf db"
  shows "(pg_no_faults env \<and> pg_room t db \<and> pg_accepts env t \<longrightarrow>
      (\<exists>db'. pg_SaveTorrent env t db = (db', Ok ()) \<and> pg_wf db' \<and> pg_index db' = pg_index_save t (pg_index db))) \<and>
    (snd (pg_SaveTorrent env t db) \<noteq> Ok () \<longrightarrow>
      (\<exists>db'. fst (pg_SaveTorrent env t db) = pg_roll_back db db' \<and> set (pg_tags db) \<subseteq> set (pg_tags db')) \<and>
      pg_index (fst (pg_SaveTorrent env t db)) = pg_index db)"
proof (intro conjI impI)
  assume "pg_no_faults env \<and> pg_room t db \<and> pg_accepts env t"
  with pg_SaveTorrent_succeeds [of env db t] assms obtain db' where ok: "pg_SaveTorrent env t db = (db', Ok ())" by auto
  with pg_SaveTorrent_index [OF assms ok] pg_SaveTorrent_wf [OF assms, of env t]
  show "\<exists>db'. pg_SaveTorrent env t db = (db', Ok ()) \<and> pg_wf db' \<and> pg_index db' = pg_index_save t (pg_index db)" by auto
next
  assume fail: "snd (pg_SaveTorrent env t db) \<noteq> Ok ()"
  with pg_SaveTorrent_failed [OF assms, of env t "fst (pg_SaveTorrent env t db)" "snd (pg_SaveTorrent env t db)"]
  show "\<exists>db'. fst (pg_SaveTorrent env t db) = pg_roll_back db db' \<and> set (pg_tags db) \<subseteq> set (pg_tags db')"
    by (auto simp: pg_grows_def)
  show "pg_index (fst (pg_SaveTorrent env t db)) = pg_index db" using fail by (simp add: pg_SaveTorrent_index_cases [OF assms])
qed

text \<open>An announcement never loses what the PostgreSQL store knows: a torrent that is stored keeps its name, size,
  files and tags, an unknown one becomes pending, and a call that fails changes nothing.\<close>

theorem pg_SavePeer_keeps_torrents:
  assumes "pg_wf db"
  shows "pg_index (fst (pg_SavePeer env p db)) =
    (if snd (pg_SavePeer env p db) = Ok () then pg_index_announce (p_Infohash p) (pg_index db) else pg_index db)"
  using pg_insertPeer_index [OF assms, of env "UDPAddr_String (p_Addr p)" "Infohash_Bytes (p_Infohash p)"]
  by (simp add: pg_SavePeer_def pg_exec_def Infohash_Bytes_def split: option.splits)

lemma pg_RemoveTorrent_index_cases:
  assumes "pg_wf db"
  shows "pg_index (fst (pg_RemoveTorrent env t db)) =
    (if pe_fault env db ''removeTorrent'' = None then (pg_index db)(t_Infohash t := None) else pg_index db)"
  using pg_removeTorrent_index [OF assms, of "t_Infohash t"]
  by (simp add: pg_RemoveTorrent_def pg_exec_def Infohash_Bytes_def split: option.splits)

lemma pg_RemovePeer_index: "pg_index (fst (pg_RemovePeer env p db)) = pg_index db"
  by (simp add: pg_RemovePeer_def pg_exec_def pg_removePeer_index split: option.splits)

text \<open>\<^verbatim>\<open>TorrentByHash\<close> of the PostgreSQL store never returns a torrent either.\<close>

theorem pg_TorrentByHash_never_returns:
  "pg_TorrentByHash env ih db =
     (case pe_fault env db ''getTorrent'' of
        Some e \<Rightarrow> Err e
      | None \<Rightarrow> if pg_index db ih = None then Panic IndexOutOfRange else Err (ScanArity 7 6))"
proof (cases "filter (\<lambda>r. pt_infohash r = ih) (pg_torrents db)")
  case Nil
  then have "pg_index db ih = None" by (auto simp: pg_index_def find_None filter_empty_conv)
  with Nil show ?thesis
    by (simp add: pg_TorrentByHash_def pg_query_def pg_call_def pg_getTorrent_def index_go_def split: option.splits)
next
  case (Cons r rs)
  then have "r \<in> set (pg_torrents db)" "pt_infohash r = ih" by (auto simp: filter_eq_Cons_iff)
  then have "pg_index db ih \<noteq> None" by (auto simp: pg_index_def find_None)
  with Cons show ?thesis
    by (simp add: pg_TorrentByHash_def pg_query_def pg_call_def pg_getTorrent_def scan_torrent_def split: option.splits)
qed

text \<open>A search by name that finds anything fails here too, and one with a negative offset finds nothing and
  reports no error.\<close>

theorem pg_TorrentsByName_fails:
  assumes "pe_fault env db ''searchTorrents'' = None"
  shows "pg_searchTorrents env (''%'' @ query @ ''%'') off db = Ok (row # rows) \<Longrightarrow>
      pg_TorrentsByName env query off db = Err (ScanArity 5 6)"
    and "off < 0 \<Longrightarrow> pg_TorrentsByName env query off db = Ok []"
proof -
  assume "pg_searchTorrents env (''%'' @ query @ ''%'') off db = Ok (row # rows)"
  moreover from this have "length row = 5"
    by (auto simp: pg_searchTorrents_def and_then_Ok_iff)
  ultimately show "pg_TorrentsByName env query off db = Err (ScanArity 5 6)"
    using assms by (auto simp: pg_TorrentsByName_def pg_query_def pg_call_def scan_torrent_def split: list.splits)
next
  assume "off < 0"
  then show "pg_TorrentsByName env query off db = Ok []"
    using assms
    by (simp add: pg_TorrentsByName_def pg_query_def pg_call_def pg_searchTorrents_def pg_offset_def pg_text_def)
qed

text \<open>A tag that occurs twice in a torrent whose tags are new stops the call for ever: the second update waits
  for the transaction that waits for it.\<close>

lemma pg_repeated_tag_hangs:
  assumes "pg_no_faults env" "pg_wf db" "pe_waits env" "t_Tags t = tag # tag # tags" "pg_index db (t_Infohash t) = None"
    and "pg_room t db" "pe_text env (t_Name t)" "pe_text env tag" "pg_varchar 50 tag = Ok (pg_tag_name tag)"
  shows "snd (pg_SaveTorrent env t db) = Hang"
proof -
  from assms(6,7) obtain d i where ins: "pg_insertTorrent env (t_Name t) (t_Infohash t) (t_Size t) db = (d, Ok i)"
    "pg_tags_seq d = pg_tags_seq db"
    using pg_insertTorrent_succeeds [of env "t_Name t" db "t_Infohash t" "t_Size t"] by (auto simp: pg_room_def)
  have d: "pg_wf d" using pg_grows_result [OF ins(1) pg_insertTorrent_grows [OF assms(2)]] .
  from pg_insertTorrent_index(2) [OF assms(2) ins(1)] obtain r where
    r: "find (\<lambda>r. pt_infohash r = t_Infohash t) (pg_torrents d) = Some r" "pt_id r = i" by blast
  from pg_insertTorrent_index(1) [OF assms(2) ins(1), THEN fun_cong, of "t_Infohash t"] assms(5) r
  have none: "pg_tags_of d i = {}" by (simp add: pg_index_def pg_entry_of_def)
  from pg_insertTag_succeeds [OF assms(8,9), of d] assms(4,6) ins(2) obtain d1 a where
    tag: "pg_insertTag env tag d = (d1, Ok a)" by (auto simp: pg_room_def)
  note d1 = pg_insertTag_tables [OF d tag]
  from d1(1) obtain x where x: "x \<in> set (pg_tags d1)" "tg_id x = a" "tg_name x = pg_tag_name tag" by blast
  have new: "(a, i) \<notin> set (pg_tags_torrents d1)" using none x d1(2) by (auto simp: pg_tags_of_def fun_eq_iff)
  have "i \<in> pt_id ` set (pg_torrents d1)" "a \<in> tg_id ` set (pg_tags d1)" using r x d1(3) by (auto simp: find_Some_iff)
  with new obtain d2 where link: "pg_insertTagTorrent a i d1 = (d2, Ok ())" "pg_tags d2 = pg_tags d1"
    by (simp add: pg_insertTagTorrent_def)
  have "\<not> pg_tag_waits env [] tag d" by (simp add: pg_tag_waits_def)
  moreover have "pg_tag_waits env [a] tag d2" using assms(3,9) x link(2) by (auto simp: pg_tag_waits_def)
  ultimately have "snd (pg_save_tags env i [] (t_Tags t) d) = Hang"
    using tag link(1) new by (simp add: assms(4) pg_SaveTag_def pg_no_faults_exec [OF assms(1)] store_then_def)
  with ins(1) have "snd (pg_save_body env t db) = Hang"
    by (simp add: pg_save_body_def pg_no_faults_exec [OF assms(1)] store_then_def) (auto split: prod.splits)
  with assms(1) show ?thesis by (auto simp: pg_SaveTorrent_def pg_no_faults_def split: prod.splits)
qed

section \<open>Queries\<close>

text \<open>What the server chooses of its own: orders of rows, and nothing else.\<close>

definition pg_orders :: "pg_env \<Rightarrow> bool" where
  "pg_orders env \<longleftrightarrow> (\<forall>rs. mset (pe_scan env rs) = mset rs) \<and> (\<forall>rs. mset (pe_join env rs) = mset rs) \<and>
     (\<forall>ts. mset (pe_tag_order env ts) = mset ts) \<and> (\<forall>fs. mset (pe_file_order env fs) = mset fs)"

lemma pg_orders_set:
  assumes "pg_orders env"
  shows "set (pe_scan env rs) = set rs" "set (pe_join env rs) = set rs" "set (pe_tag_order env ts) = set ts"
    "length (pe_join env rs) = length rs"
  using assms unfolding pg_orders_def by (metis mset_eq_setD, metis mset_eq_setD, metis mset_eq_setD, metis mset_eq_length)

lemma min_id_in: "xs \<noteq> [] \<Longrightarrow> min_id xs \<in> set xs"
proof (cases xs)
  case (Cons x ys)
  have "fold min ys x \<in> insert x (set ys)"
  proof (induction ys arbitrary: x)
    case (Cons y ys)
    from Cons [of "min y x"] show ?case by (auto simp: min_def split: if_splits)
  qed simp
  with Cons show ?thesis by simp
qed simp

text \<open>Every pending infohash the PostgreSQL store hands out belongs to a torrent without a name, and comes with the
  address of a peer that was recorded for it; there are at most as many as asked for.\<close>

theorem pg_pending_sound:
  assumes "pg_orders env" "pg_PendingInfohashes env n db = Ok ps"
  shows "length ps \<le> nat n \<and> (\<forall>p \<in> set ps. \<exists>r \<in> set (pg_torrents db). \<exists>q \<in> set (pg_peers db).
     pt_name r = None \<and> pt_infohash r = p_Infohash p \<and> (pp_id q, pt_id r) \<in> set (pg_peers_torrents db) \<and>
     ResolveUDPAddr (pe_resolver env) ''udp'' (pp_address q) = Ok (p_Addr p))"
proof -
  let ?row = "\<lambda>r. case pg_first_peer db r of None \<Rightarrow> [] | Some p \<Rightarrow> [[SText (pp_address p), SBlob (pt_infohash r)]]"
  from assms(2) obtain rows where rows: "pending_loop (pe_resolver env) rows = Ok ps"
    and sel: "rows = [] \<or> pg_selectPendingInfohashes env n db = Ok rows"
    by (auto simp: pg_PendingInfohashes_def and_then_Ok_iff pg_query_def pg_call_def split: option.splits outcome.splits)
  have short: "length (concat (map ?row rs)) \<le> length rs" for rs by (induction rs) (auto split: option.splits)
  have "length (concat (map ?row (pe_join env (take (nat n) rs)))) \<le> nat n" for rs
    using short [of "pe_join env (take (nat n) rs)"] by (simp only: pg_orders_set(4) [OF assms(1)] length_take)
  with sel have len: "length rows \<le> nat n"
    by (auto simp: pg_selectPendingInfohashes_def and_then_Ok_iff pg_limit_def split: if_splits)
  have "\<exists>r \<in> set (pg_torrents db). \<exists>q \<in> set (pg_peers db). pt_name r = None \<and> ih = pt_infohash r \<and> addr = pp_address q \<and>
      (pp_id q, pt_id r) \<in> set (pg_peers_torrents db)" if row: "[SText addr, SBlob ih] \<in> set rows" for addr ih
  proof -
    have scan: "set (take k (sort_key (\<lambda>r. - pt_updated r) (pe_scan env (pg_pending db)))) \<subseteq> set (pg_pending db)" for k
      using set_take_subset [of k "sort_key (\<lambda>r. - pt_updated r) (pe_scan env (pg_pending db))"]
      by (simp add: pg_orders_set [OF assms(1)])
    with sel row obtain rs where rs: "rows = concat (map ?row (pe_join env rs))" "set rs \<subseteq> set (pg_pending db)"
      by (auto simp: pg_selectPendingInfohashes_def and_then_Ok_iff pg_limit_def split: if_splits)
    from row have "\<exists>r \<in> set rs. [SText addr, SBlob ih] \<in> set (?row r)"
      unfolding rs(1) set_concat set_map pg_orders_set(2) [OF assms(1)] by blast
    with rs(2) obtain r where r: "r \<in> set (pg_pending db)" "[SText addr, SBlob ih] \<in> set (?row r)" by blast
    from r(2) obtain q where first: "pg_first_peer db r = Some q" "addr = pp_address q" "ih = pt_infohash r"
      by (cases "pg_first_peer db r") auto
    then have q: "q \<in> set (pg_peers db)" "pp_id q = min_id (pg_peer_ids (pt_id r) db)" "addr = pp_address q" "ih = pt_infohash r"
      by (auto simp: pg_first_peer_def find_Some_iff)
    from r(1) have "pg_peer_ids (pt_id r) db \<noteq> []" "pt_name r = None" "r \<in> set (pg_torrents db)" by (auto simp: pg_pending_def)
    with min_id_in [of "pg_peer_ids (pt_id r) db"] q show ?thesis by (auto simp: pg_peer_ids_def intro!: bexI [of _ r] bexI [of _ q])
  qed
  with pending_loop_sound [OF rows] len show ?thesis by fastforce
qed

section \<open>Searching by tag\<close>

text \<open>A torrent with a tag has a name and a size, so its row can be scanned.\<close>

definition pg_tags_named :: "pgdb \<Rightarrow> bool" where
  "pg_tags_named db \<longleftrightarrow> (\<forall>ih n z fs tgs. pg_index db ih = Some (n, z, fs, tgs) \<longrightarrow> tgs \<noteq> {} \<longrightarrow> n \<noteq> None \<and> z \<noteq> None)"

lemma pg_SaveTag_index:
  assumes "pg_wf db"
  shows "pg_index (fst (pg_SaveTag env tag db)) = pg_index db"
proof (cases "pg_insertTag env tag db")
  case (Pair d r)
  have "pg_index d = pg_index db"
  proof (cases "\<exists>a. r = Ok a")
    case True
    with Pair pg_insertTag_tables(2-4) [OF assms] show ?thesis
      by (auto simp: pg_index_def pg_entry_of_def [abs_def] pg_files_of_def fun_eq_iff)
  next
    case False
    with Pair have "d = db\<lparr>pg_tags_seq := pg_tags_seq d\<rparr>"
      by (cases "and_then (pg_text env tag) (\<lambda>_. pg_nextval (pg_tags_seq db))"; cases "pg_varchar 50 tag"; cases r)
        (auto simp: pg_insertTag_def store_then_def split: option.splits)
    then show ?thesis by (cases d) (auto intro!: pg_index_cong)
  qed
  with Pair show ?thesis by (simp add: pg_SaveTag_def pg_exec_def split: option.splits)
qed

lemma pg_step_named: "pg_step db db' \<Longrightarrow> pg_wf db \<Longrightarrow> pg_tags_named db \<Longrightarrow> pg_tags_named db'"
proof (induction rule: pg_step.induct)
  case (save_torrent env t db db' r)
  with pg_SaveTorrent_index_cases [of db env t] show ?case
    by (auto simp: pg_tags_named_def pg_index_save_def split: if_splits prod.splits option.splits)
next
  case (remove_torrent env t db db' r)
  with pg_RemoveTorrent_index_cases [of db env t] show ?case by (auto simp: pg_tags_named_def split: if_splits)
next
  case (save_peer env p db db' r)
  with pg_insertPeer_index [of db env "UDPAddr_String (p_Addr p)" "p_Infohash p"] show ?case
    by (auto simp: pg_tags_named_def pg_index_announce_def pg_SavePeer_def pg_exec_def Infohash_Bytes_def
        split: if_splits option.splits)
next
  case (remove_peer env p db db' r)
  with pg_RemovePeer_index [of env p db] show ?case by (simp add: pg_tags_named_def)
next
  case (save_tag env tag db db' n)
  with pg_SaveTag_index [of db env tag] show ?case by (simp add: pg_tags_named_def)
qed

lemma empty_pgdb_named: "pg_tags_named empty_pgdb"
  by (simp add: pg_tags_named_def pg_index_def empty_pgdb_def)

lemma pg_reachable_named: "rtranclp pg_step empty_pgdb db \<Longrightarrow> pg_wf db \<and> pg_tags_named db"
  by (induction rule: rtranclp_induct) (auto intro: empty_pgdb_wf empty_pgdb_named pg_step_wf pg_step_named)

lemma pg_tagged_iff: "pg_tagged tag db r \<longleftrightarrow> tag \<in> pg_tags_of db (pt_id r)"
  by (auto simp: pg_tagged_def pg_tags_of_def)

lemma pg_tagged_row:
  assumes "pg_wf db" "pg_tags_named db" "r \<in> set (pg_torrents db)" "pg_tagged tag db r"
  shows "\<exists>n z. pt_name r = Some n \<and> pt_size r = Some z"
proof -
  have "find (\<lambda>x. pt_infohash x = pt_infohash r) (pg_torrents db) = Some r"
    using assms(1,3) by (intro find_id) (simp_all add: pg_wf_defs)
  then have "pg_index db (pt_infohash r) = Some (pt_name r, pt_size r, pg_files_of db (pt_id r), pg_tags_of db (pt_id r))"
    by (simp add: pg_index_def pg_entry_of_def)
  with assms(2,4) show ?thesis unfolding pg_tags_named_def pg_tagged_iff by blast
qed

lemma pg_fetch_rows:
  assumes "pg_no_faults env" "\<forall>r \<in> set rs. \<exists>n z. pt_name r = Some n \<and> pt_size r = Some z"
  shows "\<exists>ts. pg_fetchTorrents env db (map (\<lambda>r. [SInt (pt_id r), SBlob (pt_infohash r), sql_text (pt_name r),
      sql_int (pt_size r), STime (pt_created r), STime (pt_updated r)]) rs) = Ok ts \<and> map t_Infohash ts = map pt_infohash rs"
  using assms(2)
proof (induction rs)
  case (Cons r rs)
  then obtain n z ts where "pt_name r = Some n" "pt_size r = Some z" "map t_Infohash ts = map pt_infohash rs"
    "pg_fetchTorrents env db (map (\<lambda>r. [SInt (pt_id r), SBlob (pt_infohash r), sql_text (pt_name r),
      sql_int (pt_size r), STime (pt_created r), STime (pt_updated r)]) rs) = Ok ts" by auto
  with assms(1) show ?case
    by (simp add: scan_torrent_def sql_text_def sql_int_def pg_query_def pg_call_def pg_no_faults_def pg_selectFiles_def
        pg_selectTags_def scan_files_rows scan_tags_rows)
qed simp

lemma pages: "concat (map (\<lambda>i. take m (drop (m * i) xs)) [0..<k]) = take (m * k) xs"
  by (induction k) (simp_all add: take_add [symmetric] ac_simps)


section \<open>Which infohashes the stores know\<close>

lemma pg_index_dom:
  "dom (pg_index_save t ix) = insert (t_Infohash t) (dom ix)" "dom (pg_index_announce ih ix) = insert ih (dom ix)"
  by (auto simp: pg_index_save_def pg_index_announce_def split: prod.splits if_splits)

interpretation pgs: known_infohashes pg_wf "\<lambda>db. dom (pg_index db)" "pg_SaveTorrent env" "pg_RemoveTorrent env"
  "pg_SavePeer env" "pg_RemovePeer env" for env
proof
  fix db c assume wf: "pg_wf db"
  let ?db = "apply_call (pg_SaveTorrent env) (pg_RemoveTorrent env) (pg_SavePeer env) (pg_RemovePeer env) c db"
  show "pg_wf ?db"
    using wf by (cases c) (simp_all add: pg_SaveTorrent_wf pg_RemoveTorrent_wf pg_SavePeer_wf pg_RemovePeer_wf)
  have peer: "dom (pg_index (fst (pg_SavePeer env p db))) \<in> {insert (p_Infohash p) (dom (pg_index db)), dom (pg_index db)}" for p
    using pg_insertPeer_index [OF wf, of env "UDPAddr_String (p_Addr p)" "p_Infohash p"]
    by (auto simp: pg_SavePeer_def pg_exec_def Infohash_Bytes_def pg_index_dom split: option.splits)
  have "dom (pg_index ?db) \<subseteq> dom (pg_index db) \<union> call_adds c \<and> dom (pg_index db) - call_removes c \<subseteq> dom (pg_index ?db)"
  proof (cases c)
    case (SaveTorrentCall t)
    then show ?thesis by (auto simp: pg_SaveTorrent_index_cases [OF wf] pg_index_dom)
  next
    case (RemoveTorrentCall t)
    then show ?thesis by (auto simp: pg_RemoveTorrent_index_cases [OF wf])
  next
    case (SavePeerCall p)
    with peer [of p] show ?thesis by auto
  next
    case (RemovePeerCall p)
    then show ?thesis by (simp add: pg_RemovePeer_index)
  qed
  then show "dom (pg_index ?db) \<subseteq> dom (pg_index db) \<union> call_adds c"
    "dom (pg_index db) - call_removes c \<subseteq> dom (pg_index ?db)" by auto
qed


section \<open>Concrete applications\<close>

text \<open>A server that never fails, accepts every text and keeps the order of the table.\<close>

definition sample_pg :: pg_env where
  "sample_pg = \<lparr>pe_fault = (\<lambda>_ _. None), pe_now = 7, pe_text = (\<lambda>_. True), pe_waits = True, pe_tsv = (\<lambda>a b. a @ b),
     pe_match = (\<lambda>_ _. True), pe_rank = (\<lambda>_ _. 0), pe_scan = (\<lambda>rs. rs), pe_join = (\<lambda>rs. rs),
     pe_tag_order = (\<lambda>ts. ts), pe_file_order = (\<lambda>fs. fs), pe_agg_order = (\<lambda>fs. fs),
     pe_resolver = \<lparr>res_hosts = (\<lambda>_. Err ReadError), res_services = (\<lambda>_ _. Err ReadError)\<rparr>\<rparr>"

lemma sample_pg_ok: "pg_no_faults sample_pg" "pg_orders sample_pg" "pe_text sample_pg s"
  by (simp_all add: pg_no_faults_def pg_orders_def sample_pg_def)

lemma sample_pg_saved: "pg_room sample_saved empty_pgdb" "pg_accepts sample_pg sample_saved"
  by (simp_all add: pg_room_def pg_accepts_def sample_saved_def empty_pgdb_def sample_pg_def pg_tag_name_def pg_varchar_short
      split_chars_short)

lemma sample_address: "length (UDPAddr_String (p_Addr sample_announcer)) \<le> 50" "p_Infohash sample_announcer = [1]"
  by (simp_all add: UDPAddr_String_def sample_announcer_def mkPeer_def IP_String_def IP_To4_def dotted_def JoinHostPort_def
      dec_str.simps Let_def)

lemma empty_stored_index: "stored_index empty_database = (\<lambda>_. None)"
  by (simp add: stored_index_def empty_database_def fun_eq_iff)

lemma empty_pg_index: "pg_index empty_pgdb = (\<lambda>_. None)"
  by (simp add: pg_index_def empty_pgdb_def fun_eq_iff)

lemma pg_tag_name_short: "length tag \<le> 50 \<Longrightarrow> pg_tag_name tag = tag"
  by (simp add: pg_tag_name_def split_chars_short)

theorem pg_store_integrity_witness: "pg_wf (fst (pg_SaveTorrent sample_pg sample_saved empty_pgdb))"
proof (rule pg_store_integrity, rule r_into_rtranclp)
  obtain db' r where "pg_SaveTorrent sample_pg sample_saved empty_pgdb = (db', r)" by (rule prod.exhaust)
  then show "pg_step empty_pgdb (fst (pg_SaveTorrent sample_pg sample_saved empty_pgdb))"
    by (simp add: pg_step.save_torrent)
qed

theorem pg_SaveTorrent_refines_witness:
  "\<exists>db'. pg_SaveTorrent sample_pg sample_saved empty_pgdb = (db', Ok ()) \<and>
     pg_index db' [1] = Some (Some ''film'', Some 9, [], {''video'', ''hd''})"
proof -
  from pg_SaveTorrent_refines [OF empty_pgdb_wf, of sample_pg sample_saved] sample_pg_ok(1) sample_pg_saved obtain db' where
    "pg_SaveTorrent sample_pg sample_saved empty_pgdb = (db', Ok ())"
    "pg_index db' = pg_index_save sample_saved (pg_index empty_pgdb)" by auto
  then show ?thesis
    by (simp add: pg_index_save_def sample_saved_def empty_pg_index pg_tag_name_short)
qed

theorem pg_SavePeer_keeps_torrents_witness:
  "pg_index (fst (pg_SavePeer sample_pg sample_announcer empty_pgdb)) [1] = Some (None, None, [], {})"
proof -
  have "snd (pg_SavePeer sample_pg sample_announcer empty_pgdb) = Ok ()"
    by (simp add: pg_SavePeer_def pg_exec_def sample_pg_def pg_insertPeer_def sample_address pg_text_def pg_nextval_def
        pg_varchar_short pg_upsert_torrent_def empty_pgdb_def)
  with pg_SavePeer_keeps_torrents [OF empty_pgdb_wf, of sample_pg sample_announcer] show ?thesis
    by (simp add: pg_index_announce_def sample_address empty_pg_index)
qed

theorem pg_pending_sound_witness:
  "length (case pg_PendingInfohashes sample_pg 10 empty_pgdb of Ok ps \<Rightarrow> ps | _ \<Rightarrow> []) \<le> 10"
proof -
  have "pg_PendingInfohashes sample_pg 10 empty_pgdb = Ok []" by code_simp
  with pg_pending_sound [OF sample_pg_ok(2) this] show ?thesis by simp
qed



text \<open>The vectors are made of a name without its hyphens and underscores: the words around them run together.\<close>

lemma translate_joins_words: "pg_translate ''the_film-2020.mkv'' ''._-'' '' '' = ''thefilm2020 mkv''"
  by code_simp

end
