(* ===== verification/Spec2Isabelle.thy ===== *)
theory Spec2Isabelle
  imports Dispatch Pg_Properties
begin

text \<open>
  dhtsearch is a crawler for the BitTorrent DHT. Its nodes join the DHT and watch for announcements of
  torrents; announced peers go into a store; workers connect to the peers, fetch the metadata of the
  torrents, and the torrents go, tagged, into the store, which can be searched. This development models
  the program and proves what its parts do, one by one and together.

  \<^bold>\<open>Parts of the program and their theories.\<close>

  \<^item> \<open>Go_Prelude\<close>, \<open>Go_Std\<close>, \<open>Go_Sha1\<close>, \<open>Go_Net\<close>, \<open>Go_Resolve\<close>, \<open>Go_Heap\<close>: what the sources use of Go
    1.13 and its standard library. A call ends in an \<open>outcome\<close>: a value, an error, a panic, or never
    (\<open>Hang\<close>: a wait on a channel nobody serves). Strings are lists of characters with one byte each,
    bytes are 8-bit words, \<^verbatim>\<open>int\<close> is 64 bits wide and written as \<open>int\<close> with \<open>wrap64\<close> where it may
    overflow. Hexadecimal and decimal text, SHA-1, printing, parsing and resolving addresses, and
    \<^verbatim>\<open>container/heap\<close> over any comparison are defined from their documentation.
  \<^item> \<open>Infohash\<close>: \<^verbatim>\<open>models/infohash.go\<close>. Identifiers are lists of bytes; \<open>GenerateNeighbour\<close> also returns what
    its in-place append does to its argument.
  \<^item> \<open>Krpc\<close>: \<^verbatim>\<open>krpc/krpc.go\<close>, messages as association lists of dynamic values (\<open>goval\<close>), their accessors,
    compact addresses, integers as bytes.
  \<^item> \<open>Routing_Table\<close>: \<^verbatim>\<open>dht/routing_table.go\<close>, \<^verbatim>\<open>dht/remote_node.go\<close>: the heap of items with their index
    fields and the address map. The invariant \<open>rt_wf\<close> ties the three together; the locale \<open>node_table\<close>
    states what the node relies on and is interpreted for well-formed tables and for tables whose
    identifiers have been overwritten.
  \<^item> \<open>Slab\<close>: \<^verbatim>\<open>dht/slab.go\<close>, the pool of read buffers (locale \<open>block_pool\<close>).
  \<^item> \<open>Torrent\<close>: \<^verbatim>\<open>models/torrent.go\<close>, \<^verbatim>\<open>models/peer.go\<close>.
  \<^item> \<open>Node\<close>, \<open>Node_Properties\<close>, \<open>Node_Lifecycle\<close>: \<^verbatim>\<open>dht/node.go\<close>, \<^verbatim>\<open>dht/messages.go\<close>, \<^verbatim>\<open>dht/packet.go\<close>,
    \<^verbatim>\<open>dht/options.go\<close>. A handler maps the record \<open>node\<close> to the node afterwards and the outcome; the
    goroutines of \<^verbatim>\<open>Run\<close> (reader, writer, neighbour loop) are the rules of the step relation
    \<open>node_step\<close>, in any interleaving, each handling of a packet being one step.
  \<^item> \<open>Bt_Wire\<close>, \<open>Bt_Worker\<close>: \<^verbatim>\<open>bt/worker.go\<close>, \<^verbatim>\<open>bt/options.go\<close>. What a peer sends is a list of bytes;
    \<^verbatim>\<open>fetchMetadata\<close> is a step function on its local variables and its iteration, which ends because
    every message consumes at least four bytes.
  \<^item> \<open>Sql_Tables\<close>, \<open>Store\<close>, \<open>Store_Properties\<close>: \<^verbatim>\<open>db/sqlite.go\<close>. The schema is a record of tables, every
    prepared statement a function on it, with SQLite's row numbers, \<^verbatim>\<open>or replace\<close>, \<^verbatim>\<open>or ignore\<close>, foreign
    keys and cascades. \<open>stored_index\<close> abstracts the tables to the index they stand for. The interfaces
    of \<^verbatim>\<open>models/storage.go\<close> are the locale \<open>torrent_store\<close>, interpreted on this store.
  \<^item> \<open>Pg_Tables\<close>, \<open>Pg_Store\<close>, \<open>Pg_Index\<close>, \<open>Pg_Properties\<close>: \<^verbatim>\<open>db/pgsql.go\<close>, the store for PostgreSQL, in the same
    manner: sequences that never go back, \<^verbatim>\<open>on conflict do update\<close>, a transaction whose tags are saved
    outside it, queries whose late errors are not asked for. \<open>pg_index\<close> is its abstraction. The locale
    \<open>known_infohashes\<close> is what both stores promise; \<open>torrent_store\<close> is a sublocale of it, and the PostgreSQL
    store an interpretation. The file is left out of the program by its build constraint, and
    \<open>pg_NewStore_never_opens\<close> shows that its store could not be opened; the rest is about a database that
    has the schema.
  \<^item> \<open>Tagging\<close>: \<^verbatim>\<open>cmd/dhtsearch/tag.go\<close>.
  \<^item> \<open>Crawler\<close>, \<open>Daemon\<close>: \<^verbatim>\<open>cmd/dhtsearch/main.go\<close>: the callbacks between nodes, workers and store as
    functions on the shared state (\<open>crawler\<close>), the steps of the daemon as the relation \<open>crawl_step\<close>, and
    what \<^verbatim>\<open>main\<close> builds.
  \<^item> \<open>Dispatch\<close>: the goroutines of \<^verbatim>\<open>cmd/dhtsearch/main.go\<close> and the loop of \<^verbatim>\<open>bt/worker.go\<close> together, at the grain
    of calls that take a lock: the relation \<open>daemon_step\<close> on the shared state, the peers to hand out, the
    phase of every worker and the announcements under way. A worker that is not interrupted does what
    \<open>work_on\<close> does in one step.

  \<^bold>\<open>What is outside, and what is assumed of it.\<close> The bencode package, the ARC cache, the resolver, sockets,
  dialling, the database engine's faults and its rendering of dates, and the syntax of regular
  expressions are parameters: fields of the records \<open>env\<close>, \<open>sql_env\<close>, \<open>pg_env\<close> and \<open>crawl_env\<close>, or
  arguments.
  Theorems name what they use: \<open>env_returns\<close> (decoder, encoder and resolver report failure as errors),
  \<open>cache_law\<close> (a key just added is found), \<open>no_faults\<close> and \<open>pg_no_faults\<close> (no call of the database fails),
  \<open>pg_orders\<close> (where a statement leaves the order open the server only permutes the rows),
  \<open>honest_headers\<close> (a header decodes whatever follows it, up to its end). Time, random numbers and the
  order in which a map is iterated or unordered rows are returned are arguments too.

  \<^bold>\<open>What is proved.\<close>

  \<^item> The crawler as a whole: every torrent in the index has been verified against its infohash and has no
    tag to skip, under every interleaving of the goroutines (\<open>interleaved_index_sound\<close>); pending peers
    can always be handed out (\<open>dispatch_completes\<close>); an announcement in a datagram ends up in the index when a peer serves
    the metadata (\<open>announcement_to_index\<close>, below); what \<^verbatim>\<open>main\<close> starts satisfies what the other theorems
    assume (\<open>daemon_ready\<close>).
  \<^item> The DHT node: its invariant under every interleaving, and exactly which datagrams end the process
    (\<open>running_node_safe\<close>, \<open>processPacket_crash\<close>); what each kind of message does; that the neighbour loop
    always gets through its round.
  \<^item> The routing table: integrity, functional behaviour, eviction; \<open>Distance\<close> is the length of the common
    prefix, so its order is the order of the XOR metric.
  \<^item> The worker: only verified metadata is reported, an honest peer is served completely, a bound on the
    number of turns, and the sizes that can never be fetched.
  \<^item> The store: integrity and atomicity under every fault, refinement of the index by \<open>SaveTorrent\<close>, what
    the queries return, and where they fail. The PostgreSQL store: the same for its own abstract
    operation, under its own faults; pages of a search by tag; both stores know exactly the
    infohashes they were told (\<open>stores_know_what_they_are_told\<close>).
  \<^item> Round trips of identifiers, compact addresses, message framing, integers and saved peers.

  \<^bold>\<open>Bounds.\<close> No fuel is used in the model: loops are structural or have a measure. \<open>Distance_bit\<close>, which
  would not end on a zero byte, is a partial function with None for that. The output queue of a node
  holds 1024 packets; sending to a full queue is \<open>Hang\<close> in a handler, and in the step relation the
  goroutine waits until the writer has made room. SQLite's row numbers are unbounded here; PostgreSQL's
  sequences end at 31 bits, as an error.

  \<^bold>\<open>Not modelled.\<close> Logging; closing the store; parsing the command line; the full-text index of the store
  (the rows a search finds are a parameter); deadlines and time-outs, which show as the end of what a
  peer sends; calls of the PostgreSQL store that overlap, which no lock prevents. The goroutine of
  \<^verbatim>\<open>requestPieces\<close> runs to its end when it is started; its interleaving with the reader is not observable
  in the modelled state. A node or worker only records that it called a callback; when the callbacks run,
  relative to each other, is the matter of \<open>Dispatch\<close>. Calls of the SQLite store hold its lock and are single
  steps.
\<close>

section \<open>From a datagram to the index\<close>

text \<open>A peer that answers at an address and serves the metadata, as a client with the metadata extension does.\<close>

definition peer_serves :: "'c crawl_env \<Rightarrow> UDPAddr \<Rightarrow> byte list \<Rightarrow> bool" where
  "peer_serves env addr md \<longleftrightarrow> md \<noteq> [] \<and> length md mod 16384 \<noteq> 0 \<and>
     (\<forall>d. \<exists>m. Encode (ce_env env) d = Ok m \<and> length m \<le> 1022) \<and>
     (\<exists>reply hs x hdr junk u.
        ce_dial env (UDPAddr_String addr) =
          Ok \<lparr>pc_in = honest_stream reply hs x hdr md junk, pc_handshake_err = None, pc_ext_err = None\<rparr> \<and>
        length reply = 68 \<and> onHandshake reply = Ok () \<and> x \<noteq> 0 \<and> length hs < 2 ^ 31 \<and>
        getUTMetaSize (DecodeDict (ce_env env)) hs = Ok (u, int (length md)) \<and>
        honest_headers (DecodeDict (ce_env env)) hdr md (block_count md))"

lemma peer_serves_fetched:
  assumes "peer_serves env (p_Addr p) md"
  shows "fetchMetadata (DecodeDict (ce_env env)) (Encode (ce_env env)) (ce_dial env) self p = FReturn (Ok md)"
proof -
  from assms obtain reply hs x hdr junk u where
    h: "ce_dial env (UDPAddr_String (p_Addr p)) =
        Ok \<lparr>pc_in = honest_stream reply hs x hdr md junk, pc_handshake_err = None, pc_ext_err = None\<rparr>"
      "length reply = 68" "onHandshake reply = Ok ()"
      "getUTMetaSize (DecodeDict (ce_env env)) hs = Ok (u, int (length md))" "length hs < 2 ^ 31"
      "honest_headers (DecodeDict (ce_env env)) hdr md (block_count md)" "x \<noteq> 0"
    by (auto simp: peer_serves_def)
  have md: "md \<noteq> []" "length md mod 16384 \<noteq> 0" "\<forall>d. \<exists>m. Encode (ce_env env) d = Ok m \<and> length m \<le> 1022"
    using assms by (auto simp: peer_serves_def)
  from fetch_honest [where dial = "ce_dial env" and p = p and enc = "Encode (ce_env env)", OF md(1) h md(3)] md(2)
  show ?thesis by (simp add: fetchMetadata_def)
qed


text \<open>A concrete case: one dictionary is the announcement, the handshake, the header and the metadata.\<close>

definition sample_announce :: dict where
  "sample_announce =
     sample_query ''announce_peer'' [(''info_hash'', GStr (bytes_str (sha1_sum [42]))), (''port'', GInt64 80),
       (''implied_port'', GInt64 0)] @ sample_dict 1"

definition sample_system :: "string list crawl_env" where
  "sample_system = (sample_crawl ''xxx'')
     \<lparr>ce_env := (sample_env [])\<lparr>DecodeDict := (\<lambda>bs i. Ok (sample_announce, int (length bs) - 1))\<rparr>\<rparr>"

lemma sample_system_serves: "peer_serves sample_system addr [42]"
proof -
  let ?dec = "\<lambda>bs i. Ok (sample_announce, int (length bs) - 1)"
  have "getUTMetaSize ?dec [7] = Ok (3, int (length [42 :: byte]))"
    by (simp add: getUTMetaSize_def sample_announce_def sample_query_def sample_dict_def krpc_get MaxMetadataSize_def
        BlockSize_def)
  moreover have "honest_headers ?dec (\<lambda>i. [9]) [42] (block_count [42])"
    by (simp add: honest_headers_def block_count_def md_block_def sample_announce_def sample_query_def sample_dict_def
        krpc_get MsgData_def)
  ultimately show ?thesis
    using sample_handshake unfolding peer_serves_def
    by (intro conjI exI [of _ sample_reply] exI [of _ "[7]"] exI [of _ 2] exI [of _ "\<lambda>i. [9]"] exI [of _ "[]"] exI [of _ 3])
      (simp_all add: sample_system_def sample_crawl_def sample_dial_def sample_env_def)
qed

lemma sample_system_torrent:
  "TorrentFromMetadata (DecodeDict (ce_env sample_system)) (sha1_sum [42]) [42] = Ok sample_torrent_a"
  by (simp add: TorrentFromMetadata_def InfohashMatchesMetadata_def sample_system_def sample_announce_def sample_query_def
      sample_dict_def krpc_get sample_torrent_a_def)


section \<open>The goroutines together\<close>

text \<open>C1: however the goroutines of the daemon interleave, between any two calls that take a lock: a torrent in the
  index of a daemon that started with an empty store has been read from metadata that hashes to its
  infohash, with the name, size and files of that metadata, its tags are tags its torrent was
  given, and none of them is among the tags to skip.\<close>

theorem interleaved_index_sound:
  assumes "rtranclp (daemon_step env ws) (daemon_init st ws) s" "cr_db st = empty_database"
    and "stored_index (cr_db (dm_crawler s)) ih = Some (Some name, sz, fs, tgs)"
  shows "(\<exists>md t tags. ih = sha1_sum md \<and> TorrentFromMetadata (DecodeDict (ce_env env)) ih md = Ok t \<and>
      name = t_Name t \<and> sz = t_Size t \<and> fs = map (\<lambda>f. (f_Path f, f_Size f)) (t_Files t) \<and>
      tagTorrent (ce_ord env) t (ce_tagREs env) = Ok tags \<and> tgs \<subseteq> set tags) \<and>
    set (strings_Split (CHR '','') (ce_skipTags env)) \<inter> tgs = {}"
proof -
  from daemon_reachable_ok [OF assms(1,2)] assms(3) have "entry_sound env ih (Some name, sz, fs, tgs)" by (auto simp: daemon_ok_def sq.entries_ok_def)
  then show ?thesis by (fastforce simp: entry_sound_def skipped_iff)
qed

text \<open>A concrete run: an announcement is checked and saved, the peer is handed to the one worker, and its torrent is stored.\<close>

definition sample_found :: Peer where
  "sample_found = mkPeer \<lparr>addr_IP = v4_in_v6_prefix @ [10, 0, 0, 1], addr_Port = 80, addr_Zone = []\<rparr> (sha1_sum [42])"

lemma sample_found_saved:
  "\<exists>db. SavePeer sample_sql sample_found empty_database = (db, Ok ()) \<and> db_wf db \<and>
     PendingInfohashes sample_sql 10 db = Ok [sample_found]"
proof -
  have "IP_To4 (addr_IP (p_Addr sample_found)) = Some [10, 0, 0, 1]" "addr_Port (p_Addr sample_found) < 65536"
    "addr_Zone (p_Addr sample_found) = []" "UDPAddr_String (p_Addr sample_found) \<notin> pr_address ` set (db_peers empty_database)"
    "\<forall>q \<in> set (db_peers empty_database). \<exists>a. ResolveUDPAddr (se_resolver sample_sql) ''udp'' (pr_address q) = Ok a"
    by (simp_all add: sample_found_def IP_To4_mapped empty_database_def)
  from SavePeer_new [OF sample_sql_ok(1) empty_database_wf sample_sql_ok(3) this(4,1,2,3,5)] obtain db where
    db: "SavePeer sample_sql sample_found empty_database = (db, Ok ())" "db_wf db" "length (db_torrents db) \<le> 1"
    and pending: "\<forall>n. n < 0 \<or> length (db_torrents db) \<le> nat n \<longrightarrow> (\<exists>ps. PendingInfohashes sample_sql n db = Ok ps \<and>
       mkPeer \<lparr>addr_IP = v4_in_v6_prefix @ [10, 0, 0, 1], addr_Port = addr_Port (p_Addr sample_found), addr_Zone = []\<rparr>
         (p_Infohash sample_found) \<in> set ps)"
    by (auto simp: empty_database_def)
  from pending [rule_format, of 10] db(3) obtain ps where ps: "PendingInfohashes sample_sql 10 db = Ok ps" "sample_found \<in> set ps"
    by (auto simp: sample_found_def)
  from pending_length [OF sample_sql_ok(3) ps(1)] db(3) have "length ps \<le> 1" by simp
  with ps(2) have "ps = [sample_found]" by (cases ps) auto
  with db ps(1) show ?thesis by blast
qed

theorem interleaved_index_sound_witness:
  "\<exists>s. rtranclp (daemon_step sample_system [sample_worker]) (daemon_init sample_crawler [sample_worker]) s \<and>
     stored_index (cr_db (dm_crawler s)) (sha1_sum [42]) = Some (Some ''a'', 5, [], {''hd''}) \<and>
     (\<exists>md. sha1_sum [42] = sha1_sum md \<and> (\<exists>t. TorrentFromMetadata (DecodeDict (ce_env sample_system)) (sha1_sum [42]) md = Ok t \<and> t_Name t = ''a''))"
proof -
  let ?env = "sample_system" and ?w = "sample_worker" and ?p = "sample_found"
  let ?s = "daemon_init sample_crawler [?w]"
  from sample_found_saved obtain db where db: "SavePeer sample_sql ?p empty_database = (db, Ok ())" "db_wf db"
    "PendingInfohashes sample_sql 10 db = Ok [?p]" by blast
  let ?st = "sample_crawler\<lparr>cr_db := db\<rparr>"
  have "check_announce ?env ?p ?s = ?s\<lparr>dm_announcing := [?p]\<rparr>"
    by (simp add: check_announce_def daemon_init_def sample_system_def sample_env_def sample_crawler_def)
  with daemon_step.check [of ?env "[?w]" ?s ?p] have one: "daemon_step ?env [?w] ?s (?s\<lparr>dm_announcing := [?p]\<rparr>)" by simp
  have "save_announced ?env 0 (?s\<lparr>dm_announcing := [?p]\<rparr>) = daemon_init ?st [?w]"
    using db(1) by (simp add: save_announced_def daemon_init_def sample_system_def sample_crawl_def sample_crawler_def)
  with daemon_step.announce [where k = 0 and s = "?s\<lparr>dm_announcing := [?p]\<rparr>" and env = ?env and ws = "[?w]" and sql = "ce_sql ?env"]
  have two: "daemon_step ?env [?w] (?s\<lparr>dm_announcing := [?p]\<rparr>) (daemon_init ?st [?w])" by simp
  have tags: "tagTorrent (ce_ord ?env) sample_torrent_a (ce_tagREs ?env) = Ok [''hd'']" "\<not> skipped (ce_skipTags ?env) [''hd'']"
    using sample_torrent_a_tags sample_not_skipped(1) by (simp_all add: sample_system_def sample_crawl_def)
  have w: "no_faults (ce_sql ?env)" "db_wf (cr_db ?st)" "w_log ?w" "w_OnNewTorrent ?w" "p_Infohash ?p = sha1_sum [42]"
    using db(2) sample_sql_ok(1) by (simp_all add: sample_system_def sample_crawl_def sample_worker_def sample_found_def)
  from work_on_fetched [OF peer_serves_fetched [OF sample_system_serves] _ tags w(1-4), of ?p] sample_system_torrent w(5)
  obtain st' where work: "work_on ?env [] ?w ?p ?st = Ok st'"
    "stored_index (cr_db st') = index_save (sample_torrent_a\<lparr>t_Tags := [''hd'']\<rparr>) (stored_index db)" by auto
  from uninterrupted_worker [OF work(1), of sample_sql] db(3)
  have "rtranclp (daemon_step ?env [?w]) (daemon_init ?st [?w]) (daemon_init st' [?w])" by simp
  with one two have run: "rtranclp (daemon_step ?env [?w]) ?s (daemon_init st' [?w])"
    by (meson converse_rtranclp_into_rtranclp)
  have entry: "stored_index (cr_db (dm_crawler (daemon_init st' [?w]))) (sha1_sum [42]) = Some (Some ''a'', 5, [], {''hd''})"
    using work(2) by (simp add: daemon_init_def index_save_def sample_torrent_a_def)
  have "cr_db sample_crawler = empty_database" by (simp add: sample_crawler_def)
  from interleaved_index_sound [OF run this entry, THEN conjunct1] obtain md t where
    "sha1_sum [42] = sha1_sum md" "TorrentFromMetadata (DecodeDict (ce_env ?env)) (sha1_sum [42]) md = Ok t" "t_Name t = ''a''"
    by (elim exE conjE) simp
  then have "\<exists>md. sha1_sum [42] = sha1_sum md \<and>
      (\<exists>t. TorrentFromMetadata (DecodeDict (ce_env ?env)) (sha1_sum [42]) md = Ok t \<and> t_Name t = ''a'')" by metis
  with run entry show ?thesis by (intro exI [of _ "daemon_init st' [?w]"] conjI)
qed

end
